(* ===== verification/Prelude.thy ===== *)
theory Prelude
  imports Main "HOL-Library.Sublist" "HOL-Library.Code_Target_Nat"
begin

text \<open>
  The vocabulary every theory of the development shares.

  A byte (\<open>u8\<close>) is Isabelle's \<^typ>\<open>char\<close>, which has exactly 256 values, so a Rust
  \<open>&[u8]\<close> and the bytes of a Rust \<open>&str\<close> are both a \<^typ>\<open>char list\<close> and literals can
  be written as strings. A \<open>usize\<close> is a \<^typ>\<open>nat\<close> with the 64 bit limit written out
  where the code checks it. A Rust call that can return an error or panic yields an
  \<open>outcome\<close>: the panics of slice indexing, \<open>unreachable!\<close> and \<open>expect\<close> are values, so that
  the absence of panics is a theorem and not a convention.
\<close>

section \<open>Bytes and sizes\<close>

type_synonym byte = char
type_synonym bytes = "byte list"

abbreviation byte_val :: "byte \<Rightarrow> nat" where
  "byte_val b \<equiv> of_char b"

definition usize_max :: nat where
  "usize_max = 2 ^ 64 - 1"

definition checked_add :: "nat \<Rightarrow> nat \<Rightarrow> nat option" where
  "checked_add a b = (if a + b \<le> usize_max then Some (a + b) else None)"

lemma checked_add_Some_iff: "checked_add a b = Some c \<longleftrightarrow> c = a + b \<and> a + b \<le> usize_max"
  by (auto simp: checked_add_def)

text \<open>The two bytes an Isabelle string literal cannot hold.\<close>

abbreviation BSL :: byte where "BSL \<equiv> CHR 0x5C"
abbreviation APO :: byte where "APO \<equiv> CHR 0x27"
abbreviation QUO :: byte where "QUO \<equiv> CHR 0x22"

section \<open>Results of Rust calls\<close>

datatype ('e, 'a) outcome = Ok (ok_val: 'a) | Err (err_val: 'e) | Panic

fun map_outcome_err :: "('e \<Rightarrow> 'f) \<Rightarrow> ('e, 'a) outcome \<Rightarrow> ('f, 'a) outcome" where
  "map_outcome_err f (Ok a) = Ok a"
| "map_outcome_err f (Err e) = Err (f e)"
| "map_outcome_err f Panic = Panic"

fun bind_outcome :: "('e, 'a) outcome \<Rightarrow> ('a \<Rightarrow> ('e, 'b) outcome) \<Rightarrow> ('e, 'b) outcome" where
  "bind_outcome (Ok a) f = f a"
| "bind_outcome (Err e) f = Err e"
| "bind_outcome Panic f = Panic"

text \<open>\<open>collect::<Result<Vec<_>, _>>()\<close>: the first error, or every value.\<close>

fun collect_outcomes :: "('e, 'a) outcome list \<Rightarrow> ('e, 'a list) outcome" where
  "collect_outcomes [] = Ok []"
| "collect_outcomes (r # rs) =
     (case r of
        Ok a \<Rightarrow> (case collect_outcomes rs of Ok as \<Rightarrow> Ok (a # as) | Err e \<Rightarrow> Err e | Panic \<Rightarrow> Panic)
      | Err e \<Rightarrow> Err e
      | Panic \<Rightarrow> Panic)"

lemma collect_outcomes_map_Ok [simp]: "collect_outcomes (map (\<lambda>x. Ok (f x)) xs) = Ok (map f xs)"
  by (induction xs) auto

lemma bind_outcome_Ok_iff:
  "bind_outcome r f = Ok b \<longleftrightarrow> (\<exists>a. r = Ok a \<and> f a = Ok b)"
  by (cases r) auto

lemma bind_outcome_Panic_iff:
  "bind_outcome r f = Panic \<longleftrightarrow> r = Panic \<or> (\<exists>a. r = Ok a \<and> f a = Panic)"
  by (cases r) auto

lemma map_outcome_err_Panic_iff [simp]: "map_outcome_err f r = Panic \<longleftrightarrow> r = Panic"
  by (cases r) auto

section \<open>Hint collections\<close>

named_theorems wf_simps "unfolding of well-formedness predicates"
named_theorems rust_simps "evaluation of the string operations of the standard library"

section \<open>Lists\<close>

lemma prefix_iff_take: "prefix p xs \<longleftrightarrow> take (length p) xs = p"
  by (metis append_eq_conv_conj append_take_drop_id prefix_def)

text \<open>
  \<open>occurs_at n h i\<close>: the needle \<open>n\<close> stands in \<open>h\<close> at offset \<open>i\<close>.
\<close>

definition occurs_at :: "'a list \<Rightarrow> 'a list \<Rightarrow> nat \<Rightarrow> bool" where
  "occurs_at n h i \<longleftrightarrow> i \<le> length h \<and> prefix n (drop i h)"

lemma occurs_at_iff_split:
  "occurs_at n h i \<longleftrightarrow> (\<exists>a b. h = a @ n @ b \<and> length a = i)"
proof
  assume "occurs_at n h i"
  then obtain b where "i \<le> length h" and "drop i h = n @ b"
    by (auto simp: occurs_at_def prefix_def)
  then have "h = take i h @ n @ b" and "length (take i h) = i"
    by (metis append_take_drop_id, simp)
  then show "\<exists>a b. h = a @ n @ b \<and> length a = i" by blast
next
  assume "\<exists>a b. h = a @ n @ b \<and> length a = i"
  then show "occurs_at n h i" by (auto simp: occurs_at_def)
qed

lemma occurs_at_bound: "occurs_at n h i \<Longrightarrow> i + length n \<le> length h"
  by (auto simp: occurs_at_iff_split)

lemma occurs_at_append1: "occurs_at n h i \<Longrightarrow> occurs_at n (h @ r) i"
  by (auto simp: occurs_at_def intro: prefix_prefix)

lemma occurs_at_append_iff:
  "i + length n \<le> length h \<Longrightarrow> occurs_at n (h @ r) i \<longleftrightarrow> occurs_at n h i"
  by (simp add: occurs_at_def prefix_iff_take)

lemma occurs_at_Cons_Suc: "occurs_at n (x # h) (Suc i) \<longleftrightarrow> occurs_at n h i"
  by (simp add: occurs_at_def)

lemma occurs_at_drop: "k \<le> length h \<Longrightarrow> occurs_at n (drop k h) i \<longleftrightarrow> occurs_at n h (k + i)"
  by (auto simp: occurs_at_def add.commute)

lemma occurs_at_0 [simp]: "occurs_at n h 0 \<longleftrightarrow> prefix n h"
  by (simp add: occurs_at_def)

text \<open>The first occurrence, as a function.\<close>

fun first_occ :: "'a list \<Rightarrow> 'a list \<Rightarrow> nat option" where
  "first_occ n [] = (if n = [] then Some 0 else None)"
| "first_occ n (x # h) =
     (if prefix n (x # h) then Some 0 else map_option Suc (first_occ n h))"

lemma first_occ_Some_iff:
  "first_occ n h = Some i \<longleftrightarrow> occurs_at n h i \<and> (\<forall>j<i. \<not> occurs_at n h j)"
proof (induction h arbitrary: i)
  case Nil
  then show ?case by (auto simp: occurs_at_def)
next
  case (Cons x h)
  show ?case
  proof (cases i)
    case 0
    then show ?thesis by auto
  next
    case (Suc k)
    then show ?thesis
      using Cons.IH [of k] by (auto simp: occurs_at_Cons_Suc less_Suc_eq_0_disj)
  qed
qed

lemma first_occ_None_iff: "first_occ n h = None \<longleftrightarrow> (\<forall>i. \<not> occurs_at n h i)"
proof (induction h)
  case Nil
  then show ?case by (auto simp: occurs_at_def)
next
  case (Cons x h)
  have "(\<forall>i. \<not> occurs_at n (x # h) i) \<longleftrightarrow> \<not> prefix n (x # h) \<and> (\<forall>i. \<not> occurs_at n h i)"
    by (metis occurs_at_0 occurs_at_Cons_Suc not0_implies_Suc)
  with Cons.IH show ?case by auto
qed

lemma first_occ_bound: "first_occ n h = Some i \<Longrightarrow> i + length n \<le> length h"
  by (auto simp: first_occ_Some_iff dest: occurs_at_bound)

lemma first_occ_take_drop:
  assumes "first_occ n h = Some i"
  shows "take i h @ n = take (i + length n) h"
proof -
  from assms have "prefix n (drop i h)" by (simp add: first_occ_Some_iff occurs_at_def)
  then have "take (length n) (drop i h) = n" by (simp add: prefix_iff_take)
  then show ?thesis by (simp add: take_add)
qed

lemma take_add_drop: "take k xs @ take m (drop k xs) = take (k + m) xs"
  by (simp add: take_add)

lemma drop_eq_Cons: "i < length xs \<Longrightarrow> drop i xs = xs ! i # drop (Suc i) xs"
  by (rule Cons_nth_drop_Suc [symmetric])

lemma suffix_iff_drop:
  "suffix p xs \<longleftrightarrow> length p \<le> length xs \<and> drop (length xs - length p) xs = p"
  by (metis append_eq_conv_conj append_take_drop_id diff_add_inverse2 length_append suffix_def
      suffix_drop suffix_length_le)

lemma suffix_append_long: "length p \<le> length b \<Longrightarrow> suffix p (a @ b) \<longleftrightarrow> suffix p b"
  by (simp add: suffix_iff_drop)

end
