(* ===== verification/Memchr.thy ===== *)
theory Memchr
  imports Prelude
begin

text \<open>
  The interface to the crate \<open>memchr\<close>, whose code is not part of the repository. What the
  program calls is a record of functions, an argument of every definition that searches;
  what it relies on is the predicate \<open>memchr_ok\<close>: \<open>memmem::Finder::find\<close> returns the first
  occurrence, \<open>find_iter\<close> the occurrences from left to right without overlap, and
  \<open>memchr::memchr\<close> the first position of a byte. \<open>std_memchr\<close> is an executable instance,
  so witnesses can evaluate the model.
\<close>

section \<open>Substring search as an interface\<close>

locale substring_search =
  fixes find :: "bytes \<Rightarrow> bytes \<Rightarrow> nat option"
  assumes find_occurs: "find n h = Some i \<Longrightarrow> occurs_at n h i"
    and find_least: "find n h = Some i \<Longrightarrow> j < i \<Longrightarrow> \<not> occurs_at n h j"
    and find_none: "find n h = None \<Longrightarrow> \<not> occurs_at n h i"
begin

text \<open>The laws determine the function: every such search is \<open>first_occ\<close>.\<close>

lemma find_is_first: "find n h = first_occ n h"
proof (cases "find n h")
  case None
  then have "first_occ n h = None" by (simp add: first_occ_None_iff find_none)
  with None show ?thesis by simp
next
  case (Some i)
  then have "first_occ n h = Some i" by (simp add: first_occ_Some_iff find_occurs find_least)
  with Some show ?thesis by simp
qed

lemma find_within: "find n h = Some i \<Longrightarrow> i + length n \<le> length h"
  using first_occ_bound by (simp add: find_is_first)

end

text \<open>
  The substring search of the standard library (\<open>str::find\<close>, \<open>split_once\<close>, \<open>contains\<close>),
  which the other theories model with \<open>first_occ\<close>, satisfies the interface.
\<close>

interpretation str_search: substring_search "first_occ :: bytes \<Rightarrow> bytes \<Rightarrow> nat option"
  by unfold_locales (auto simp: first_occ_Some_iff first_occ_None_iff)

section \<open>The crate as a parameter\<close>

record memchr_lib =
  mm_find :: "bytes \<Rightarrow> bytes \<Rightarrow> nat option"
  mm_find_iter :: "bytes \<Rightarrow> bytes \<Rightarrow> nat list"
  mc_find :: "byte \<Rightarrow> bytes \<Rightarrow> nat option"

definition find_iter_law :: "memchr_lib \<Rightarrow> bool" where
  "find_iter_law M \<longleftrightarrow> (\<forall>n h. n \<noteq> [] \<longrightarrow>
     mm_find_iter M n h =
       (case mm_find M n h of
          None \<Rightarrow> []
        | Some i \<Rightarrow> i # map (\<lambda>j. i + length n + j) (mm_find_iter M n (drop (i + length n) h))))"

definition mc_find_law :: "memchr_lib \<Rightarrow> bool" where
  "mc_find_law M \<longleftrightarrow> (\<forall>b h.
     (case mc_find M b h of
        None \<Rightarrow> b \<notin> set h
      | Some i \<Rightarrow> i < length h \<and> h ! i = b \<and> b \<notin> set (take i h)))"

definition memchr_ok :: "memchr_lib \<Rightarrow> bool" where
  [wf_simps]: "memchr_ok M \<longleftrightarrow> substring_search (mm_find M) \<and> find_iter_law M \<and> mc_find_law M"

lemma memchr_ok_find: "memchr_ok M \<Longrightarrow> mm_find M = first_occ"
  by (simp add: memchr_ok_def fun_eq_iff substring_search.find_is_first)

section \<open>An executable instance\<close>

function occ_list :: "bytes \<Rightarrow> bytes \<Rightarrow> nat list" where
  "occ_list n h =
     (if n = [] then []
      else case first_occ n h of
             None \<Rightarrow> []
           | Some i \<Rightarrow> i # map (\<lambda>j. i + length n + j) (occ_list n (drop (i + length n) h)))"
  by pat_completeness auto
termination
proof (relation "measure (\<lambda>(n, h). length h)", goal_cases)
  case 1
  show ?case by simp
next
  case (2 n h i)
  then have "i + length n \<le> length h" and "0 < length n"
    by (auto dest: first_occ_bound)
  then show ?case by (simp only: in_measure prod.case length_drop)
qed

declare occ_list.simps [simp del]

definition byte_position :: "byte \<Rightarrow> bytes \<Rightarrow> nat option" where
  "byte_position b h = (let i = length (takeWhile (\<lambda>c. c \<noteq> b) h) in if i < length h then Some i else None)"

definition std_memchr :: memchr_lib where
  "std_memchr = \<lparr>mm_find = first_occ, mm_find_iter = occ_list, mc_find = byte_position\<rparr>"

lemma std_memchr_ok: "memchr_ok std_memchr"
proof -
  have "find_iter_law std_memchr"
    unfolding find_iter_law_def
  proof (intro allI impI)
    fix n h :: bytes
    assume "n \<noteq> []"
    then show "mm_find_iter std_memchr n h =
       (case mm_find std_memchr n h of None \<Rightarrow> []
        | Some i \<Rightarrow> i # map (\<lambda>j. i + length n + j) (mm_find_iter std_memchr n (drop (i + length n) h)))"
      by (simp add: std_memchr_def occ_list.simps [of n h] split: option.split)
  qed
  moreover have "mc_find_law std_memchr"
    unfolding mc_find_law_def
  proof (intro allI)
    fix b :: byte and h :: bytes
    let ?i = "length (takeWhile (\<lambda>c. c \<noteq> b) h)"
    have "?i < length h \<Longrightarrow> h ! ?i = b"
      using nth_length_takeWhile [of "\<lambda>c. c \<noteq> b" h] by simp
    moreover have out: "b \<notin> set (take ?i h)"
      by (metis set_takeWhileD takeWhile_eq_take)
    moreover have "b \<notin> set h" if "\<not> ?i < length h"
      using out that by simp
    ultimately show "case mc_find std_memchr b h of None \<Rightarrow> b \<notin> set h
      | Some i \<Rightarrow> i < length h \<and> h ! i = b \<and> b \<notin> set (take i h)"
      by (auto simp: std_memchr_def byte_position_def Let_def)
  qed
  ultimately show ?thesis
    using str_search.substring_search_axioms
    by (simp add: memchr_ok_def std_memchr_def)
qed

lemma memchr_ok_find_iter: "memchr_ok M \<Longrightarrow> n \<noteq> [] \<Longrightarrow> mm_find_iter M n h = occ_list n h"
proof (induction n h rule: occ_list.induct)
  case (1 n h)
  have law: "mm_find_iter M n h =
    (case first_occ n h of None \<Rightarrow> []
     | Some i \<Rightarrow> i # map (\<lambda>j. i + length n + j) (mm_find_iter M n (drop (i + length n) h)))"
    using "1.prems" by (auto simp: memchr_ok_def find_iter_law_def substring_search.find_is_first)
  show ?case
  proof (cases "first_occ n h")
    case None
    with law show ?thesis by (simp add: occ_list.simps)
  next
    case (Some i)
    with "1.IH" [OF "1.prems"(2) Some "1.prems"] law "1.prems"(2) show ?thesis
      by (simp add: occ_list.simps [of n h])
  qed
qed

lemma memchr_ok_byte: "memchr_ok M \<Longrightarrow> mc_find M b h = byte_position b h"
proof -
  assume "memchr_ok M"
  then have M: "case mc_find M b h of None \<Rightarrow> b \<notin> set h
      | Some i \<Rightarrow> i < length h \<and> h ! i = b \<and> b \<notin> set (take i h)"
    by (simp add: memchr_ok_def mc_find_law_def)
  show ?thesis
  proof (cases "mc_find M b h")
    case None
    with M have "takeWhile (\<lambda>c. c \<noteq> b) h = h"
      unfolding takeWhile_eq_all_conv by auto
    then have "length (takeWhile (\<lambda>c. c \<noteq> b) h) = length h" by (rule arg_cong)
    with None show ?thesis by (simp add: byte_position_def Let_def)
  next
    case (Some i)
    with M have i: "i < length h" "h ! i = b" "b \<notin> set (take i h)" by auto
    then have "takeWhile (\<lambda>c. c \<noteq> b) h = take i h"
      by (intro takeWhile_eq_take_P_nth) (auto simp: in_set_conv_nth)
    with i Some show ?thesis by (simp add: byte_position_def Let_def)
  qed
qed

end
