(* ===== verification/Utf8.thy ===== *)
theory Utf8
  imports Prelude
begin

text \<open>
  \<open>std::str::from_utf8\<close>, as far as the program depends on it: whether a byte slice is
  valid UTF-8, and for an invalid one the fields \<open>valid_up_to\<close> and \<open>error_len\<close> of the
  \<open>Utf8Error\<close>. \<open>error_len = None\<close> says that the slice ends inside a sequence that more
  input could complete, which is what the streaming validation of \<open>src/literal.rs\<close>
  builds on. The lemmas are the algebra of validity under concatenation: validity splits at
  sequence boundaries, a definite error stays one, and a valid needle inside a valid text
  stands on sequence boundaries.
\<close>

section \<open>One sequence\<close>

datatype seq_check = Seq nat | Bad nat | Short

definition is_cont :: "byte \<Rightarrow> bool" where
  "is_cont b \<longleftrightarrow> 128 \<le> byte_val b \<and> byte_val b < (192::nat)"

definition utf8_char_width :: "nat \<Rightarrow> nat" where
  "utf8_char_width f =
     (if f < 128 then 1
      else if 194 \<le> f \<and> f < 224 then 2
      else if 224 \<le> f \<and> f < 240 then 3
      else if 240 \<le> f \<and> f < 245 then 4
      else 0)"

text \<open>The ranges of the second byte, which exclude overlong forms, surrogates and values past U+10FFFF.\<close>

definition second_ok :: "nat \<Rightarrow> byte \<Rightarrow> bool" where
  "second_ok f c \<longleftrightarrow>
     (let s = byte_val c :: nat
      in is_cont c \<and> (f = 224 \<longrightarrow> 160 \<le> s) \<and> (f = 237 \<longrightarrow> s < 160)
         \<and> (f = 240 \<longrightarrow> 144 \<le> s) \<and> (f = 244 \<longrightarrow> s < 144))"

fun tail_check :: "nat \<Rightarrow> nat \<Rightarrow> bytes \<Rightarrow> seq_check" where
  "tail_check seen 0 r = Seq seen"
| "tail_check seen (Suc k) [] = Short"
| "tail_check seen (Suc k) (c # r) = (if is_cont c then tail_check (Suc seen) k r else Bad seen)"

lemma tail_check_code [code]:
  "tail_check seen k r =
     (if k = 0 then Seq seen
      else case r of [] \<Rightarrow> Short | c # r' \<Rightarrow> if is_cont c then tail_check (Suc seen) (k - 1) r' else Bad seen)"
  by (cases k; cases r) simp_all

definition utf8_seq :: "byte \<Rightarrow> bytes \<Rightarrow> seq_check" where
  "utf8_seq b r =
     (let f = byte_val b; w = utf8_char_width f
      in if w = 0 then Bad 1
         else if w = 1 then Seq 1
         else case r of
                [] \<Rightarrow> Short
              | c # r' \<Rightarrow> if second_ok f c then tail_check 2 (w - 2) r' else Bad 1)"

lemma tail_check_Seq: "tail_check d k r = Seq n \<Longrightarrow> n = d + k \<and> k \<le> length r"
  by (induction d k r rule: tail_check.induct) (auto split: if_splits)

lemma tail_check_append:
  "tail_check d k r \<noteq> Short \<Longrightarrow> tail_check d k (r @ x) = tail_check d k r"
  by (induction d k r rule: tail_check.induct) (auto split: if_splits)

lemma tail_check_Short: "tail_check d k r = Short \<Longrightarrow> length r < k"
  by (induction d k r rule: tail_check.induct) (auto split: if_splits)

lemma tail_check_Short_next:
  "tail_check d k r = Short \<Longrightarrow> tail_check d k (r @ c # x) = Seq n \<Longrightarrow> is_cont c"
  by (induction d k r rule: tail_check.induct) (auto split: if_splits)

lemma width_cases: "utf8_char_width f \<in> {0, 1, 2, 3, 4}"
  by (simp add: utf8_char_width_def)

lemma utf8_seq_Seq:
  assumes "utf8_seq b r = Seq n"
  shows "n = utf8_char_width (byte_val b)" "1 \<le> n" "n \<le> Suc (length r)"
  using assms width_cases [of "byte_val b"]
  by (auto simp: utf8_seq_def Let_def split: if_splits list.splits dest!: tail_check_Seq)

lemma utf8_seq_append:
  "utf8_seq b r \<noteq> Short \<Longrightarrow> utf8_seq b (r @ x) = utf8_seq b r"
  by (auto simp: utf8_seq_def Let_def tail_check_append split: if_splits list.splits)

lemma utf8_seq_Short: "utf8_seq b r = Short \<Longrightarrow> Suc (length r) < utf8_char_width (byte_val b)"
  using width_cases [of "byte_val b"]
  by (auto simp: utf8_seq_def Let_def split: if_splits list.splits dest!: tail_check_Short)

lemma utf8_seq_Short_next:
  "utf8_seq b r = Short \<Longrightarrow> utf8_seq b (r @ c # x) = Seq n \<Longrightarrow> is_cont c"
  by (auto simp: utf8_seq_def Let_def second_ok_def split: if_splits list.splits
      dest: tail_check_Short_next)

lemma utf8_seq_cont: "is_cont b \<Longrightarrow> utf8_seq b r = Bad 1"
  by (simp add: utf8_seq_def is_cont_def utf8_char_width_def Let_def)

lemma utf8_seq_ascii: "byte_val b < (128::nat) \<Longrightarrow> utf8_seq b r = Seq 1"
  by (simp add: utf8_seq_def utf8_char_width_def Let_def)

section \<open>A whole slice\<close>

record utf8_error =
  valid_up_to :: nat
  error_len :: "nat option"

function from_utf8_at :: "nat \<Rightarrow> bytes \<Rightarrow> utf8_error option" where
  "from_utf8_at off [] = None"
| "from_utf8_at off (b # r) =
     (case utf8_seq b r of
        Seq n \<Rightarrow> from_utf8_at (off + n) (drop n (b # r))
      | Bad k \<Rightarrow> Some \<lparr>valid_up_to = off, error_len = Some k\<rparr>
      | Short \<Rightarrow> Some \<lparr>valid_up_to = off, error_len = None\<rparr>)"
  by pat_completeness auto
termination
  by (relation "measure (\<lambda>(off, bs). length bs)") (auto dest: utf8_seq_Seq(2))

definition from_utf8 :: "bytes \<Rightarrow> utf8_error option" where
  "from_utf8 bs = from_utf8_at 0 bs"

definition utf8_valid :: "bytes \<Rightarrow> bool" where
  "utf8_valid bs \<longleftrightarrow> from_utf8 bs = None"

text \<open>The slice is valid or ends inside a sequence; the unfinished sequence is its tail.\<close>

definition utf8_partial :: "bytes \<Rightarrow> bool" where
  "utf8_partial bs \<longleftrightarrow> (case from_utf8 bs of None \<Rightarrow> True | Some e \<Rightarrow> error_len e = None)"

definition utf8_rest :: "bytes \<Rightarrow> bytes" where
  "utf8_rest bs = (case from_utf8 bs of None \<Rightarrow> [] | Some e \<Rightarrow> drop (valid_up_to e) bs)"

definition shift_error :: "nat \<Rightarrow> utf8_error \<Rightarrow> utf8_error" where
  "shift_error k e = e\<lparr>valid_up_to := k + valid_up_to e\<rparr>"

lemma error_len_shift [simp]: "error_len (shift_error k e) = error_len e"
  and valid_up_to_shift [simp]: "valid_up_to (shift_error k e) = k + valid_up_to e"
  by (simp_all add: shift_error_def)

lemma from_utf8_at_shift: "from_utf8_at (k + off) bs = map_option (shift_error k) (from_utf8_at off bs)"
proof (induction off bs rule: from_utf8_at.induct)
  case (1 off)
  then show ?case by simp
next
  case (2 off b r)
  show ?case
  proof (cases "utf8_seq b r")
    case (Seq n)
    from "2" [OF Seq] Seq show ?thesis by (simp add: add.assoc)
  qed (simp_all add: shift_error_def)
qed

lemma from_utf8_Nil [simp]: "from_utf8 [] = None"
  by (simp add: from_utf8_def)

lemma from_utf8_Cons:
  "from_utf8 (b # r) =
     (case utf8_seq b r of
        Seq n \<Rightarrow> map_option (shift_error n) (from_utf8 (drop n (b # r)))
      | Bad k \<Rightarrow> Some \<lparr>valid_up_to = 0, error_len = Some k\<rparr>
      | Short \<Rightarrow> Some \<lparr>valid_up_to = 0, error_len = None\<rparr>)"
proof (cases "utf8_seq b r")
  case (Seq n)
  with from_utf8_at_shift [of n 0 "drop n (b # r)"] show ?thesis by (simp add: from_utf8_def)
qed (simp_all add: from_utf8_def)

lemma from_utf8_induct [case_names Nil Seq Bad Short]:
  assumes nil: "P []"
    and seq: "\<And>b r n. utf8_seq b r = Seq n \<Longrightarrow> P (drop n (b # r)) \<Longrightarrow> P (b # r)"
    and bad: "\<And>b r k. utf8_seq b r = Bad k \<Longrightarrow> P (b # r)"
    and short: "\<And>b r. utf8_seq b r = Short \<Longrightarrow> P (b # r)"
  shows "P bs"
proof (induction bs rule: length_induct)
  case (1 bs)
  show ?case
  proof (cases bs)
    case Nil
    then show ?thesis by (simp add: nil)
  next
    case (Cons b r)
    show ?thesis
    proof (cases "utf8_seq b r")
      case (Seq n)
      then have "length (drop n (b # r)) < length bs"
        using utf8_seq_Seq(2) [OF Seq] by (auto simp: Cons)
      with 1 have "P (drop n (b # r))" by blast
      with seq Seq Cons show ?thesis by blast
    qed (use bad short Cons in auto)
  qed
qed

lemma utf8_valid_Nil [simp]: "utf8_valid []"
  by (simp add: utf8_valid_def)

section \<open>Concatenation\<close>

lemma from_utf8_append:
  "utf8_valid a \<Longrightarrow> from_utf8 (a @ b) = map_option (shift_error (length a)) (from_utf8 b)"
proof (induction a rule: from_utf8_induct)
  case Nil
  have "shift_error 0 = (\<lambda>e. e)" by (auto simp: shift_error_def fun_eq_iff)
  then show ?case by (simp add: option.map_ident)
next
  case (Seq c r n)
  from Seq.hyps have n: "1 \<le> n" "n \<le> Suc (length r)" by (auto dest: utf8_seq_Seq)
  have app: "utf8_seq c (r @ b) = Seq n"
    using utf8_seq_append [of c r b] Seq.hyps by simp
  have "utf8_valid (drop n (c # r))"
    using Seq.prems Seq.hyps by (simp add: utf8_valid_def from_utf8_Cons)
  with Seq.IH have "from_utf8 (drop n (c # r) @ b) =
      map_option (shift_error (length (drop n (c # r)))) (from_utf8 b)" .
  moreover have "drop n (c # r @ b) = drop n (c # r) @ b"
    using n drop_append [of n "c # r" b] by simp
  moreover have "shift_error n \<circ> shift_error (length (drop n (c # r))) = shift_error (length (c # r))"
    using n by (auto simp: shift_error_def fun_eq_iff)
  ultimately show ?case
    using app by (simp add: from_utf8_Cons option.map_comp)
qed (simp_all add: utf8_valid_def from_utf8_Cons)

lemma utf8_valid_append: "utf8_valid a \<Longrightarrow> utf8_valid (a @ b) \<longleftrightarrow> utf8_valid b"
  by (simp add: utf8_valid_def from_utf8_append)

lemma utf8_partial_append: "utf8_valid a \<Longrightarrow> utf8_partial (a @ b) \<longleftrightarrow> utf8_partial b"
  by (auto simp: utf8_partial_def from_utf8_append split: option.splits)

lemma utf8_rest_append: "utf8_valid a \<Longrightarrow> utf8_rest (a @ b) = utf8_rest b"
  by (auto simp: utf8_rest_def from_utf8_append split: option.splits)

lemma utf8_partial_iff_valid: "utf8_valid bs \<longleftrightarrow> utf8_partial bs \<and> utf8_rest bs = []"
proof (induction bs rule: from_utf8_induct)
  case (Seq b r n)
  then show ?case
    by (cases "from_utf8 (drop n (b # r))")
      (simp_all add: utf8_valid_def utf8_partial_def utf8_rest_def from_utf8_Cons add.commute)
qed (simp_all add: utf8_valid_def utf8_partial_def utf8_rest_def from_utf8_Cons)

text \<open>A partially valid slice is a valid one followed by the beginning of a sequence.\<close>

lemma utf8_partial_split:
  "utf8_partial bs \<Longrightarrow> \<exists>v. bs = v @ utf8_rest bs \<and> utf8_valid v"
proof (induction bs rule: from_utf8_induct)
  case Nil
  then show ?case by (auto simp: utf8_rest_def)
next
  case (Seq b r n)
  from Seq.prems Seq.hyps have "utf8_partial (drop n (b # r))"
    by (auto simp: utf8_partial_def from_utf8_Cons split: option.splits)
  with Seq.IH obtain v where v: "drop n (b # r) = v @ utf8_rest (drop n (b # r))" "utf8_valid v"
    by blast
  from Seq.hyps have n: "1 \<le> n" "n \<le> length (b # r)"
    by (auto dest: utf8_seq_Seq)
  have hd: "utf8_valid (take n (b # r))"
  proof -
    obtain m where m: "n = Suc m" using n by (cases n) auto
    have "utf8_seq b (take m r) = Seq n"
      using Seq.hyps utf8_seq_append [of b "take m r" "drop m r"]
        utf8_seq_Short [of b "take m r"] utf8_seq_Seq(1) [OF Seq.hyps] n m
      by (cases "utf8_seq b (take m r)") auto
    with m n show ?thesis by (simp add: utf8_valid_def from_utf8_Cons)
  qed
  have eq: "b # r = take n (b # r) @ drop n (b # r)" by simp
  have "utf8_rest (b # r) = utf8_rest (drop n (b # r))"
    using utf8_rest_append [OF hd, of "drop n (b # r)"] by simp
  with v eq have "b # r = (take n (b # r) @ v) @ utf8_rest (b # r)" by simp
  moreover have "utf8_valid (take n (b # r) @ v)"
    using hd v(2) by (simp add: utf8_valid_append)
  ultimately show ?case by blast
next
  case (Bad b r k)
  then show ?case by (simp add: utf8_partial_def from_utf8_Cons)
next
  case (Short b r)
  then have "utf8_rest (b # r) = b # r" by (simp add: utf8_rest_def from_utf8_Cons)
  then show ?case by (intro exI [of _ "[]"]) simp
qed

lemma utf8_rest_cases:
  "utf8_partial bs \<Longrightarrow> utf8_rest bs = [] \<or> (\<exists>b r. utf8_rest bs = b # r \<and> utf8_seq b r = Short)"
proof (induction bs rule: from_utf8_induct)
  case (Seq b r n)
  from Seq.prems Seq.hyps have "utf8_partial (drop n (b # r))"
    by (auto simp: utf8_partial_def from_utf8_Cons split: option.splits)
  moreover have "utf8_rest (b # r) = utf8_rest (drop n (b # r))"
    using Seq.hyps by (auto simp: utf8_rest_def from_utf8_Cons add.commute split: option.splits)
  ultimately show ?case using Seq.IH by simp
qed (auto simp: utf8_partial_def utf8_rest_def from_utf8_Cons)

text \<open>A definite error stays one, so every prefix of a valid text is partially valid.\<close>

lemma utf8_not_partial_append: "\<not> utf8_partial a \<Longrightarrow> \<not> utf8_partial (a @ b)"
proof (induction a rule: from_utf8_induct)
  case (Seq c r n)
  from Seq.hyps have n: "1 \<le> n" "n \<le> Suc (length r)" by (auto dest: utf8_seq_Seq)
  have "utf8_seq c (r @ b) = Seq n"
    using utf8_seq_append [of c r b] Seq.hyps by simp
  moreover have "drop n (c # r @ b) = drop n (c # r) @ b"
    using n drop_append [of n "c # r" b] by simp
  ultimately show ?case
    using Seq by (auto simp: utf8_partial_def from_utf8_Cons split: option.splits)
next
  case (Bad c r k)
  then have "utf8_seq c (r @ b) = Bad k" using utf8_seq_append [of c r b] by simp
  then show ?case by (simp add: utf8_partial_def from_utf8_Cons)
qed (simp_all add: utf8_partial_def from_utf8_Cons)

lemma utf8_valid_partial: "utf8_valid a \<Longrightarrow> utf8_partial a"
  by (simp add: utf8_valid_def utf8_partial_def)

lemma utf8_valid_prefix_partial: "utf8_valid (a @ b) \<Longrightarrow> utf8_partial a"
  using utf8_not_partial_append utf8_valid_partial by blast

section \<open>Self synchronisation\<close>

lemma utf8_valid_head_not_cont: "utf8_valid (b # r) \<Longrightarrow> \<not> is_cont b"
  by (auto simp: utf8_valid_def from_utf8_Cons utf8_seq_cont)

text \<open>A valid, non-empty needle inside a valid text stands on sequence boundaries.\<close>

lemma utf8_valid_needle:
  assumes whole: "utf8_valid (a @ n @ b)" and n: "utf8_valid n" "n \<noteq> []"
  shows "utf8_valid a" "utf8_valid b"
proof -
  have part: "utf8_partial a" using utf8_valid_prefix_partial [OF whole] .
  then obtain v where v: "a = v @ utf8_rest a" "utf8_valid v"
    using utf8_partial_split by blast
  have "utf8_rest a = []"
  proof (rule ccontr)
    assume "utf8_rest a \<noteq> []"
    then obtain c r where r: "utf8_rest a = c # r" "utf8_seq c r = Short"
      using utf8_rest_cases [OF part] by blast
    obtain d m where d: "n = d # m" using n(2) by (cases n) auto
    have "utf8_valid (c # r @ d # m @ b)"
      using whole utf8_valid_append [OF v(2), of "utf8_rest a @ n @ b"] v(1) r(1) d by simp
    then obtain k where "utf8_seq c (r @ d # m @ b) = Seq k"
      by (auto simp: utf8_valid_def from_utf8_Cons split: seq_check.splits)
    with r(2) have "is_cont d" by (rule utf8_seq_Short_next)
    with utf8_valid_head_not_cont n(1) d show False by blast
  qed
  with part show va: "utf8_valid a" by (simp add: utf8_partial_iff_valid)
  from whole va n(1) show "utf8_valid b" by (simp add: utf8_valid_append)
qed

lemma utf8_valid_ascii: "(\<forall>b \<in> set bs. byte_val b < (128::nat)) \<Longrightarrow> utf8_valid bs"
  by (induction bs) (simp_all add: utf8_valid_def from_utf8_Cons utf8_seq_ascii)

section \<open>Characters\<close>

text \<open>
  \<open>str::chars\<close>: a string is the sequence of its encoded characters, and \<open>code_point\<close> is the
  scalar value of one. On the invalid bytes a \<open>str\<close> never holds, a byte stands for itself.
\<close>

function str_chars :: "bytes \<Rightarrow> bytes list" where
  "str_chars [] = []"
| "str_chars (b # r) =
     (let n = (case utf8_seq b r of Seq n \<Rightarrow> n | _ \<Rightarrow> 1)
      in take n (b # r) # str_chars (drop n (b # r)))"
  by pat_completeness auto
termination
  by (relation "measure length") (auto dest: utf8_seq_Seq(2) split: seq_check.splits)

definition code_point :: "bytes \<Rightarrow> nat" where
  "code_point ch =
     (case map byte_val ch of
        [a] \<Rightarrow> a
      | [a, b] \<Rightarrow> (a - 192) * 64 + (b - 128)
      | [a, b, c] \<Rightarrow> (a - 224) * 4096 + (b - 128) * 64 + (c - 128)
      | [a, b, c, d] \<Rightarrow> (a - 240) * 262144 + (b - 128) * 4096 + (c - 128) * 64 + (d - 128)
      | _ \<Rightarrow> 0)"

lemma concat_str_chars [simp]: "concat (str_chars s) = s"
  by (induction s rule: str_chars.induct) (simp_all add: Let_def)

end
