(* ===== verification/Stages.thy ===== *)
theory Stages
  imports Prelude
begin

text \<open>
  The interface of one stage of a rewrite pipeline (\<open>src/literal.rs\<close>: every rewriter has a
  \<open>push\<close> and a \<open>finish\<close>) and what follows from it for a chain of stages. A stage promises
  that the way its input is cut into chunks does not matter: there is a set of complete
  inputs it accepts and one transformation of complete inputs, and whatever the chunks, the
  outputs of the pushes and of the final \<open>finish\<close> add up to the transformation of the
  concatenated input; an error is returned only when no continuation could be accepted, and
  a stage never panics. The same contract then holds for a chain that feeds the output of
  each stage to the next, which is what \<open>StreamingRewritePipeline\<close> does.
\<close>

section \<open>Errors\<close>

datatype rewrite_error =
    EmptyRules
  | EmptySource
  | InvalidReplacement
  | TooLarge nat
  | InvalidUtf8
  | AlreadyFinished

type_synonym 'a rresult = "(rewrite_error, 'a) outcome"

section \<open>Feeding a list of chunks\<close>

text \<open>
  A client pushes chunk after chunk and stops at the first failure; then it calls
  \<open>finish\<close>. \<open>chunked_run\<close> is the concatenated output of such a session.
\<close>

fun push_all :: "('st \<Rightarrow> bytes \<Rightarrow> bytes rresult \<times> 'st) \<Rightarrow> 'st \<Rightarrow> bytes list \<Rightarrow> bytes rresult \<times> 'st" where
  "push_all push s [] = (Ok [], s)"
| "push_all push s (c # cs) =
     (case push s c of
        (Ok o1, s1) \<Rightarrow>
          (case push_all push s1 cs of
             (Ok o2, s2) \<Rightarrow> (Ok (o1 @ o2), s2)
           | (r, s2) \<Rightarrow> (r, s2))
      | (r, s1) \<Rightarrow> (r, s1))"

definition chunked_run ::
  "('st \<Rightarrow> bytes \<Rightarrow> bytes rresult \<times> 'st) \<Rightarrow> ('st \<Rightarrow> bytes rresult \<times> 'st) \<Rightarrow> 'st \<Rightarrow> bytes list \<Rightarrow> bytes rresult"
where
  "chunked_run push finish s cs =
     (case push_all push s cs of
        (Ok o1, s1) \<Rightarrow> (case finish s1 of (Ok o2, _) \<Rightarrow> Ok (o1 @ o2) | (r, _) \<Rightarrow> r)
      | (r, _) \<Rightarrow> r)"

section \<open>Chains\<close>

text \<open>
  The loops of \<open>StreamingRewritePipeline::push\<close> and \<open>finish\<close> over the rewriters: \<open>push\<close> hands
  each rewriter the output of the one before it; \<open>finish\<close> pushes what the stages before it
  flushed and then finishes the stage itself.
\<close>

fun chain_push :: "('st \<Rightarrow> bytes \<Rightarrow> bytes rresult \<times> 'st) \<Rightarrow> 'st list \<Rightarrow> bytes \<Rightarrow> bytes rresult \<times> 'st list" where
  "chain_push push [] x = (Ok x, [])"
| "chain_push push (r # rs) x =
     (case push r x of
        (Ok y, r') \<Rightarrow> (case chain_push push rs y of (z, rs') \<Rightarrow> (z, r' # rs'))
      | (e, r') \<Rightarrow> (e, r' # rs))"

fun chain_finish ::
  "('st \<Rightarrow> bytes \<Rightarrow> bytes rresult \<times> 'st) \<Rightarrow> ('st \<Rightarrow> bytes rresult \<times> 'st) \<Rightarrow> 'st list \<Rightarrow> bytes \<Rightarrow> bytes rresult \<times> 'st list"
where
  "chain_finish push finish [] x = (Ok x, [])"
| "chain_finish push finish (r # rs) x =
     (case push r x of
        (Ok y, r1) \<Rightarrow>
          (case finish r1 of
             (Ok z, r2) \<Rightarrow> (case chain_finish push finish rs (y @ z) of (w, rs') \<Rightarrow> (w, r2 # rs'))
           | (e, r2) \<Rightarrow> (e, r2 # rs))
      | (e, r1) \<Rightarrow> (e, r1 # rs))"

section \<open>The contract\<close>

text \<open>
  \<open>tracks s0 s inp out\<close>: from the fresh stage \<open>s0\<close> the pushes of the input \<open>inp\<close> have led to
  \<open>s\<close> and produced \<open>out\<close>. \<open>complete s0 x\<close>: \<open>x\<close> is accepted as a whole input; \<open>transform s0 x\<close> is
  its rewriting.
\<close>

locale stream_stage =
  fixes push :: "'st \<Rightarrow> bytes \<Rightarrow> bytes rresult \<times> 'st"
    and finish :: "'st \<Rightarrow> bytes rresult \<times> 'st"
    and tracks :: "'st \<Rightarrow> 'st \<Rightarrow> bytes \<Rightarrow> bytes \<Rightarrow> bool"
    and complete :: "'st \<Rightarrow> bytes \<Rightarrow> bool"
    and transform :: "'st \<Rightarrow> bytes \<Rightarrow> bytes"
  assumes push_law:
      "tracks s0 s inp out \<Longrightarrow>
         (\<exists>y s'. push s x = (Ok y, s') \<and> tracks s0 s' (inp @ x) (out @ y))
         \<or> (\<exists>e s'. push s x = (Err e, s') \<and> (\<forall>r. \<not> complete s0 (inp @ x @ r)))"
    and finish_complete:
      "tracks s0 s inp out \<Longrightarrow> complete s0 inp \<Longrightarrow>
         \<exists>y s'. finish s = (Ok y, s') \<and> out @ y = transform s0 inp"
    and finish_incomplete:
      "tracks s0 s inp out \<Longrightarrow> \<not> complete s0 inp \<Longrightarrow> \<exists>e s'. finish s = (Err e, s')"
begin

lemma push_complete:
  assumes "tracks s0 s inp out" "complete s0 (inp @ x @ r)"
  obtains y s' where "push s x = (Ok y, s')" "tracks s0 s' (inp @ x) (out @ y)"
  using push_law [OF assms(1), of x] assms(2) by blast

lemma push_not_panic: "tracks s0 s inp out \<Longrightarrow> fst (push s x) \<noteq> Panic"
  using push_law [of s0 s inp out x] by auto

lemma finish_not_panic: "tracks s0 s inp out \<Longrightarrow> fst (finish s) \<noteq> Panic"
  using finish_complete [of s0 s inp out] finish_incomplete [of s0 s inp out] by fastforce

text \<open>What has been emitted is a prefix of the transformation of every completion.\<close>

lemma out_is_prefix:
  assumes "tracks s0 s inp out" "complete s0 (inp @ r)"
  shows "\<exists>z. transform s0 (inp @ r) = out @ z"
proof -
  obtain y s' where s': "push s r = (Ok y, s')" "tracks s0 s' (inp @ r) (out @ y)"
    using push_complete [OF assms(1), of r "[]"] assms(2) by auto
  from finish_complete [OF s'(2) assms(2)] obtain z where "(out @ y) @ z = transform s0 (inp @ r)"
    by blast
  then show ?thesis by (metis append.assoc)
qed

lemma push_all_law:
  "tracks s0 s inp out \<Longrightarrow>
     (\<exists>y s'. push_all push s cs = (Ok y, s') \<and> tracks s0 s' (inp @ concat cs) (out @ y))
     \<or> (\<exists>e s'. push_all push s cs = (Err e, s') \<and> (\<forall>r. \<not> complete s0 (inp @ concat cs @ r)))"
proof (induction cs arbitrary: s inp out)
  case Nil
  then show ?case by simp
next
  case (Cons c cs)
  from push_law [OF Cons.prems, of c] show ?case
  proof (elim disjE exE conjE)
    fix y s'
    assume p: "push s c = (Ok y, s')" and t: "tracks s0 s' (inp @ c) (out @ y)"
    from Cons.IH [OF t] p show ?thesis by auto
  next
    fix e s'
    assume "push s c = (Err e, s')" and "\<forall>r. \<not> complete s0 (inp @ c @ r)"
    then show ?thesis by simp
  qed
qed

text \<open>The session succeeds exactly on complete inputs, with the same output for every chunking.\<close>

lemma run_complete:
  assumes "tracks s0 s [] []" "complete s0 (concat cs)"
  shows "chunked_run push finish s cs = Ok (transform s0 (concat cs))"
proof -
  have all: "complete s0 ([] @ concat cs @ [])" using assms(2) by simp
  from push_all_law [OF assms(1), of cs] obtain y s'
    where p: "push_all push s cs = (Ok y, s')" "tracks s0 s' (concat cs) y"
    using all by fastforce
  from finish_complete [OF p(2) assms(2)] p(1) show ?thesis
    by (auto simp: chunked_run_def)
qed

lemma run_incomplete:
  assumes "tracks s0 s [] []" "\<not> complete s0 (concat cs)"
  shows "\<exists>e. chunked_run push finish s cs = Err e"
  using push_all_law [OF assms(1), of cs]
proof (elim disjE exE conjE)
  fix y s'
  assume p: "push_all push s cs = (Ok y, s')" "tracks s0 s' ([] @ concat cs) ([] @ y)"
  then have "tracks s0 s' (concat cs) y" by simp
  from finish_incomplete [OF this assms(2)] p(1) show ?thesis
    by (auto simp: chunked_run_def)
next
  fix e s'
  assume "push_all push s cs = (Err e, s')"
  then show ?thesis by (simp add: chunked_run_def)
qed

lemma run_iff:
  assumes "tracks s0 s [] []"
  shows "chunked_run push finish s cs = Ok v \<longleftrightarrow> complete s0 (concat cs) \<and> v = transform s0 (concat cs)"
proof (cases "complete s0 (concat cs)")
  case True
  with run_complete [OF assms] show ?thesis by auto
next
  case False
  with run_incomplete [OF assms] show ?thesis by fastforce
qed

end

section \<open>A chain of stages is a stage\<close>

fun chain_transform :: "('st \<Rightarrow> bytes \<Rightarrow> bytes) \<Rightarrow> 'st list \<Rightarrow> bytes \<Rightarrow> bytes" where
  "chain_transform f [] x = x"
| "chain_transform f (s # ss) x = chain_transform f ss (f s x)"

fun chain_complete ::
  "('st \<Rightarrow> bytes \<Rightarrow> bool) \<Rightarrow> ('st \<Rightarrow> bytes \<Rightarrow> bytes) \<Rightarrow> 'st list \<Rightarrow> bytes \<Rightarrow> bool" where
  "chain_complete ok f [] x = True"
| "chain_complete ok f (s # ss) x = (ok s x \<and> chain_complete ok f ss (f s x))"

fun chain_tracks ::
  "('st \<Rightarrow> 'st \<Rightarrow> bytes \<Rightarrow> bytes \<Rightarrow> bool) \<Rightarrow> 'st list \<Rightarrow> 'st list \<Rightarrow> bytes \<Rightarrow> bytes \<Rightarrow> bool" where
  "chain_tracks R [] [] inp out \<longleftrightarrow> inp = out"
| "chain_tracks R (s0 # ss0) (s # ss) inp out \<longleftrightarrow>
     (\<exists>mid. R s0 s inp mid \<and> chain_tracks R ss0 ss mid out)"
| "chain_tracks R _ _ inp out \<longleftrightarrow> False"

lemma chain_transform_append:
  "chain_transform f (ss @ ts) x = chain_transform f ts (chain_transform f ss x)"
  by (induction ss arbitrary: x) auto

text \<open>Finishing a chain pushes first: the input still held back by the stages before it.\<close>

definition chain_end ::
  "('st \<Rightarrow> bytes \<Rightarrow> bytes rresult \<times> 'st) \<Rightarrow> ('st \<Rightarrow> bytes rresult \<times> 'st) \<Rightarrow> 'st list \<Rightarrow> bytes rresult \<times> 'st list"
where
  "chain_end push finish rs =
     (case rs of
        [] \<Rightarrow> (Ok [], [])
      | r # rs' \<Rightarrow>
          (case finish r of
             (Ok y, r') \<Rightarrow> (case chain_finish push finish rs' y of (w, rs'') \<Rightarrow> (w, r' # rs''))
           | (e, r') \<Rightarrow> (e, r' # rs')))"

lemma chain_tracks_Cons_iff:
  "chain_tracks R (s0 # ss0) ss inp out \<longleftrightarrow>
     (\<exists>s ss' mid. ss = s # ss' \<and> R s0 s inp mid \<and> chain_tracks R ss0 ss' mid out)"
  by (cases ss) auto

lemma chain_tracks_Nil_iff: "chain_tracks R [] ss inp out \<longleftrightarrow> ss = [] \<and> inp = out"
  by (cases ss) auto

context stream_stage
begin

lemma chain_push_law:
  "chain_tracks tracks ss0 ss inp out \<Longrightarrow>
     (\<exists>y ss'. chain_push push ss x = (Ok y, ss') \<and> chain_tracks tracks ss0 ss' (inp @ x) (out @ y))
     \<or> (\<exists>e ss'. chain_push push ss x = (Err e, ss')
          \<and> (\<forall>r. \<not> chain_complete complete transform ss0 (inp @ x @ r)))"
proof (induction ss0 arbitrary: ss inp out x)
  case Nil
  then show ?case by (simp add: chain_tracks_Nil_iff)
next
  case (Cons s0 ss0)
  from Cons.prems obtain s ss' mid where ss: "ss = s # ss'"
    and t: "tracks s0 s inp mid" and ts: "chain_tracks tracks ss0 ss' mid out"
    by (auto simp: chain_tracks_Cons_iff)
  from push_law [OF t, of x] show ?case
  proof (elim disjE exE conjE)
    fix y s1
    assume p: "push s x = (Ok y, s1)" and t1: "tracks s0 s1 (inp @ x) (mid @ y)"
    from Cons.IH [OF ts, of y] show ?thesis
    proof (elim disjE exE conjE)
      fix w ss1
      assume "chain_push push ss' y = (Ok w, ss1)" "chain_tracks tracks ss0 ss1 (mid @ y) (out @ w)"
      with ss p t1 show ?thesis by auto
    next
      fix e ss1
      assume e: "chain_push push ss' y = (Err e, ss1)"
        and no: "\<forall>r. \<not> chain_complete complete transform ss0 (mid @ y @ r)"
      have "\<not> chain_complete complete transform (s0 # ss0) (inp @ x @ r)" for r
      proof
        assume c: "chain_complete complete transform (s0 # ss0) (inp @ x @ r)"
        then have "complete s0 ((inp @ x) @ r)" by simp
        from out_is_prefix [OF t1 this] obtain z where "transform s0 (inp @ x @ r) = mid @ y @ z"
          by auto
        with c no show False by simp
      qed
      with ss p e show ?thesis by simp
    qed
  next
    fix e s1
    assume "push s x = (Err e, s1)" and "\<forall>r. \<not> complete s0 (inp @ x @ r)"
    with ss show ?thesis by simp
  qed
qed

lemma chain_finish_law:
  "chain_tracks tracks ss0 ss inp out \<Longrightarrow>
     (if chain_complete complete transform ss0 (inp @ x)
      then \<exists>y ss'. chain_finish push finish ss x = (Ok y, ss') \<and> out @ y = chain_transform transform ss0 (inp @ x)
      else \<exists>e ss'. chain_finish push finish ss x = (Err e, ss'))"
proof (induction ss0 arbitrary: ss inp out x)
  case Nil
  then show ?case by (simp add: chain_tracks_Nil_iff)
next
  case (Cons s0 ss0)
  from Cons.prems obtain s ss' mid where ss: "ss = s # ss'"
    and t: "tracks s0 s inp mid" and ts: "chain_tracks tracks ss0 ss' mid out"
    by (auto simp: chain_tracks_Cons_iff)
  from push_law [OF t, of x] show ?case
  proof (elim disjE exE conjE)
    fix y s1
    assume p: "push s x = (Ok y, s1)" and t1: "tracks s0 s1 (inp @ x) (mid @ y)"
    show ?thesis
    proof (cases "complete s0 (inp @ x)")
      case True
      from finish_complete [OF t1 True] obtain z s2
        where f: "finish s1 = (Ok z, s2)" "mid @ y @ z = transform s0 (inp @ x)" by auto
      from Cons.IH [OF ts, of "y @ z"] f(2) True ss p f(1) show ?thesis
        by (auto split: if_splits)
    next
      case False
      with finish_incomplete [OF t1 False] ss p show ?thesis by auto
    qed
  next
    fix e s1
    assume e: "push s x = (Err e, s1)" and no: "\<forall>r. \<not> complete s0 (inp @ x @ r)"
    from no [THEN spec, of "[]"] e ss show ?thesis by simp
  qed
qed

lemma chain_end_law:
  assumes "chain_tracks tracks ss0 ss inp out" "ss0 \<noteq> []"
  shows "if chain_complete complete transform ss0 inp
     then \<exists>y ss'. chain_end push finish ss = (Ok y, ss') \<and> out @ y = chain_transform transform ss0 inp
     else \<exists>e ss'. chain_end push finish ss = (Err e, ss')"
proof -
  obtain s0 ss1 where ss0: "ss0 = s0 # ss1" using assms(2) by (cases ss0) auto
  from assms(1) obtain s ss' mid where ss: "ss = s # ss'"
    and t: "tracks s0 s inp mid" and ts: "chain_tracks tracks ss1 ss' mid out"
    by (auto simp: ss0 chain_tracks_Cons_iff)
  show ?thesis
  proof (cases "complete s0 inp")
    case True
    from finish_complete [OF t True] obtain z s2
      where f: "finish s = (Ok z, s2)" "mid @ z = transform s0 inp" by auto
    from chain_finish_law [OF ts, of z] f ss ss0 True show ?thesis
      by (auto simp: chain_end_def split: if_splits)
  next
    case False
    with finish_incomplete [OF t False] ss ss0 show ?thesis by (auto simp: chain_end_def)
  qed
qed

end

text \<open>
  So a non-empty chain satisfies the contract its members satisfy.
\<close>

definition chain_session ::
  "('st \<Rightarrow> 'st \<Rightarrow> bytes \<Rightarrow> bytes \<Rightarrow> bool) \<Rightarrow> 'st list \<Rightarrow> 'st list \<Rightarrow> bytes \<Rightarrow> bytes \<Rightarrow> bool" where
  "chain_session R ss0 ss inp out \<longleftrightarrow> ss0 \<noteq> [] \<and> chain_tracks R ss0 ss inp out"

context stream_stage
begin

lemma chain_is_stage:
  "stream_stage (chain_push push) (chain_end push finish) (chain_session tracks)
     (chain_complete complete transform) (chain_transform transform)"
proof (rule stream_stage.intro)
  fix ss0 ss :: "'st list" and inp out x :: bytes
  assume "chain_session tracks ss0 ss inp out"
  then have t: "chain_tracks tracks ss0 ss inp out" and n: "ss0 \<noteq> []"
    by (simp_all add: chain_session_def)
  from chain_push_law [OF t, of x] n
  show "(\<exists>y s'. chain_push push ss x = (Ok y, s') \<and> chain_session tracks ss0 s' (inp @ x) (out @ y))
     \<or> (\<exists>e s'. chain_push push ss x = (Err e, s')
          \<and> (\<forall>r. \<not> chain_complete complete transform ss0 (inp @ x @ r)))"
    by (simp add: chain_session_def)
next
  fix ss0 ss :: "'st list" and inp out :: bytes
  assume "chain_session tracks ss0 ss inp out" and c: "chain_complete complete transform ss0 inp"
  then have t: "chain_tracks tracks ss0 ss inp out" and n: "ss0 \<noteq> []"
    by (simp_all add: chain_session_def)
  from chain_end_law [OF t n] c
  show "\<exists>y s'. chain_end push finish ss = (Ok y, s') \<and> out @ y = chain_transform transform ss0 inp"
    by simp
next
  fix ss0 ss :: "'st list" and inp out :: bytes
  assume "chain_session tracks ss0 ss inp out" and c: "\<not> chain_complete complete transform ss0 inp"
  then have t: "chain_tracks tracks ss0 ss inp out" and n: "ss0 \<noteq> []"
    by (simp_all add: chain_session_def)
  from chain_end_law [OF t n] c
  show "\<exists>e s'. chain_end push finish ss = (Err e, s')" by simp
qed

end

end
