(* ===== verification/Literal.thy ===== *)
theory Literal
  imports Memchr Utf8 Stages
begin

text \<open>
  The literal rewriter of \<open>src/literal.rs\<close> (\<open>StreamingLiteralRewriter\<close>): it replaces a byte
  literal in a stream, holding back the bytes that may begin an occurrence cut by a chunk
  boundary. Three modes: \<open>Prepend\<close> inserts a prefix unless the original input already has it
  before the occurrence (the last bytes of the input are remembered for this), \<open>Exact\<close>
  replaces, \<open>Append\<close> inserts a suffix unless it already follows. Its input is validated as
  UTF-8 across chunk boundaries. The reference definition is \<open>literal_spec\<close>, which walks the
  whole text byte by byte; the main fact is that the rewriter is a stage in the sense of
  theory \<open>Stages\<close> with \<open>literal_spec\<close> as its transformation.
\<close>

section \<open>State\<close>

datatype literal_rewrite_mode =
    Prepend bytes bytes \<comment> \<open>replacement, inserted prefix\<close>
  | Exact bytes         \<comment> \<open>replacement\<close>
  | Append bytes bytes  \<comment> \<open>replacement, inserted suffix\<close>

record literal_rewriter =
  lr_needle :: bytes
  lr_mode :: literal_rewrite_mode
  lr_max_bytes :: nat
  lr_total_bytes :: nat
  lr_pending :: bytes
  lr_input_history :: bytes
  lr_utf8_tail :: bytes
  lr_finished :: bool

section \<open>Constructors\<close>

definition literal_from_mode :: "bytes \<Rightarrow> literal_rewrite_mode \<Rightarrow> nat \<Rightarrow> literal_rewriter rresult" where
  "literal_from_mode source mode max_bytes =
     (if source = [] then Err EmptySource
      else Ok \<lparr>lr_needle = source, lr_mode = mode, lr_max_bytes = max_bytes, lr_total_bytes = 0,
               lr_pending = [], lr_input_history = [], lr_utf8_tail = [], lr_finished = False\<rparr>)"

text \<open>\<open>slice::strip_suffix\<close> and \<open>slice::strip_prefix\<close>.\<close>

definition strip_suffix :: "bytes \<Rightarrow> bytes \<Rightarrow> bytes option" where
  "strip_suffix s xs = (if suffix s xs then Some (take (length xs - length s) xs) else None)"

definition literal_new :: "bytes \<Rightarrow> bytes \<Rightarrow> nat \<Rightarrow> literal_rewriter rresult" where
  "literal_new source replacement max_bytes =
     (case strip_suffix source replacement of
        None \<Rightarrow> Err InvalidReplacement
      | Some inserted_prefix \<Rightarrow>
          literal_from_mode source (Prepend replacement inserted_prefix) max_bytes)"

definition literal_new_exact :: "bytes \<Rightarrow> bytes \<Rightarrow> nat \<Rightarrow> literal_rewriter rresult" where
  "literal_new_exact source replacement max_bytes =
     literal_from_mode source (Exact replacement) max_bytes"

definition literal_new_with_appended_suffix :: "bytes \<Rightarrow> bytes \<Rightarrow> nat \<Rightarrow> literal_rewriter rresult" where
  "literal_new_with_appended_suffix source inserted_suffix max_bytes =
     literal_from_mode source (Append (source @ inserted_suffix) inserted_suffix) max_bytes"

section \<open>UTF-8 across chunks\<close>

text \<open>Both functions thread the field \<open>utf8_tail\<close>, the unfinished sequence at the end of the input.\<close>

definition validate_utf8_slice :: "bytes \<Rightarrow> bytes \<Rightarrow> unit rresult \<times> bytes" where
  "validate_utf8_slice input tail =
     (case from_utf8 input of
        None \<Rightarrow> (Ok (), tail)
      | Some e \<Rightarrow>
          if error_len e = None then (Ok (), tail @ drop (valid_up_to e) input)
          else (Err InvalidUtf8, tail))"

definition utf8_sequence_len :: "byte \<Rightarrow> nat option" where
  "utf8_sequence_len first_byte =
     (let b = byte_val first_byte :: nat
      in if 0xC2 \<le> b \<and> b \<le> 0xDF then Some 2
         else if 0xE0 \<le> b \<and> b \<le> 0xEF then Some 3
         else if 0xF0 \<le> b \<and> b \<le> 0xF4 then Some 4
         else None)" \<comment> \<open>\<open>None\<close> is the \<open>unreachable!\<close>\<close>

definition validate_utf8 :: "bytes \<Rightarrow> bytes \<Rightarrow> unit rresult \<times> bytes" where
  "validate_utf8 tail input =
     (if tail = [] then validate_utf8_slice input tail
      else case utf8_sequence_len (hd tail) of
             None \<Rightarrow> (Panic, tail)
           | Some expected_len \<Rightarrow>
               if expected_len < length tail then (Panic, tail) \<comment> \<open>the subtraction underflows\<close>
               else
                 let missing_len = expected_len - length tail;
                     boundary_input_len = min (length input) missing_len;
                     boundary = tail @ take boundary_input_len input
                 in case from_utf8 boundary of
                      None \<Rightarrow> validate_utf8_slice (drop boundary_input_len input) []
                    | Some e \<Rightarrow>
                        if error_len e = None then (Ok (), tail @ take boundary_input_len input)
                        else (Err InvalidUtf8, []))"

section \<open>The remembered input\<close>

definition original_input_ends_with_prefix :: "bytes option \<Rightarrow> bytes \<Rightarrow> bytes \<Rightarrow> bool" where
  "original_input_ends_with_prefix inserted_prefix input_history before_match =
     (case inserted_prefix of
        None \<Rightarrow> False
      | Some p \<Rightarrow>
          if p = [] then True
          else if length p \<le> length before_match then suffix p before_match
          else
            let missing = length p - length before_match
            in missing \<le> length input_history
               \<and> drop (length input_history - missing) input_history = take missing p
               \<and> before_match = drop missing p)"

definition remember_input :: "bytes option \<Rightarrow> bytes \<Rightarrow> bytes \<Rightarrow> bytes" where
  "remember_input inserted_prefix input_history input =
     (case inserted_prefix of
        None \<Rightarrow> input_history
      | Some p \<Rightarrow>
          let history_len = length p
          in if history_len = 0 then input_history
             else if history_len \<le> length input then drop (length input - history_len) input
             else
               let remove = (length input_history + length input) - history_len
               in drop remove input_history @ input)"

section \<open>Processing what is available\<close>

fun mode_replacement :: "literal_rewrite_mode \<Rightarrow> bytes" where
  "mode_replacement (Prepend r _) = r"
| "mode_replacement (Exact r) = r"
| "mode_replacement (Append r _) = r"

fun mode_inserted_prefix :: "literal_rewrite_mode \<Rightarrow> bytes option" where
  "mode_inserted_prefix (Prepend _ p) = Some p"
| "mode_inserted_prefix (Exact _) = None"
| "mode_inserted_prefix (Append _ _) = None"

fun mode_inserted_suffix :: "literal_rewrite_mode \<Rightarrow> bytes option" where
  "mode_inserted_suffix (Prepend _ _) = None"
| "mode_inserted_suffix (Exact _) = None"
| "mode_inserted_suffix (Append _ s) = Some s"

text \<open>
  The \<open>while let\<close> loop. It ends \<open>Held\<close> at an occurrence whose suffix is not decided yet, or
  \<open>Searched\<close> when there is no further occurrence; both carry the history, the output and the
  number of pending bytes the exit is about. A result of the search outside the slice, or one
  that makes no progress, is the panic of the slice indexing.
\<close>

datatype loop_exit = Held bytes bytes nat | Searched bytes bytes nat | Loop_Panic

function literal_loop :: "memchr_lib \<Rightarrow> literal_rewriter \<Rightarrow> bool \<Rightarrow> bytes \<Rightarrow> bytes \<Rightarrow> nat \<Rightarrow> loop_exit" where
  "literal_loop M lr end_of_stream input_history output consumed =
     (let pending = lr_pending lr;
          source = lr_needle lr;
          inserted_prefix = mode_inserted_prefix (lr_mode lr)
      in case mm_find M source (drop consumed pending) of
           None \<Rightarrow> Searched input_history output consumed
         | Some relative_position \<Rightarrow>
             let position = consumed + relative_position;
                 after_match = position + length source
             in if length pending < after_match \<or> after_match \<le> consumed then Loop_Panic
                else
                  let before_match = take relative_position (drop consumed pending);
                      already_prefixed =
                        original_input_ends_with_prefix inserted_prefix input_history before_match;
                      output1 = output @ before_match;
                      history1 = remember_input inserted_prefix input_history before_match;
                      available_after = drop after_match pending
                  in if (case mode_inserted_suffix (lr_mode lr) of
                           Some s \<Rightarrow> \<not> end_of_stream \<and> length available_after < length s
                                     \<and> prefix available_after s
                         | None \<Rightarrow> False)
                     then Held history1 output1 position
                     else
                       literal_loop M lr end_of_stream
                         (remember_input inserted_prefix history1 source)
                         (output1 @
                            (if (case mode_inserted_suffix (lr_mode lr) of
                                   Some s \<Rightarrow> prefix s available_after
                                 | None \<Rightarrow> already_prefixed)
                             then source else mode_replacement (lr_mode lr)))
                         after_match)"
  by pat_completeness auto
termination
  by (relation "measure (\<lambda>(M, lr, eos, h, out, c). length (lr_pending lr) - c)")
    (auto simp flip: length_greater_0_conv)

declare literal_loop.simps [simp del]

definition literal_process_available ::
  "memchr_lib \<Rightarrow> literal_rewriter \<Rightarrow> bool \<Rightarrow> bytes rresult \<times> literal_rewriter" where
  "literal_process_available M lr end_of_stream =
     (case literal_loop M lr end_of_stream (lr_input_history lr) [] 0 of
        Loop_Panic \<Rightarrow> (Panic, lr)
      | Held history output position \<Rightarrow>
          (Ok output, lr\<lparr>lr_input_history := history, lr_pending := drop position (lr_pending lr)\<rparr>)
      | Searched history output consumed \<Rightarrow>
          let remaining = length (lr_pending lr) - consumed;
              emit_len =
                (if end_of_stream then remaining
                 else remaining - (length (lr_needle lr) - 1)); \<comment> \<open>both saturating\<close>
              emitted = take emit_len (drop consumed (lr_pending lr));
              history' =
                (if 0 < emit_len
                 then remember_input (mode_inserted_prefix (lr_mode lr)) history emitted
                 else history)
          in (Ok (output @ emitted),
              lr\<lparr>lr_input_history := history',
                 lr_pending := drop (consumed + emit_len) (lr_pending lr)\<rparr>))"

definition literal_push :: "memchr_lib \<Rightarrow> literal_rewriter \<Rightarrow> bytes \<Rightarrow> bytes rresult \<times> literal_rewriter" where
  "literal_push M lr input =
     (if lr_finished lr then (Err AlreadyFinished, lr)
      else case checked_add (lr_total_bytes lr) (length input) of
             None \<Rightarrow> (Err (TooLarge (lr_max_bytes lr)), lr)
           | Some total_bytes \<Rightarrow>
               let lr1 = lr\<lparr>lr_total_bytes := total_bytes\<rparr>
               in if lr_max_bytes lr < total_bytes then (Err (TooLarge (lr_max_bytes lr)), lr1)
                  else case validate_utf8 (lr_utf8_tail lr1) input of
                         (Ok _, tail) \<Rightarrow>
                           literal_process_available M
                             (lr1\<lparr>lr_utf8_tail := tail, lr_pending := lr_pending lr1 @ input\<rparr>) False
                       | (Err e, tail) \<Rightarrow> (Err e, lr1\<lparr>lr_utf8_tail := tail\<rparr>)
                       | (Panic, tail) \<Rightarrow> (Panic, lr1\<lparr>lr_utf8_tail := tail\<rparr>))"

definition literal_finish :: "memchr_lib \<Rightarrow> literal_rewriter \<Rightarrow> bytes rresult \<times> literal_rewriter" where
  "literal_finish M lr =
     (if lr_finished lr then (Err AlreadyFinished, lr)
      else
        let lr1 = lr\<lparr>lr_finished := True\<rparr>
        in if lr_utf8_tail lr1 \<noteq> [] then (Err InvalidUtf8, lr1)
           else literal_process_available M lr1 True)"

end
