(* ===== verification/Pattern.thy ===== *)
theory Pattern
  imports Memchr Stages
begin

text \<open>
  The expression pattern rewriter of \<open>src/literal.rs\<close>
  (\<open>StreamingExpressionPatternRewriter\<close>): it finds \<open>prefix expression suffix\<close>, where the
  expression is an ASCII identifier or a member expression such as \<open>a.b.c\<close> and the prefix is
  not preceded by an identifier byte, and replaces either the prefix or the whole match by a
  template that names the expression. A match cut by the end of a chunk is held back until
  more input decides it.
\<close>

section \<open>State\<close>

datatype pattern_syntax = Identifier | MemberExpression

datatype expression_replacement = Replace_Prefix bytes | Replace_Template bytes

datatype expression_pattern_match = Match nat | NeedMore | NoMatch

record pattern_rewriter =
  pr_prefix :: bytes
  pr_suffix :: bytes
  pr_replacement :: expression_replacement
  pr_syntax :: pattern_syntax
  pr_pending :: bytes
  pr_previous_byte :: "byte option"
  pr_finished :: bool

section \<open>Constructors\<close>

definition pattern_new :: "bytes \<Rightarrow> bytes \<Rightarrow> bytes \<Rightarrow> pattern_rewriter rresult" where
  "pattern_new pre suf replacement_prefix =
     (if pre = [] \<or> suf = [] then Err EmptySource
      else Ok \<lparr>pr_prefix = pre, pr_suffix = suf, pr_replacement = Replace_Prefix replacement_prefix,
               pr_syntax = Identifier, pr_pending = [], pr_previous_byte = None, pr_finished = False\<rparr>)"

definition pattern_new_member_expression :: "bytes \<Rightarrow> bytes \<Rightarrow> bytes \<Rightarrow> pattern_rewriter rresult" where
  "pattern_new_member_expression pre suf replacement_prefix =
     bind_outcome (pattern_new pre suf replacement_prefix)
       (\<lambda>rewriter. Ok (rewriter\<lparr>pr_syntax := MemberExpression\<rparr>))"

definition pattern_new_template :: "bytes \<Rightarrow> bytes \<Rightarrow> bytes \<Rightarrow> pattern_rewriter rresult" where
  "pattern_new_template pre suf template =
     (if pre = [] \<or> suf = [] then Err EmptySource
      else Ok \<lparr>pr_prefix = pre, pr_suffix = suf, pr_replacement = Replace_Template template,
               pr_syntax = Identifier, pr_pending = [], pr_previous_byte = None, pr_finished = False\<rparr>)"

section \<open>Identifiers\<close>

definition is_ascii_alphabetic :: "byte \<Rightarrow> bool" where
  "is_ascii_alphabetic b \<longleftrightarrow>
     (let v = byte_val b :: nat in (65 \<le> v \<and> v \<le> 90) \<or> (97 \<le> v \<and> v \<le> 122))"

definition is_ascii_digit :: "byte \<Rightarrow> bool" where
  "is_ascii_digit b \<longleftrightarrow> (let v = byte_val b :: nat in 48 \<le> v \<and> v \<le> 57)"

definition is_ascii_identifier_start :: "byte \<Rightarrow> bool" where
  "is_ascii_identifier_start b \<longleftrightarrow> is_ascii_alphabetic b \<or> b = CHR ''_'' \<or> b = CHR ''$''"

definition is_ascii_identifier_continue :: "byte \<Rightarrow> bool" where
  "is_ascii_identifier_continue b \<longleftrightarrow> is_ascii_identifier_start b \<or> is_ascii_digit b"

definition get_byte :: "bytes \<Rightarrow> nat \<Rightarrow> byte option" where
  "get_byte xs i = (if i < length xs then Some (xs ! i) else None)"

datatype identifier_segment_scan = End nat | Scan_NeedMore | Scan_NoMatch

text \<open>The \<open>while\<close> loop over the continuing bytes.\<close>

function identifier_end :: "bytes \<Rightarrow> nat \<Rightarrow> nat" where
  "identifier_end input cursor =
     (case get_byte input cursor of
        Some b \<Rightarrow> if is_ascii_identifier_continue b then identifier_end input (cursor + 1) else cursor
      | None \<Rightarrow> cursor)"
  by pat_completeness auto
termination
  by (relation "measure (\<lambda>(input, cursor). length input - cursor)")
    (auto simp: get_byte_def split: if_splits)

declare identifier_end.simps [simp del]

definition scan_identifier_segment :: "bytes \<Rightarrow> nat \<Rightarrow> bool \<Rightarrow> identifier_segment_scan" where
  "scan_identifier_segment input cursor end_of_stream =
     (case get_byte input cursor of
        None \<Rightarrow> if end_of_stream then Scan_NoMatch else Scan_NeedMore
      | Some first \<Rightarrow>
          if \<not> is_ascii_identifier_start first then Scan_NoMatch
          else End (identifier_end input (cursor + 1)))"

lemma identifier_end_eq:
  "identifier_end input cursor =
     cursor + length (takeWhile is_ascii_identifier_continue (drop cursor input))"
proof (induction input cursor rule: identifier_end.induct)
  case (1 input cursor)
  show ?case
  proof (cases "cursor < length input")
    case True
    then have "drop cursor input = input ! cursor # drop (Suc cursor) input"
      by (rule Cons_nth_drop_Suc [symmetric])
    with "1.IH" [of "input ! cursor"] True show ?thesis
      by (simp add: identifier_end.simps [of input cursor] get_byte_def)
  qed (simp add: identifier_end.simps [of input cursor] get_byte_def)
qed

lemma scan_End_bounds:
  "scan_identifier_segment input cursor eos = End c \<Longrightarrow> cursor < c \<and> c \<le> length input"
proof -
  assume "scan_identifier_segment input cursor eos = End c"
  then have l: "cursor < length input"
    and c: "c = Suc cursor + length (takeWhile is_ascii_identifier_continue (drop (Suc cursor) input))"
    by (auto simp: scan_identifier_segment_def get_byte_def identifier_end_eq split: if_splits)
  have "length (takeWhile is_ascii_identifier_continue (drop (Suc cursor) input)) \<le> length input - Suc cursor"
    using length_takeWhile_le [of is_ascii_identifier_continue "drop (Suc cursor) input"] by simp
  with l c show ?thesis by simp
qed

text \<open>The \<open>while\<close> loop over the further members.\<close>

function member_loop :: "bytes \<Rightarrow> nat \<Rightarrow> bool \<Rightarrow> identifier_segment_scan" where
  "member_loop input cursor end_of_stream =
     (if get_byte input cursor = Some (CHR ''.'')
      then case scan_identifier_segment input (cursor + 1) end_of_stream of
             End c \<Rightarrow> member_loop input c end_of_stream
           | Scan_NeedMore \<Rightarrow> Scan_NeedMore
           | Scan_NoMatch \<Rightarrow> Scan_NoMatch
      else End cursor)"
  by pat_completeness auto
termination
  by (relation "measure (\<lambda>(input, cursor, eos). length input - cursor)")
    (auto dest: scan_End_bounds)

declare member_loop.simps [simp del]

definition match_candidate :: "pattern_rewriter \<Rightarrow> nat \<Rightarrow> bool \<Rightarrow> expression_pattern_match" where
  "match_candidate pr start end_of_stream =
     (case scan_identifier_segment (pr_pending pr) (start + length (pr_prefix pr)) end_of_stream of
        Scan_NeedMore \<Rightarrow> NeedMore
      | Scan_NoMatch \<Rightarrow> NoMatch
      | End cursor0 \<Rightarrow>
          (case (if pr_syntax pr = MemberExpression
                 then member_loop (pr_pending pr) cursor0 end_of_stream else End cursor0) of
             Scan_NeedMore \<Rightarrow> NeedMore
           | Scan_NoMatch \<Rightarrow> NoMatch
           | End cursor \<Rightarrow>
               if cursor = length (pr_pending pr)
               then (if end_of_stream then NoMatch else NeedMore)
               else
                 let available = drop cursor (pr_pending pr);
                     compared_len = min (length available) (length (pr_suffix pr))
                 in if take compared_len available \<noteq> take compared_len (pr_suffix pr) then NoMatch
                    else if length available < length (pr_suffix pr)
                         then (if end_of_stream then NoMatch else NeedMore)
                         else Match (cursor + length (pr_suffix pr) - start)))"

lemma member_loop_bounds:
  "member_loop input cursor eos = End c \<Longrightarrow> cursor \<le> length input \<Longrightarrow> cursor \<le> c \<and> c \<le> length input"
proof (induction input cursor eos rule: member_loop.induct)
  case (1 input cursor eos)
  show ?case
  proof (cases "get_byte input cursor = Some (CHR ''.'')")
    case True
    with "1.prems" obtain c1 where s: "scan_identifier_segment input (cursor + 1) eos = End c1"
      and m: "member_loop input c1 eos = End c"
      by (auto simp: member_loop.simps [of input cursor] split: identifier_segment_scan.splits)
    from scan_End_bounds [OF s] "1.IH" [OF True s m] show ?thesis by auto
  next
    case False
    with "1.prems" show ?thesis by (simp add: member_loop.simps)
  qed
qed

lemma match_candidate_bounds:
  "match_candidate pr start eos = Match n \<Longrightarrow> 0 < n \<and> start + n \<le> length (pr_pending pr)"
  by (auto simp: match_candidate_def Let_def
      split: identifier_segment_scan.splits if_splits
      dest!: scan_End_bounds member_loop_bounds)

section \<open>Rendering a replacement\<close>

definition MARKER :: bytes where
  "MARKER = ''{identifier}''"

text \<open>The \<open>for\<close> loop over the marker positions; \<open>None\<close> is the panic of a slice out of order.\<close>

fun render_parts :: "bytes \<Rightarrow> bytes \<Rightarrow> nat list \<Rightarrow> nat \<Rightarrow> bytes option" where
  "render_parts template expression [] consumed =
     (if consumed \<le> length template then Some (drop consumed template) else None)"
| "render_parts template expression (position # ps) consumed =
     (if consumed \<le> position \<and> position \<le> length template
      then map_option (\<lambda>rest. take (position - consumed) (drop consumed template) @ expression @ rest)
             (render_parts template expression ps (position + length MARKER))
      else None)"

definition render_identifier_template :: "memchr_lib \<Rightarrow> bytes \<Rightarrow> bytes \<Rightarrow> bytes option" where
  "render_identifier_template M template expression =
     render_parts template expression (mm_find_iter M MARKER template) 0"

definition render_match :: "memchr_lib \<Rightarrow> expression_replacement \<Rightarrow> bytes \<Rightarrow> bytes \<Rightarrow> bytes option" where
  "render_match M replacement expression matched_suffix =
     (case replacement of
        Replace_Prefix replacement_prefix \<Rightarrow> Some (replacement_prefix @ expression @ matched_suffix)
      | Replace_Template template \<Rightarrow> render_identifier_template M template expression)"

section \<open>Processing what is available\<close>

definition last_byte :: "bytes \<Rightarrow> byte option" where
  "last_byte xs = (if xs = [] then None else Some (last xs))"

text \<open>
  The \<open>loop\<close>, with its variables \<open>output\<close>, \<open>consumed\<close> and \<open>previous_byte\<close>; \<open>None\<close> is a panic.
\<close>

function pattern_loop ::
  "memchr_lib \<Rightarrow> pattern_rewriter \<Rightarrow> bool \<Rightarrow> bytes \<Rightarrow> nat \<Rightarrow> byte option \<Rightarrow> (bytes \<times> nat \<times> byte option) option"
where
  "pattern_loop M pr end_of_stream output consumed previous_byte =
     (let pending = pr_pending pr; prefix_len = length (pr_prefix pr)
      in if length pending < consumed then None
         else case mm_find M (pr_prefix pr) (drop consumed pending) of
           None \<Rightarrow>
             let remaining = length pending - consumed;
                 emit_len = (if end_of_stream then remaining else remaining - (prefix_len - 1));
                 emitted = take emit_len (drop consumed pending)
             in if 0 < emit_len
                then Some (output @ emitted, consumed + emit_len, last_byte emitted)
                else Some (output, consumed, previous_byte)
         | Some relative_position \<Rightarrow>
             if 0 < relative_position
             then if length pending < consumed + relative_position then None
                  else
                    let emitted = take relative_position (drop consumed pending)
                    in pattern_loop M pr end_of_stream (output @ emitted)
                         (consumed + relative_position) (last_byte emitted)
             else
               (case (if (case previous_byte of Some b \<Rightarrow> is_ascii_identifier_continue b | None \<Rightarrow> False)
                      then NoMatch else match_candidate pr consumed end_of_stream) of
                  Match matched_len \<Rightarrow>
                    let expression_start = consumed + prefix_len;
                        expression_end = consumed + matched_len - length (pr_suffix pr);
                        expression = take (expression_end - expression_start) (drop expression_start pending);
                        matched_suffix = take (consumed + matched_len - expression_end) (drop expression_end pending)
                    in (case render_match M (pr_replacement pr) expression matched_suffix of
                          None \<Rightarrow> None
                        | Some replaced \<Rightarrow>
                            pattern_loop M pr end_of_stream (output @ replaced)
                              (consumed + matched_len) (last_byte (output @ replaced)))
                | NeedMore \<Rightarrow> Some (output, consumed, previous_byte)
                | NoMatch \<Rightarrow>
                    if consumed < length pending
                    then pattern_loop M pr end_of_stream (output @ [pending ! consumed])
                           (consumed + 1) (Some (pending ! consumed))
                    else None))"
  by pat_completeness auto
termination
  by (relation "measure (\<lambda>(M, pr, eos, out, c, prev). length (pr_pending pr) - c)")
    (auto split: if_splits dest: match_candidate_bounds)

declare pattern_loop.simps [simp del]

definition pattern_process_available ::
  "memchr_lib \<Rightarrow> pattern_rewriter \<Rightarrow> bool \<Rightarrow> bytes rresult \<times> pattern_rewriter" where
  "pattern_process_available M pr end_of_stream =
     (case pattern_loop M pr end_of_stream [] 0 (pr_previous_byte pr) of
        None \<Rightarrow> (Panic, pr)
      | Some (output, consumed, previous_byte) \<Rightarrow>
          (Ok output,
           pr\<lparr>pr_previous_byte := previous_byte, pr_pending := drop consumed (pr_pending pr)\<rparr>))"

definition pattern_push :: "memchr_lib \<Rightarrow> pattern_rewriter \<Rightarrow> bytes \<Rightarrow> bytes rresult \<times> pattern_rewriter" where
  "pattern_push M pr input =
     (if pr_finished pr then (Err AlreadyFinished, pr)
      else pattern_process_available M (pr\<lparr>pr_pending := pr_pending pr @ input\<rparr>) False)"

definition pattern_finish :: "memchr_lib \<Rightarrow> pattern_rewriter \<Rightarrow> bytes rresult \<times> pattern_rewriter" where
  "pattern_finish M pr =
     (if pr_finished pr then (Err AlreadyFinished, pr)
      else pattern_process_available M (pr\<lparr>pr_finished := True\<rparr>) True)"

end
