(* ===== verification/Pipeline.thy ===== *)
theory Pipeline
  imports Literal Pattern
begin

text \<open>
  \<open>StreamingRewritePipeline\<close> of \<open>src/literal.rs\<close>: a non-empty vector of rewriters of three
  kinds, a limit on the total input and the flag that the stream has ended. \<open>push\<close> feeds a
  chunk through all the rewriters; \<open>finish\<close> flushes them in order.
\<close>

section \<open>The buffered rewriter\<close>

text \<open>
  The boxed transformation is a function of the whole input; \<open>None\<close> would be a panic of it.
\<close>

record buffered_rewriter =
  br_transform :: "bytes \<Rightarrow> bytes option"
  br_pending :: bytes
  br_finished :: bool

definition buffered_push :: "buffered_rewriter \<Rightarrow> bytes \<Rightarrow> bytes rresult \<times> buffered_rewriter" where
  "buffered_push b input =
     (if br_finished b then (Err AlreadyFinished, b)
      else (Ok [], b\<lparr>br_pending := br_pending b @ input\<rparr>))"

definition buffered_finish :: "buffered_rewriter \<Rightarrow> bytes rresult \<times> buffered_rewriter" where
  "buffered_finish b =
     (if br_finished b then (Err AlreadyFinished, b)
      else
        let b1 = b\<lparr>br_finished := True\<rparr>
        in case br_transform b1 (br_pending b1) of Some y \<Rightarrow> (Ok y, b1) | None \<Rightarrow> (Panic, b1))"

section \<open>One rewriter\<close>

datatype streaming_rewriter =
    Buffered buffered_rewriter
  | Literal literal_rewriter
  | ExpressionPattern pattern_rewriter

fun rewriter_push :: "memchr_lib \<Rightarrow> streaming_rewriter \<Rightarrow> bytes \<Rightarrow> bytes rresult \<times> streaming_rewriter" where
  "rewriter_push M (Buffered r) input = map_prod id Buffered (buffered_push r input)"
| "rewriter_push M (Literal r) input = map_prod id Literal (literal_push M r input)"
| "rewriter_push M (ExpressionPattern r) input = map_prod id ExpressionPattern (pattern_push M r input)"

fun rewriter_finish :: "memchr_lib \<Rightarrow> streaming_rewriter \<Rightarrow> bytes rresult \<times> streaming_rewriter" where
  "rewriter_finish M (Buffered r) = map_prod id Buffered (buffered_finish r)"
| "rewriter_finish M (Literal r) = map_prod id Literal (literal_finish M r)"
| "rewriter_finish M (ExpressionPattern r) = map_prod id ExpressionPattern (pattern_finish M r)"

section \<open>The pipeline\<close>

record pipeline =
  pl_rewriters :: "streaming_rewriter list"
  pl_max_bytes :: nat
  pl_total_bytes :: nat
  pl_finished :: bool

definition pipeline_from_rewriters :: "streaming_rewriter list \<Rightarrow> nat \<Rightarrow> pipeline rresult" where
  "pipeline_from_rewriters rewriters max_bytes =
     (if rewriters = [] then Err EmptyRules
      else Ok \<lparr>pl_rewriters = rewriters, pl_max_bytes = max_bytes, pl_total_bytes = 0, pl_finished = False\<rparr>)"

definition prefix_literal_rewriters :: "(bytes \<times> bytes) list \<Rightarrow> streaming_rewriter list rresult" where
  "prefix_literal_rewriters rules =
     collect_outcomes
       (map (\<lambda>(source, replacement).
          bind_outcome (literal_new source replacement usize_max) (\<lambda>r. Ok (Literal r))) rules)"

definition exact_literal_rewriters :: "(bytes \<times> bytes) list \<Rightarrow> streaming_rewriter list rresult" where
  "exact_literal_rewriters rules =
     collect_outcomes
       (map (\<lambda>(source, replacement).
          bind_outcome (literal_new_exact source replacement usize_max) (\<lambda>r. Ok (Literal r))) rules)"

definition pipeline_new :: "(bytes \<times> bytes) list \<Rightarrow> nat \<Rightarrow> pipeline rresult" where
  "pipeline_new rules max_bytes =
     bind_outcome (prefix_literal_rewriters rules)
       (\<lambda>rewriters. pipeline_from_rewriters rewriters max_bytes)"

definition pipeline_new_with_exact ::
  "(bytes \<times> bytes) list \<Rightarrow> (bytes \<times> bytes) list \<Rightarrow> nat \<Rightarrow> pipeline rresult" where
  "pipeline_new_with_exact prefix_rules exact_rules max_bytes =
     bind_outcome (prefix_literal_rewriters prefix_rules) (\<lambda>rewriters.
     bind_outcome (exact_literal_rewriters exact_rules) (\<lambda>more.
       pipeline_from_rewriters (rewriters @ more) max_bytes))"

definition extend_rewriters :: "pipeline \<Rightarrow> streaming_rewriter list \<Rightarrow> pipeline" where
  "extend_rewriters p rs = p\<lparr>pl_rewriters := pl_rewriters p @ rs\<rparr>"

definition pipeline_new_with_exact_and_member_expression_patterns ::
  "(bytes \<times> bytes) list \<Rightarrow> (bytes \<times> bytes) list \<Rightarrow> (bytes \<times> bytes \<times> bytes) list \<Rightarrow> nat \<Rightarrow> pipeline rresult"
where
  "pipeline_new_with_exact_and_member_expression_patterns prefix_rules exact_rules member_expression_rules max_bytes =
     bind_outcome (pipeline_new_with_exact prefix_rules exact_rules max_bytes) (\<lambda>p.
     bind_outcome
       (collect_outcomes
          (map (\<lambda>(pre, suf, replacement_prefix).
             bind_outcome (pattern_new_member_expression pre suf replacement_prefix)
               (\<lambda>r. Ok (ExpressionPattern r))) member_expression_rules)) (\<lambda>rs.
       Ok (extend_rewriters p rs)))"

definition pipeline_new_with_appended_suffix :: "bytes \<Rightarrow> bytes \<Rightarrow> nat \<Rightarrow> pipeline rresult" where
  "pipeline_new_with_appended_suffix source inserted_suffix max_bytes =
     bind_outcome (literal_new_with_appended_suffix source inserted_suffix usize_max) (\<lambda>r.
       pipeline_from_rewriters [Literal r] max_bytes)"

definition with_exact_rules :: "pipeline \<Rightarrow> (bytes \<times> bytes) list \<Rightarrow> pipeline rresult" where
  "with_exact_rules p rules =
     bind_outcome (exact_literal_rewriters rules) (\<lambda>rs. Ok (extend_rewriters p rs))"

definition with_identifier_template_patterns ::
  "pipeline \<Rightarrow> (bytes \<times> bytes \<times> bytes) list \<Rightarrow> pipeline rresult" where
  "with_identifier_template_patterns p identifier_rules =
     bind_outcome
       (collect_outcomes
          (map (\<lambda>(pre, suf, template).
             bind_outcome (pattern_new_template pre suf template) (\<lambda>r. Ok (ExpressionPattern r)))
             identifier_rules)) (\<lambda>rs.
       Ok (extend_rewriters p rs))"

definition with_buffered_transform :: "pipeline \<Rightarrow> (bytes \<Rightarrow> bytes option) \<Rightarrow> pipeline" where
  "with_buffered_transform p transform =
     extend_rewriters p [Buffered \<lparr>br_transform = transform, br_pending = [], br_finished = False\<rparr>]"

definition pipeline_push :: "memchr_lib \<Rightarrow> pipeline \<Rightarrow> bytes \<Rightarrow> bytes rresult \<times> pipeline" where
  "pipeline_push M p input =
     (if pl_finished p then (Err AlreadyFinished, p)
      else case checked_add (pl_total_bytes p) (length input) of
             None \<Rightarrow> (Err (TooLarge (pl_max_bytes p)), p)
           | Some total_bytes \<Rightarrow>
               let p1 = p\<lparr>pl_total_bytes := total_bytes\<rparr>
               in if pl_max_bytes p < total_bytes then (Err (TooLarge (pl_max_bytes p)), p1)
                  else if pl_rewriters p1 = [] then (Panic, p1) \<comment> \<open>the \<open>expect\<close>\<close>
                  else case chain_push (rewriter_push M) (pl_rewriters p1) input of
                         (r, rs) \<Rightarrow> (r, p1\<lparr>pl_rewriters := rs\<rparr>))"

definition pipeline_finish :: "memchr_lib \<Rightarrow> pipeline \<Rightarrow> bytes rresult \<times> pipeline" where
  "pipeline_finish M p =
     (if pl_finished p then (Err AlreadyFinished, p)
      else
        let p1 = p\<lparr>pl_finished := True\<rparr>
        in if pl_rewriters p1 = [] then (Panic, p1) \<comment> \<open>the index out of bounds\<close>
           else case chain_end (rewriter_push M) (rewriter_finish M) (pl_rewriters p1) of
                  (r, rs) \<Rightarrow> (r, p1\<lparr>pl_rewriters := rs\<rparr>))"

end
