(* ===== verification/Literal_Correct.thy ===== *)
theory Literal_Correct
  imports Literal
begin

text \<open>
  What the literal rewriter computes. \<open>literal_spec\<close> is the reference: a walk over the whole
  text that rewrites each leftmost, non-overlapping occurrence by looking at the original
  text before it (prepend mode) or after it (append mode). The lemmas lead from the loop over
  the pending bytes to the interpretation of \<open>stream_stage\<close>.
\<close>

section \<open>Reference\<close>

fun literal_emit :: "literal_rewrite_mode \<Rightarrow> bytes \<Rightarrow> bytes \<Rightarrow> bytes \<Rightarrow> bytes" where
  "literal_emit (Prepend r p) src seen after = (if suffix p seen then src else r)"
| "literal_emit (Exact r) src seen after = r"
| "literal_emit (Append r s) src seen after = (if prefix s after then src else r)"

function literal_spec :: "literal_rewrite_mode \<Rightarrow> bytes \<Rightarrow> bytes \<Rightarrow> bytes \<Rightarrow> bytes" where
  "literal_spec m src seen [] = []"
| "literal_spec m src seen (x # xs) =
     (if src \<noteq> [] \<and> prefix src (x # xs)
      then literal_emit m src seen (drop (length src) (x # xs))
           @ literal_spec m src (seen @ src) (drop (length src) (x # xs))
      else x # literal_spec m src (seen @ [x]) xs)"
  by pat_completeness auto
termination
  by (relation "measure (\<lambda>(m, src, seen, xs). length xs)") auto

declare literal_spec.simps(2) [simp del]

text \<open>Text without an occurrence is copied.\<close>

lemma literal_spec_skip:
  "(\<And>j. j < k \<Longrightarrow> \<not> occurs_at src xs j) \<Longrightarrow> k \<le> length xs \<Longrightarrow>
     literal_spec m src seen xs = take k xs @ literal_spec m src (seen @ take k xs) (drop k xs)"
proof (induction k arbitrary: seen xs)
  case 0
  then show ?case by simp
next
  case (Suc k)
  then obtain x ys where xs: "xs = x # ys" by (cases xs) auto
  have no: "\<not> occurs_at src ys j" if "j < k" for j
    using Suc.prems(1) [of "Suc j"] that xs by (simp add: occurs_at_Cons_Suc)
  have "\<not> prefix src (x # ys)" using Suc.prems(1) [of 0] xs by simp
  then have "literal_spec m src seen xs = x # literal_spec m src (seen @ [x]) ys"
    by (simp add: xs literal_spec.simps)
  also have "\<dots> = x # take k ys @ literal_spec m src ((seen @ [x]) @ take k ys) (drop k ys)"
    using Suc.IH [OF no] Suc.prems(2) xs by simp
  finally show ?case by (simp add: xs)
qed

lemma literal_spec_match:
  assumes "src \<noteq> []" "prefix src xs"
  shows "literal_spec m src seen xs =
    literal_emit m src seen (drop (length src) xs)
    @ literal_spec m src (seen @ src) (drop (length src) xs)"
  using assms by (cases xs) (auto simp: literal_spec.simps)

text \<open>One step of the search: copy up to the first occurrence and rewrite it.\<close>

lemma literal_spec_first:
  assumes "src \<noteq> []" "first_occ src xs = Some i"
  shows "literal_spec m src seen xs =
    take i xs @ literal_emit m src (seen @ take i xs) (drop (i + length src) xs)
    @ literal_spec m src (seen @ take i xs @ src) (drop (i + length src) xs)"
proof -
  from assms(2) have i: "occurs_at src xs i" "\<And>j. j < i \<Longrightarrow> \<not> occurs_at src xs j"
    by (auto simp: first_occ_Some_iff)
  then have "prefix src (drop i xs)" and "i \<le> length xs" by (auto simp: occurs_at_def)
  then show ?thesis
    using literal_spec_skip [OF i(2), of i m seen] literal_spec_match [OF assms(1), of "drop i xs"]
    by (simp add: add.commute)
qed

lemma literal_spec_none: "first_occ src xs = None \<Longrightarrow> literal_spec m src seen xs = xs"
  using literal_spec_skip [of "length xs" src xs m seen] by (simp add: first_occ_None_iff)

section \<open>The remembered input\<close>

text \<open>The history holds the last bytes of the input seen, as many as the inserted prefix has.\<close>

definition history_ok :: "bytes option \<Rightarrow> bytes \<Rightarrow> bytes \<Rightarrow> bool" where
  "history_ok ip h seen \<longleftrightarrow>
     (case ip of None \<Rightarrow> h = [] | Some p \<Rightarrow> h = drop (length seen - length p) seen)"

lemma history_ok_Nil: "history_ok ip [] []"
  by (simp add: history_ok_def split: option.split)

lemma remember_input_ok:
  assumes "history_ok ip h seen"
  shows "history_ok ip (remember_input ip h x) (seen @ x)"
proof (cases ip)
  case None
  with assms show ?thesis by (simp add: history_ok_def remember_input_def)
next
  case (Some p)
  with assms have h: "h = drop (length seen - length p) seen" by (simp add: history_ok_def)
  show ?thesis
    unfolding history_ok_def remember_input_def Let_def Some option.case
    by (cases "length p \<le> length x"; cases "length seen \<le> length p") (auto simp: h add.commute)
qed

lemma ends_with_prefix_iff:
  assumes "history_ok (Some p) h seen"
  shows "original_input_ends_with_prefix (Some p) h before \<longleftrightarrow> suffix p (seen @ before)"
proof (cases "length p \<le> length before")
  case True
  then show ?thesis by (auto simp: original_input_ends_with_prefix_def suffix_append_long)
next
  case False
  let ?m = "length p - length before"
  from assms have h: "h = drop (length seen - length p) seen" by (simp add: history_ok_def)
  have "suffix p (seen @ before) \<longleftrightarrow> ?m \<le> length seen \<and> drop (length seen - ?m) seen @ before = p"
    using False by (auto simp: suffix_iff_drop)
  also have "\<dots> \<longleftrightarrow> ?m \<le> length seen \<and> drop (length seen - ?m) seen = take ?m p \<and> before = drop ?m p"
  proof -
    have "drop (length seen - ?m) seen @ before = p \<longleftrightarrow>
        drop (length seen - ?m) seen = take ?m p \<and> before = drop ?m p" if "?m \<le> length seen"
      using that False by (metis append_eq_conv_conj append_take_drop_id diff_diff_cancel length_drop)
    then show ?thesis by blast
  qed
  also have "\<dots> \<longleftrightarrow> ?m \<le> length h \<and> drop (length h - ?m) h = take ?m p \<and> before = drop ?m p"
    using False by (auto simp: h)
  finally show ?thesis
    using False by (auto simp: original_input_ends_with_prefix_def Let_def)
qed

section \<open>The loop\<close>

text \<open>
  From the pending bytes at offset \<open>c\<close> the loop has come to offset \<open>c'\<close>: the output it added
  and what remains account for the reference on every continuation \<open>r\<close> of the stream (none
  when the stream has ended), and the history is that of the bytes passed.
\<close>

definition advanced ::
  "literal_rewriter \<Rightarrow> bool \<Rightarrow> bytes \<Rightarrow> nat \<Rightarrow> bytes \<Rightarrow> bytes \<Rightarrow> bytes \<Rightarrow> nat \<Rightarrow> bool" where
  "advanced lr eos seen c out h' out' c' \<longleftrightarrow>
     (\<exists>k z. c' = c + k \<and> c' \<le> length (lr_pending lr) \<and> out' = out @ z
        \<and> history_ok (mode_inserted_prefix (lr_mode lr)) h' (seen @ take k (drop c (lr_pending lr)))
        \<and> (\<forall>r. (eos \<longrightarrow> r = []) \<longrightarrow>
             literal_spec (lr_mode lr) (lr_needle lr) seen (drop c (lr_pending lr) @ r)
             = z @ literal_spec (lr_mode lr) (lr_needle lr)
                     (seen @ take k (drop c (lr_pending lr))) (drop c' (lr_pending lr) @ r)))"

lemma advanced_refl:
  "c \<le> length (lr_pending lr) \<Longrightarrow> history_ok (mode_inserted_prefix (lr_mode lr)) h seen \<Longrightarrow>
     advanced lr eos seen c out h out c"
  by (auto simp: advanced_def intro!: exI [of _ 0])

lemma advanced_trans:
  assumes "advanced lr eos seen c out h1 out1 (c + k)"
    and "advanced lr eos (seen @ take k (drop c (lr_pending lr))) (c + k) out1 h2 out2 c2"
  shows "advanced lr eos seen c out h2 out2 c2"
proof -
  let ?p = "lr_pending lr"
  from assms(1) obtain z1 where z1: "out1 = out @ z1"
    "\<And>r. (eos \<longrightarrow> r = []) \<Longrightarrow>
       literal_spec (lr_mode lr) (lr_needle lr) seen (drop c ?p @ r)
       = z1 @ literal_spec (lr_mode lr) (lr_needle lr) (seen @ take k (drop c ?p)) (drop (c + k) ?p @ r)"
    by (auto simp: advanced_def)
  from assms(2) obtain k2 z2 where z2: "c2 = c + k + k2" "c2 \<le> length ?p" "out2 = out1 @ z2"
    "history_ok (mode_inserted_prefix (lr_mode lr)) h2
       ((seen @ take k (drop c ?p)) @ take k2 (drop (c + k) ?p))"
    "\<And>r. (eos \<longrightarrow> r = []) \<Longrightarrow>
       literal_spec (lr_mode lr) (lr_needle lr) (seen @ take k (drop c ?p)) (drop (c + k) ?p @ r)
       = z2 @ literal_spec (lr_mode lr) (lr_needle lr)
           ((seen @ take k (drop c ?p)) @ take k2 (drop (c + k) ?p)) (drop c2 ?p @ r)"
    by (auto simp: advanced_def)
  have "take k (drop c ?p) @ take k2 (drop (c + k) ?p) = take (k + k2) (drop c ?p)"
    by (simp add: take_add add.commute)
  then have a: "(seen @ take k (drop c ?p)) @ take k2 (drop (c + k) ?p) = seen @ take (k + k2) (drop c ?p)"
    by simp
  show ?thesis
    unfolding advanced_def
    using z1 z2 a by (intro exI [of _ "k + k2"] exI [of _ "z1 @ z2"]) (simp add: add.assoc)
qed

text \<open>The bytes before an occurrence, and the occurrence itself.\<close>

lemma first_occ_append: "first_occ n h = Some i \<Longrightarrow> first_occ n (h @ r) = Some i"
  using occurs_at_append_iff [of _ n h r] first_occ_bound [of n h i]
  by (fastforce simp: first_occ_Some_iff)

lemma advanced_before:
  assumes "lr_needle lr \<noteq> []" "c \<le> length (lr_pending lr)"
    and h: "history_ok (mode_inserted_prefix (lr_mode lr)) h seen"
    and i: "first_occ (lr_needle lr) (drop c (lr_pending lr)) = Some i"
  shows "advanced lr eos seen c out
    (remember_input (mode_inserted_prefix (lr_mode lr)) h (take i (drop c (lr_pending lr))))
    (out @ take i (drop c (lr_pending lr))) (c + i)"
proof -
  let ?xs = "drop c (lr_pending lr)"
  have b: "i + length (lr_needle lr) \<le> length ?xs" using first_occ_bound [OF i] .
  have no: "\<not> occurs_at (lr_needle lr) (?xs @ r) j" if "j < i" for j r
    using first_occ_append [OF i, of r] that by (simp add: first_occ_Some_iff)
  have "literal_spec (lr_mode lr) (lr_needle lr) seen (?xs @ r) =
      take i ?xs @ literal_spec (lr_mode lr) (lr_needle lr) (seen @ take i ?xs) (drop i ?xs @ r)" for r
    using literal_spec_skip [of i "lr_needle lr" "?xs @ r" "lr_mode lr" seen] no b by simp
  with b assms(2) show ?thesis
    unfolding advanced_def
    by (intro exI [of _ i] exI [of _ "take i ?xs"])
      (auto simp: remember_input_ok [OF h] add.commute)
qed

lemma advanced_match:
  assumes "lr_needle lr \<noteq> []" "c \<le> length (lr_pending lr)"
    and h: "history_ok (mode_inserted_prefix (lr_mode lr)) h seen"
    and m: "prefix (lr_needle lr) (drop c (lr_pending lr))"
    and e: "\<And>r. (eos \<longrightarrow> r = []) \<Longrightarrow>
      literal_emit (lr_mode lr) (lr_needle lr) seen
        (drop (c + length (lr_needle lr)) (lr_pending lr) @ r) = e"
  shows "advanced lr eos seen c out
    (remember_input (mode_inserted_prefix (lr_mode lr)) h (lr_needle lr))
    (out @ e) (c + length (lr_needle lr))"
proof -
  let ?xs = "drop c (lr_pending lr)" and ?n = "lr_needle lr"
  from m have t: "take (length ?n) ?xs = ?n" and l: "length ?n \<le> length ?xs"
    by (simp_all only: prefix_iff_take [THEN iffD1] prefix_length_le)
  have "prefix ?n (?xs @ r)" for r using m by (simp add: prefix_prefix)
  from literal_spec_match [OF assms(1) this] l e
  have "literal_spec (lr_mode lr) ?n seen (?xs @ r) = e @ literal_spec (lr_mode lr) ?n (seen @ ?n)
      (drop (c + length ?n) (lr_pending lr) @ r)" if "eos \<longrightarrow> r = []" for r
    using that by (simp add: add.commute)
  with l t assms(2) show ?thesis
    unfolding advanced_def
    by (intro exI [of _ "length ?n"] exI [of _ e]) (auto simp: remember_input_ok [OF h])
qed

definition decided :: "literal_rewrite_mode \<Rightarrow> bool \<Rightarrow> bytes \<Rightarrow> bool" where
  "decided m eos after \<longleftrightarrow>
     \<not> (case mode_inserted_suffix m of
          Some s \<Rightarrow> \<not> eos \<and> length after < length s \<and> prefix after s
        | None \<Rightarrow> False)"

text \<open>What the loop emits for an occurrence is what the reference emits, for every continuation.\<close>

lemma decided_emit:
  assumes "decided m eos after" "history_ok (mode_inserted_prefix m) h seen" "eos \<longrightarrow> r = []"
  shows "literal_emit m src (seen @ before) (after @ r) =
    (if (case mode_inserted_suffix m of
           Some s \<Rightarrow> prefix s after
         | None \<Rightarrow> original_input_ends_with_prefix (mode_inserted_prefix m) h before)
     then src else mode_replacement m)"
proof (cases m)
  case (Prepend r p)
  with assms(2) show ?thesis by (simp add: ends_with_prefix_iff)
next
  case (Exact r)
  then show ?thesis by (simp add: original_input_ends_with_prefix_def)
next
  case (Append rep s)
  have "prefix s (after @ r) \<longleftrightarrow> prefix s after"
  proof (cases eos)
    case False
    with assms(1) Append have "length s \<le> length after \<or> \<not> prefix after s"
      by (auto simp: decided_def)
    then show ?thesis
      by (metis linorder_le_cases prefix_length_prefix prefix_prefix prefixI)
  qed (use assms(3) in simp)
  with Append show ?thesis by simp
qed

lemma literal_loop_ok:
  assumes M: "memchr_ok M" and n: "lr_needle lr \<noteq> []"
  shows "history_ok (mode_inserted_prefix (lr_mode lr)) h seen \<Longrightarrow> c \<le> length (lr_pending lr) \<Longrightarrow>
    (case literal_loop M lr eos h out c of
       Loop_Panic \<Rightarrow> False
     | Held h' out' c' \<Rightarrow> \<not> eos \<and> advanced lr eos seen c out h' out' c'
     | Searched h' out' c' \<Rightarrow>
         advanced lr eos seen c out h' out' c' \<and> first_occ (lr_needle lr) (drop c' (lr_pending lr)) = None)"
proof (induction "length (lr_pending lr) - c" arbitrary: h seen out c rule: less_induct)
  case less
  note h = less.prems(1) and c = less.prems(2)
  let ?xs = "drop c (lr_pending lr)" and ?n = "lr_needle lr"
  let ?ip = "mode_inserted_prefix (lr_mode lr)"
  show ?case
  proof (cases "first_occ ?n ?xs")
    case None
    then show ?thesis
      using advanced_refl [OF c h]
      by (simp add: literal_loop.simps memchr_ok_find [OF M])
  next
    case (Some i)
    let ?after = "drop (c + i + length ?n) (lr_pending lr)"
    let ?h1 = "remember_input ?ip h (take i ?xs)"
    let ?e = "if (case mode_inserted_suffix (lr_mode lr) of
                    Some s \<Rightarrow> prefix s ?after
                  | None \<Rightarrow> original_input_ends_with_prefix ?ip h (take i ?xs))
              then ?n else mode_replacement (lr_mode lr)"
    let ?h2 = "remember_input ?ip ?h1 ?n"
    have bound: "c + i + length ?n \<le> length (lr_pending lr)"
      using first_occ_bound [OF Some] c by simp
    have before: "advanced lr eos seen c out ?h1 (out @ take i ?xs) (c + i)"
      by (rule advanced_before [OF n c h Some])
    show ?thesis
    proof (cases "decided (lr_mode lr) eos ?after")
      case False
      then have "literal_loop M lr eos h out c = Held ?h1 (out @ take i ?xs) (c + i)"
        using bound n Some
        by (simp add: literal_loop.simps [of M lr eos h out c] memchr_ok_find [OF M] Let_def decided_def)
      moreover have "\<not> eos" using False by (auto simp: decided_def split: option.splits)
      ultimately show ?thesis using before by simp
    next
      case True
      let ?c2 = "c + i + length ?n"
      have step: "literal_loop M lr eos h out c
          = literal_loop M lr eos ?h2 ((out @ take i ?xs) @ ?e) ?c2"
        using bound n Some True
        by (simp add: literal_loop.simps [of M lr eos h out c] memchr_ok_find [OF M] Let_def decided_def)
      have h1: "history_ok ?ip ?h1 (seen @ take i ?xs)" by (rule remember_input_ok [OF h])
      have "prefix ?n (drop (c + i) (lr_pending lr))"
        using Some by (simp add: first_occ_Some_iff occurs_at_def add.commute)
      then have "advanced lr eos (seen @ take i ?xs) (c + i) (out @ take i ?xs) ?h2
          ((out @ take i ?xs) @ ?e) ?c2"
        using bound decided_emit [OF True h, of _ ?n "take i ?xs"]
        by (intro advanced_match [OF n _ h1]) (auto simp: add.assoc)
      with before have adv: "advanced lr eos seen c out ?h2 ((out @ take i ?xs) @ ?e) ?c2"
        by (rule advanced_trans)
      have h2: "history_ok ?ip ?h2 (seen @ take (i + length ?n) ?xs)"
        using remember_input_ok [OF h1, of ?n] first_occ_take_drop [OF Some] by simp
      have dec: "length (lr_pending lr) - ?c2 < length (lr_pending lr) - c"
        using bound n by (auto simp flip: length_greater_0_conv)
      have adv': "advanced lr eos seen c out ?h2 ((out @ take i ?xs) @ ?e) (c + (i + length ?n))"
        using adv by (simp add: add.assoc)
      define o2 where "o2 = (out @ take i ?xs) @ ?e"
      note trans = advanced_trans [OF adv', folded o2_def, simplified add.assoc [symmetric]]
      note IH = less.hyps [OF dec h2 bound, of o2]
      show ?thesis
      proof (cases "literal_loop M lr eos ?h2 o2 ?c2")
        case (Held h' o' c')
        from IH [unfolded Held loop_exit.case] trans
        have "\<not> eos \<and> advanced lr eos seen c out h' o' c'" by blast
        then show ?thesis unfolding step o2_def [symmetric] Held loop_exit.case .
      next
        case (Searched h' o' c')
        with IH trans show ?thesis unfolding step o2_def [symmetric] by simp
      next
        case Loop_Panic
        with IH show ?thesis by simp
      qed
    qed
  qed
qed

section \<open>UTF-8 validation across chunks\<close>

lemma utf8_sequence_len_width:
  "utf8_seq b r = Short \<Longrightarrow> utf8_sequence_len b = Some (utf8_char_width (byte_val b))"
  by (drule utf8_seq_Short)
    (auto simp: utf8_sequence_len_def utf8_char_width_def Let_def split: if_splits)

lemma validate_slice_ok:
  "utf8_valid v \<Longrightarrow>
     (if utf8_partial (v @ x) then validate_utf8_slice x [] = (Ok (), utf8_rest (v @ x))
      else fst (validate_utf8_slice x []) = Err InvalidUtf8)"
  by (simp only: utf8_partial_append utf8_rest_append)
    (simp add: validate_utf8_slice_def utf8_partial_def utf8_rest_def split: option.split)

text \<open>
  Whatever the chunks, the validation accepts the input so far exactly when it can be
  continued to valid UTF-8, and remembers its unfinished sequence.
\<close>

lemma validate_utf8_ok:
  assumes part: "utf8_partial inp"
  shows "if utf8_partial (inp @ x) then validate_utf8 (utf8_rest inp) x = (Ok (), utf8_rest (inp @ x))
    else fst (validate_utf8 (utf8_rest inp) x) = Err InvalidUtf8"
proof -
  obtain v where v: "inp = v @ utf8_rest inp" "utf8_valid v"
    using utf8_partial_split [OF part] by blast
  show ?thesis
  proof (cases "utf8_rest inp = []")
    case True
    with v have "utf8_valid inp" by simp
    with validate_slice_ok [of inp x] True show ?thesis by (simp add: validate_utf8_def)
  next
    case False
    then obtain b r where t: "utf8_rest inp = b # r" and short: "utf8_seq b r = Short"
      using utf8_rest_cases [OF part] by blast
    let ?t = "b # r" and ?w = "utf8_char_width (byte_val b)"
    define m where "m = min (length x) (?w - Suc (length r))"
    have inp: "inp @ x = v @ ?t @ x" using v(1) t by simp
    have w: "length ?t < ?w" using utf8_seq_Short [OF short] by simp
    have len: "utf8_sequence_len b = Some ?w" using utf8_sequence_len_width [OF short] .
    have P: "utf8_partial (inp @ x) \<longleftrightarrow> utf8_partial (?t @ x)"
      and R: "utf8_rest (inp @ x) = utf8_rest (?t @ x)"
      unfolding inp by (rule utf8_partial_append [OF v(2)], rule utf8_rest_append [OF v(2)])
    let ?B = "?t @ take m x"
    have x: "?t @ x = ?B @ drop m x" by simp
    show ?thesis
    proof (cases "utf8_seq b (r @ take m x)")
      case (Seq n)
      then have "n = length ?B"
        using utf8_seq_Seq [OF Seq] w by (auto simp: m_def min_def split: if_splits)
      with Seq have "from_utf8 ?B = None" by (simp add: from_utf8_Cons)
      moreover from this have V: "utf8_valid ?B" by (simp add: utf8_valid_def)
      moreover from validate_slice_ok [OF V, of "drop m x"] have "if utf8_partial (?t @ x)
          then validate_utf8_slice (drop m x) [] = (Ok (), utf8_rest (?t @ x))
          else fst (validate_utf8_slice (drop m x) []) = Err InvalidUtf8"
        by (simp only: x [symmetric])
      ultimately show ?thesis
        using w len P R t
        by (simp add: validate_utf8_def Let_def flip: m_def)
    next
      case (Bad k)
      then have e: "from_utf8 ?B = Some \<lparr>valid_up_to = 0, error_len = Some k\<rparr>"
        by (simp add: from_utf8_Cons)
      then have "\<not> utf8_partial (?t @ x)"
        using utf8_not_partial_append [of ?B "drop m x"] x by (simp add: utf8_partial_def)
      with e w len P t show ?thesis by (simp add: validate_utf8_def Let_def flip: m_def)
    next
      case Short
      then have m: "take m x = x"
        using utf8_seq_Short [OF Short] w by (auto simp: m_def min_def split: if_splits)
      from Short have e: "from_utf8 (?t @ x) = Some \<lparr>valid_up_to = 0, error_len = None\<rparr>"
        using m by (simp add: from_utf8_Cons)
      then have "utf8_partial (?t @ x)" "utf8_rest (?t @ x) = ?t @ x"
        by (simp_all add: utf8_partial_def utf8_rest_def)
      with e w len P R t m show ?thesis by (simp add: validate_utf8_def Let_def flip: m_def)
    qed
  qed
qed

section \<open>The rewriter is a stage\<close>

definition literal_fresh :: "literal_rewriter \<Rightarrow> bool" where
  [wf_simps]: "literal_fresh lr \<longleftrightarrow>
     lr_needle lr \<noteq> [] \<and> lr_total_bytes lr = 0 \<and> lr_pending lr = [] \<and> lr_input_history lr = []
     \<and> lr_utf8_tail lr = [] \<and> \<not> lr_finished lr"

definition literal_tracks ::
  "memchr_lib \<Rightarrow> literal_rewriter \<Rightarrow> literal_rewriter \<Rightarrow> bytes \<Rightarrow> bytes \<Rightarrow> bool" where
  "literal_tracks M s0 s inp out \<longleftrightarrow>
     memchr_ok M \<and> lr_needle s0 \<noteq> [] \<and> lr_needle s = lr_needle s0 \<and> lr_mode s = lr_mode s0
     \<and> lr_max_bytes s = lr_max_bytes s0 \<and> \<not> lr_finished s
     \<and> lr_total_bytes s = length inp \<and> length inp \<le> lr_max_bytes s0 \<and> length inp \<le> usize_max
     \<and> utf8_partial inp \<and> lr_utf8_tail s = utf8_rest inp
     \<and> (\<exists>seen. inp = seen @ lr_pending s
          \<and> history_ok (mode_inserted_prefix (lr_mode s0)) (lr_input_history s) seen
          \<and> (\<forall>r. literal_spec (lr_mode s0) (lr_needle s0) [] (inp @ r)
                 = out @ literal_spec (lr_mode s0) (lr_needle s0) seen (lr_pending s @ r)))"

definition literal_complete :: "literal_rewriter \<Rightarrow> bytes \<Rightarrow> bool" where
  "literal_complete s0 x \<longleftrightarrow> utf8_valid x \<and> length x \<le> lr_max_bytes s0 \<and> length x \<le> usize_max"

definition literal_transform :: "literal_rewriter \<Rightarrow> bytes \<Rightarrow> bytes" where
  "literal_transform s0 x = literal_spec (lr_mode s0) (lr_needle s0) [] x"

lemma literal_fresh_tracks:
  "memchr_ok M \<Longrightarrow> literal_fresh s \<Longrightarrow> literal_tracks M s s [] []"
  by (simp add: literal_fresh_def literal_tracks_def history_ok_Nil utf8_partial_def utf8_rest_def)

text \<open>What one round of processing does to the state and the reference.\<close>

lemma process_available_ok:
  assumes M: "memchr_ok M" and n: "lr_needle lr \<noteq> []"
    and h: "history_ok (mode_inserted_prefix (lr_mode lr)) (lr_input_history lr) seen"
  obtains y h' c' where
    "literal_process_available M lr eos =
       (Ok y, lr\<lparr>lr_input_history := h', lr_pending := drop c' (lr_pending lr)\<rparr>)"
    "advanced lr eos seen 0 [] h' y c'" "eos \<Longrightarrow> c' = length (lr_pending lr)"
proof (cases "literal_loop M lr eos (lr_input_history lr) [] 0")
  case Loop_Panic
  with literal_loop_ok [OF M n h, of 0 eos "[]"] show ?thesis by simp
next
  case (Held h' out c')
  note A = literal_loop_ok [OF M n h le0, of eos "[]", unfolded Held loop_exit.case]
  show ?thesis
  proof (rule that)
    show "literal_process_available M lr eos =
       (Ok out, lr\<lparr>lr_input_history := h', lr_pending := drop c' (lr_pending lr)\<rparr>)"
      by (simp add: literal_process_available_def Held)
    show "advanced lr eos seen 0 [] h' out c'" using A ..
    show "eos \<Longrightarrow> c' = length (lr_pending lr)" using A by blast
  qed
next
  case (Searched h1 out c1)
  let ?p = "lr_pending lr" and ?ip = "mode_inserted_prefix (lr_mode lr)"
  let ?k = "if eos then length ?p - c1 else length ?p - c1 - (length (lr_needle lr) - 1)"
  let ?x = "take ?k (drop c1 ?p)"
  let ?h2 = "remember_input ?ip h1 ?x"
  from literal_loop_ok [OF M n h, of 0 eos "[]"] Searched
  have adv: "advanced lr eos seen 0 [] h1 out (0 + c1)"
    and none: "first_occ (lr_needle lr) (drop c1 ?p) = None" by simp_all
  from adv have c1: "c1 \<le> length ?p" and h1: "history_ok ?ip h1 (seen @ take c1 (drop 0 ?p))"
    by (auto simp: advanced_def)
  have k: "c1 + ?k \<le> length ?p" using c1 by auto
  have no: "\<not> occurs_at (lr_needle lr) (drop c1 ?p @ r) j" if "j < ?k" "eos \<longrightarrow> r = []" for j and r :: bytes
  proof -
    from none have nn: "\<not> occurs_at (lr_needle lr) (drop c1 ?p) j" by (simp add: first_occ_None_iff)
    show ?thesis
    proof (cases eos)
      case True
      with that nn show ?thesis by simp
    next
      case False
      with that(1) n have "j + length (lr_needle lr) \<le> length (drop c1 ?p)" by auto
      with nn show ?thesis by (simp add: occurs_at_append_iff)
    qed
  qed
  have "advanced lr eos (seen @ take c1 (drop 0 ?p)) (0 + c1) out ?h2 (out @ ?x) (c1 + ?k)"
    unfolding advanced_def
  proof (intro exI [of _ ?k] exI [of _ ?x] conjI allI impI)
    fix r :: bytes
    assume r: "eos \<longrightarrow> r = []"
    have "?k \<le> length (drop c1 ?p @ r)" using k by simp
    from literal_spec_skip [OF no [OF _ r] this]
    show "literal_spec (lr_mode lr) (lr_needle lr) (seen @ take c1 (drop 0 ?p)) (drop (0 + c1) ?p @ r) =
        ?x @ literal_spec (lr_mode lr) (lr_needle lr) ((seen @ take c1 (drop 0 ?p)) @ take ?k (drop (0 + c1) ?p))
          (drop (c1 + ?k) ?p @ r)"
      using k c1 by (simp add: add.commute)
  qed (use k remember_input_ok [OF h1, of ?x] in simp_all)
  with adv have A: "advanced lr eos seen 0 [] ?h2 (out @ ?x) (c1 + ?k)" by (rule advanced_trans)
  have "?h2 = (if 0 < ?k then ?h2 else h1) \<or> ?k = 0" by simp
  have hist: "advanced lr eos seen 0 [] (if 0 < ?k then ?h2 else h1) (out @ ?x) (c1 + ?k)"
    using A adv by (cases "0 < ?k") simp_all
  show ?thesis
    by (rule that [OF _ hist])
      (use c1 in \<open>simp_all add: literal_process_available_def Searched Let_def\<close>)
qed

lemma literal_push_law:
  assumes t: "literal_tracks M s0 s inp out"
  shows "(\<exists>y s'. literal_push M s x = (Ok y, s') \<and> literal_tracks M s0 s' (inp @ x) (out @ y))
    \<or> (\<exists>e s'. literal_push M s x = (Err e, s') \<and> (\<forall>r. \<not> literal_complete s0 (inp @ x @ r)))"
proof -
  from t have M: "memchr_ok M" and n: "lr_needle s \<noteq> []" and cfg: "lr_needle s = lr_needle s0"
    "lr_mode s = lr_mode s0" "lr_max_bytes s = lr_max_bytes s0" "\<not> lr_finished s"
    and tot: "lr_total_bytes s = length inp" and part: "utf8_partial inp"
    and tail: "lr_utf8_tail s = utf8_rest inp"
    by (auto simp: literal_tracks_def)
  from t obtain seen where inp: "inp = seen @ lr_pending s"
    and hist: "history_ok (mode_inserted_prefix (lr_mode s)) (lr_input_history s) seen"
    and spec: "\<And>r. literal_spec (lr_mode s) (lr_needle s) [] (inp @ r)
                 = out @ literal_spec (lr_mode s) (lr_needle s) seen (lr_pending s @ r)"
    by (auto simp: literal_tracks_def cfg)
  show ?thesis
  proof (cases "length inp + length x \<le> usize_max \<and> length inp + length x \<le> lr_max_bytes s")
    case False
    then have "\<exists>s'. literal_push M s x = (Err (TooLarge (lr_max_bytes s)), s')"
      by (auto simp: literal_push_def cfg(4) tot checked_add_def)
    moreover have "\<not> literal_complete s0 (inp @ x @ r)" for r
      using False cfg(3) by (auto simp: literal_complete_def)
    ultimately show ?thesis by blast
  next
    case True
    then have add: "checked_add (lr_total_bytes s) (length x) = Some (length inp + length x)"
      by (simp add: checked_add_def tot)
    note validate_utf8_ok [OF part, of x]
    show ?thesis
    proof (cases "utf8_partial (inp @ x)")
      case False
      with validate_utf8_ok [OF part, of x]
      have "\<exists>s'. literal_push M s x = (Err InvalidUtf8, s')"
        using True by (cases "validate_utf8 (utf8_rest inp) x")
          (simp add: literal_push_def cfg(4) add tail Let_def)
      moreover have "\<not> literal_complete s0 (inp @ x @ r)" for r
        using False utf8_valid_prefix_partial [of "inp @ x" r] by (auto simp: literal_complete_def)
      ultimately show ?thesis by blast
    next
      case part': True
      let ?s2 = "s\<lparr>lr_total_bytes := length inp + length x, lr_utf8_tail := utf8_rest (inp @ x),
        lr_pending := lr_pending s @ x\<rparr>"
      have push: "literal_push M s x = literal_process_available M ?s2 False"
        using validate_utf8_ok [OF part, of x] part' True
        by (simp add: literal_push_def cfg(4) add tail Let_def)
      obtain y h' c' where proc: "literal_process_available M ?s2 False =
          (Ok y, ?s2\<lparr>lr_input_history := h', lr_pending := drop c' (lr_pending ?s2)\<rparr>)"
        and adv: "advanced ?s2 False seen 0 [] h' y c'"
        by (rule process_available_ok [of M ?s2 seen False]) (use M n hist in simp_all)
      let ?s3 = "?s2\<lparr>lr_input_history := h', lr_pending := drop c' (lr_pending ?s2)\<rparr>"
      let ?seen = "seen @ take c' (lr_pending s @ x)"
      have "literal_spec (lr_mode s) (lr_needle s) [] ((inp @ x) @ r)
          = (out @ y) @ literal_spec (lr_mode s) (lr_needle s) ?seen (lr_pending ?s3 @ r)" for r
        using spec [of "x @ r"] adv by (simp add: advanced_def)
      moreover have "inp @ x = ?seen @ lr_pending ?s3"
        by (simp add: inp del: take_append drop_append)
      moreover have "history_ok (mode_inserted_prefix (lr_mode s)) (lr_input_history ?s3) ?seen"
        using adv by (simp add: advanced_def)
      ultimately have "literal_tracks M s0 ?s3 (inp @ x) (out @ y)"
        unfolding literal_tracks_def
        using M n cfg part' True by (intro conjI exI [of _ ?seen]) (simp_all del: take_append drop_append)
      with push proc show ?thesis by simp
    qed
  qed
qed

lemma literal_finish_law:
  assumes t: "literal_tracks M s0 s inp out"
  shows "if literal_complete s0 inp
    then \<exists>y s'. literal_finish M s = (Ok y, s') \<and> out @ y = literal_transform s0 inp
    else \<exists>e s'. literal_finish M s = (Err e, s')"
proof -
  from t have M: "memchr_ok M" and n: "lr_needle s \<noteq> []" and cfg: "lr_needle s = lr_needle s0"
    "lr_mode s = lr_mode s0" "\<not> lr_finished s"
    and part: "utf8_partial inp" and tail: "lr_utf8_tail s = utf8_rest inp"
    and len: "length inp \<le> lr_max_bytes s0" "length inp \<le> usize_max"
    by (auto simp: literal_tracks_def)
  from t obtain seen where
    hist: "history_ok (mode_inserted_prefix (lr_mode s)) (lr_input_history s) seen"
    and spec: "\<And>r. literal_spec (lr_mode s) (lr_needle s) [] (inp @ r)
                 = out @ literal_spec (lr_mode s) (lr_needle s) seen (lr_pending s @ r)"
    by (auto simp: literal_tracks_def cfg)
  have complete: "literal_complete s0 inp \<longleftrightarrow> utf8_rest inp = []"
    using part len by (auto simp: literal_complete_def utf8_partial_iff_valid)
  show ?thesis
  proof (cases "utf8_rest inp = []")
    case False
    then show ?thesis by (simp add: complete literal_finish_def cfg(3) tail)
  next
    case True
    let ?s1 = "s\<lparr>lr_finished := True\<rparr>"
    obtain y h' c' where proc: "literal_process_available M ?s1 True =
        (Ok y, ?s1\<lparr>lr_input_history := h', lr_pending := drop c' (lr_pending ?s1)\<rparr>)"
      and adv: "advanced ?s1 True seen 0 [] h' y c'" and c': "c' = length (lr_pending ?s1)"
      by (rule process_available_ok [of M ?s1 seen True]) (use M n hist in simp_all)
    from adv have "literal_spec (lr_mode s) (lr_needle s) seen (lr_pending s) = y"
      by (auto simp: advanced_def c')
    with spec [of "[]"] have "out @ y = literal_transform s0 inp"
      by (simp add: literal_transform_def cfg)
    with proc True show ?thesis by (simp add: complete literal_finish_def cfg(3) tail)
  qed
qed

interpretation literal_stage:
  stream_stage "literal_push M" "literal_finish M" "literal_tracks M" literal_complete literal_transform
  for M
proof unfold_locales
  fix s0 s inp out x
  assume "literal_tracks M s0 s inp out"
  then show "(\<exists>y s'. literal_push M s x = (Ok y, s') \<and> literal_tracks M s0 s' (inp @ x) (out @ y))
    \<or> (\<exists>e s'. literal_push M s x = (Err e, s') \<and> (\<forall>r. \<not> literal_complete s0 (inp @ x @ r)))"
    by (rule literal_push_law)
next
  fix s0 s inp out
  assume "literal_tracks M s0 s inp out" "literal_complete s0 inp"
  with literal_finish_law [of M s0 s inp out]
  show "\<exists>y s'. literal_finish M s = (Ok y, s') \<and> out @ y = literal_transform s0 inp" by simp
next
  fix s0 s inp out
  assume "literal_tracks M s0 s inp out" "\<not> literal_complete s0 inp"
  with literal_finish_law [of M s0 s inp out]
  show "\<exists>e s'. literal_finish M s = (Err e, s')" by simp
qed

end
