(* ===== verification/Pattern_Correct.thy ===== *)
theory Pattern_Correct
  imports Pattern Literal_Correct
begin

text \<open>
  What the expression pattern rewriter computes. \<open>expression\<close> parses an identifier or member
  expression off a whole text, \<open>pattern_spec\<close> rewrites a whole text from left to right; the
  lemmas show that the scanner decides on a partial text only what holds of every
  continuation, and end in the interpretation of \<open>stream_stage\<close>.
\<close>

section \<open>Reference\<close>

definition segment :: "bytes \<Rightarrow> (bytes \<times> bytes) option" where
  "segment xs =
     (case xs of
        [] \<Rightarrow> None
      | b # ys \<Rightarrow>
          if is_ascii_identifier_start b
          then Some (b # takeWhile is_ascii_identifier_continue ys, dropWhile is_ascii_identifier_continue ys)
          else None)"

lemma segment_append: "segment xs = Some (s, r) \<Longrightarrow> xs = s @ r \<and> s \<noteq> []"
  by (auto simp: segment_def split: list.splits if_splits)

function expression :: "pattern_syntax \<Rightarrow> bytes \<Rightarrow> (bytes \<times> bytes) option" where
  "expression syn xs =
     (case segment xs of
        None \<Rightarrow> None
      | Some (s, r) \<Rightarrow>
          if syn = MemberExpression \<and> r \<noteq> [] \<and> hd r = CHR ''.''
          then (case expression syn (tl r) of
                  None \<Rightarrow> None
                | Some (e, r') \<Rightarrow> Some (s @ CHR ''.'' # e, r'))
          else Some (s, r))"
  by pat_completeness auto
termination
  by (relation "measure (\<lambda>(syn, xs). length xs)")
    (auto dest!: segment_append simp flip: length_greater_0_conv)

declare expression.simps [simp del]

lemma expression_none: "segment xs = None \<Longrightarrow> expression syn xs = None"
  by (subst expression.simps) simp

lemma expression_last:
  "segment xs = Some (s, r) \<Longrightarrow> \<not> (syn = MemberExpression \<and> r \<noteq> [] \<and> hd r = CHR ''.'') \<Longrightarrow>
     expression syn xs = Some (s, r)"
  by (subst expression.simps) auto

lemma expression_dot:
  "segment xs = Some (s, r) \<Longrightarrow> r \<noteq> [] \<Longrightarrow> hd r = CHR ''.'' \<Longrightarrow>
     expression MemberExpression xs =
       (case expression MemberExpression (tl r) of
          None \<Rightarrow> None | Some (e, r') \<Rightarrow> Some (s @ CHR ''.'' # e, r'))"
  by (subst expression.simps) auto

lemma expression_append: "expression syn xs = Some (e, r) \<Longrightarrow> xs = e @ r \<and> e \<noteq> []"
proof (induction syn xs arbitrary: e rule: expression.induct)
  case (1 syn xs)
  obtain s r1 where s: "segment xs = Some (s, r1)"
    using "1.prems" by (auto simp: expression.simps [of syn xs] split: option.splits)
  show ?case
  proof (cases "syn = MemberExpression \<and> r1 \<noteq> [] \<and> hd r1 = CHR ''.''")
    case True
    then obtain e1 where e1: "expression syn (tl r1) = Some (e1, r)" "e = s @ CHR ''.'' # e1"
      using "1.prems" [unfolded expression.simps [of syn xs]] s by (auto split: option.splits)
    from "1.IH" [OF s refl True e1(1)] True segment_append [OF s] e1(2) show ?thesis
      by (cases r1) auto
  next
    case False
    with "1.prems" segment_append [OF s] expression_last [OF s False] show ?thesis by auto
  qed
qed

text \<open>The pattern at the beginning of a text: the expression and what follows the match.\<close>

definition pattern_at :: "pattern_rewriter \<Rightarrow> bytes \<Rightarrow> (bytes \<times> bytes) option" where
  "pattern_at pr xs =
     (if prefix (pr_prefix pr) xs
      then case expression (pr_syntax pr) (drop (length (pr_prefix pr)) xs) of
             Some (e, r) \<Rightarrow>
               if prefix (pr_suffix pr) r then Some (e, drop (length (pr_suffix pr)) r) else None
           | None \<Rightarrow> None
      else None)"

lemma pattern_at_append:
  "pattern_at pr xs = Some (e, r) \<Longrightarrow> xs = pr_prefix pr @ e @ pr_suffix pr @ r \<and> e \<noteq> []"
  by (auto simp: pattern_at_def prefix_def split: if_splits option.splits dest!: expression_append)

text \<open>The template with every marker replaced by the expression.\<close>

definition replacement_spec :: "pattern_rewriter \<Rightarrow> bytes \<Rightarrow> bytes" where
  "replacement_spec pr e =
     (case pr_replacement pr of
        Replace_Prefix p \<Rightarrow> p @ e @ pr_suffix pr
      | Replace_Template t \<Rightarrow> literal_spec (Exact e) MARKER [] t)"

definition after_identifier :: "byte option \<Rightarrow> bool" where
  "after_identifier prev = (case prev of Some b \<Rightarrow> is_ascii_identifier_continue b | None \<Rightarrow> False)"

function pattern_spec :: "pattern_rewriter \<Rightarrow> byte option \<Rightarrow> bytes \<Rightarrow> bytes" where
  "pattern_spec pr prev [] = []"
| "pattern_spec pr prev (x # xs) =
     (if after_identifier prev then x # pattern_spec pr (Some x) xs
      else case pattern_at pr (x # xs) of
             None \<Rightarrow> x # pattern_spec pr (Some x) xs
           | Some (e, r) \<Rightarrow>
               replacement_spec pr e @ pattern_spec pr (last_byte (replacement_spec pr e)) r)"
  by pat_completeness auto
termination
proof (relation "measure (\<lambda>(pr, prev, xs). length xs)", goal_cases)
  case (4 pr prev x xs p e r)
  then have "pattern_at pr (x # xs) = Some (e, r)" by simp
  then have "x # xs = pr_prefix pr @ e @ pr_suffix pr @ r \<and> e \<noteq> []"
    by (rule pattern_at_append)
  then have "length (x # xs) = length (pr_prefix pr @ e @ pr_suffix pr @ r)" and "0 < length e"
    by simp_all
  then show ?case by simp
qed auto

declare pattern_spec.simps(2) [simp del]

section \<open>Scanning a partial text\<close>

text \<open>
  Reading an identifier from a partial text: the end found is the reference's, and it is
  final unless it is the end of the text.
\<close>

lemma takeWhile_append_ne:
  "dropWhile P xs \<noteq> [] \<Longrightarrow> takeWhile P (xs @ q) = takeWhile P xs \<and> dropWhile P (xs @ q) = dropWhile P xs @ q"
  by (induction xs) auto

lemma segment_extend: "segment xs = Some (s, r) \<Longrightarrow> r \<noteq> [] \<Longrightarrow> segment (xs @ q) = Some (s, r @ q)"
  by (auto simp: segment_def takeWhile_append_ne split: list.splits if_splits)

lemma scan_segment_End:
  assumes "scan_identifier_segment input cursor eos = End c"
  obtains s where "segment (drop cursor input) = Some (s, drop c input)" "c = cursor + length s"
proof -
  from assms have l: "cursor < length input" and st: "is_ascii_identifier_start (input ! cursor)"
    and c: "c = Suc cursor + length (takeWhile is_ascii_identifier_continue (drop (Suc cursor) input))"
    by (auto simp: scan_identifier_segment_def get_byte_def identifier_end_eq split: if_splits)
  have "drop c input = dropWhile is_ascii_identifier_continue (drop (Suc cursor) input)"
    by (simp add: c dropWhile_eq_drop add.commute)
  with st drop_eq_Cons [OF l] c show ?thesis
    by (intro that [of "input ! cursor # takeWhile is_ascii_identifier_continue (drop (Suc cursor) input)"])
      (simp_all add: segment_def)
qed

lemma scan_segment_NoMatch:
  assumes "scan_identifier_segment input cursor eos = Scan_NoMatch" "eos \<longrightarrow> q = []"
  shows "segment (drop cursor input @ q) = None"
proof (cases "cursor < length input")
  case True
  with assms drop_eq_Cons [OF True] show ?thesis
    by (auto simp: scan_identifier_segment_def get_byte_def segment_def split: if_splits)
next
  case False
  with assms show ?thesis
    by (auto simp: scan_identifier_segment_def get_byte_def segment_def split: if_splits)
qed

lemma scan_segment_NeedMore: "scan_identifier_segment input cursor eos = Scan_NeedMore \<Longrightarrow> \<not> eos"
  by (auto simp: scan_identifier_segment_def split: option.splits if_splits)

text \<open>The scan of a whole expression, as \<open>match_candidate\<close> composes it.\<close>

definition scan_expression :: "pattern_syntax \<Rightarrow> bytes \<Rightarrow> nat \<Rightarrow> bool \<Rightarrow> identifier_segment_scan" where
  "scan_expression syn input cursor eos =
     (case scan_identifier_segment input cursor eos of
        End c \<Rightarrow> if syn = MemberExpression then member_loop input c eos else End c
      | r \<Rightarrow> r)"

lemma member_loop_unfold:
  "member_loop input cursor eos =
     (if get_byte input cursor = Some (CHR ''.'')
      then scan_expression MemberExpression input (cursor + 1) eos else End cursor)"
  by (simp add: member_loop.simps [of input cursor] scan_expression_def
      split: identifier_segment_scan.split)

lemma get_byte_dot: "get_byte input c = Some b \<longleftrightarrow> drop c input \<noteq> [] \<and> hd (drop c input) = b"
  by (auto simp: get_byte_def hd_drop_conv_nth)

lemma scan_expression_ok:
  "case scan_expression syn input cursor eos of
     End c \<Rightarrow> \<exists>e. expression syn (drop cursor input) = Some (e, drop c input) \<and> c = cursor + length e
               \<and> (drop c input \<noteq> [] \<longrightarrow>
                    (\<forall>q. expression syn (drop cursor input @ q) = Some (e, drop c input @ q)))
   | Scan_NeedMore \<Rightarrow> \<not> eos
   | Scan_NoMatch \<Rightarrow> \<forall>q. (eos \<longrightarrow> q = []) \<longrightarrow> expression syn (drop cursor input @ q) = None"
proof (induction "length input - cursor" arbitrary: cursor rule: less_induct)
  case less
  let ?xs = "drop cursor input"
  show ?case
  proof (cases "scan_identifier_segment input cursor eos")
    case (End c0)
    obtain s where s: "segment ?xs = Some (s, drop c0 input)" "c0 = cursor + length s"
      using scan_segment_End [OF End] .
    have c0: "cursor < c0" "c0 \<le> length input" using scan_End_bounds [OF End] by auto
    have ext: "segment (?xs @ q) = Some (s, drop c0 input @ q)" if "drop c0 input \<noteq> []" for q
      using segment_extend [OF s(1) that] .
    show ?thesis
    proof (cases "syn = MemberExpression \<and> get_byte input c0 = Some (CHR ''.'')")
      case False
      then have "scan_expression syn input cursor eos = End c0"
        using End by (auto simp: scan_expression_def member_loop_unfold)
      moreover have "expression syn ?xs = Some (s, drop c0 input)"
        using s False by (auto simp: expression.simps [of syn ?xs] get_byte_dot)
      moreover have "expression syn (?xs @ q) = Some (s, drop c0 input @ q)" if "drop c0 input \<noteq> []" for q
        using ext [OF that] False that by (auto simp: expression.simps [of syn "?xs @ q"] get_byte_dot)
      ultimately show ?thesis using s(2) by simp
    next
      case True
      then have dot: "drop c0 input \<noteq> []" "hd (drop c0 input) = CHR ''.''" "syn = MemberExpression"
        by (auto simp: get_byte_dot)
      have tl: "tl (drop c0 input) = drop (c0 + 1) input" by (simp add: drop_Suc tl_drop)
      have scan: "scan_expression syn input cursor eos = scan_expression syn input (c0 + 1) eos"
        unfolding scan_expression_def [of syn input cursor] using End True
        by (simp add: member_loop_unfold)
      have step: "expression syn (?xs @ q) =
          (case expression syn (drop (c0 + 1) input @ q) of
             None \<Rightarrow> None | Some (e, r') \<Rightarrow> Some (s @ CHR ''.'' # e, r'))" for q
        using expression_dot [OF ext [OF dot(1), of q]] dot tl by simp
      have dec: "length input - (c0 + 1) < length input - cursor" using c0 by auto
      from less.hyps [OF dec] step [of "[]"] step s(2) show ?thesis
        unfolding scan by (auto split: identifier_segment_scan.splits)
    qed
  next
    case Scan_NeedMore
    then show ?thesis using scan_segment_NeedMore by (auto simp: scan_expression_def)
  next
    case Scan_NoMatch
    with scan_segment_NoMatch [OF Scan_NoMatch] show ?thesis
      by (auto simp: scan_expression_def expression.simps [of syn "?xs @ _"])
  qed
qed

section \<open>The candidate match\<close>

lemma match_candidate_scan:
  "match_candidate pr start eos =
     (case scan_expression (pr_syntax pr) (pr_pending pr) (start + length (pr_prefix pr)) eos of
        Scan_NeedMore \<Rightarrow> NeedMore
      | Scan_NoMatch \<Rightarrow> NoMatch
      | End cursor \<Rightarrow>
          (let available = drop cursor (pr_pending pr);
               compared_len = min (length available) (length (pr_suffix pr))
           in if cursor = length (pr_pending pr) then (if eos then NoMatch else NeedMore)
              else if take compared_len available \<noteq> take compared_len (pr_suffix pr) then NoMatch
              else if length available < length (pr_suffix pr) then (if eos then NoMatch else NeedMore)
              else Match (cursor + length (pr_suffix pr) - start)))"
  by (cases "scan_identifier_segment (pr_pending pr) (start + length (pr_prefix pr)) eos")
    (simp_all only: match_candidate_def scan_expression_def Let_def identifier_segment_scan.case)

definition pattern_wf :: "pattern_rewriter \<Rightarrow> bool" where
  [wf_simps]: "pattern_wf pr \<longleftrightarrow>
     pr_prefix pr \<noteq> [] \<and> pr_suffix pr \<noteq> []"

lemma common_prefix_extend:
  "take (min (length a) (length s)) a \<noteq> take (min (length a) (length s)) s \<Longrightarrow> \<not> prefix s (a @ q)"
  by (auto simp: prefix_def) (metis append_eq_append_conv_if append_take_drop_id min_def take_all_iff take_append nat_le_linear)

lemma common_prefix_short:
  "length a < length s \<Longrightarrow> \<not> prefix s a"
  by (auto dest: prefix_length_le)

lemma common_prefix_full:
  "take (min (length a) (length s)) a = take (min (length a) (length s)) s \<Longrightarrow> \<not> length a < length s \<Longrightarrow>
     prefix s (a @ q)"
  by (simp add: prefix_iff_take min_absorb2 not_less)

text \<open>
  The decision on the pending bytes is the reference's decision on every continuation of the
  stream; \<open>NeedMore\<close> is given only while the stream goes on.
\<close>

lemma match_candidate_ok:
  assumes wf: "pr_suffix pr \<noteq> []" and pre: "prefix (pr_prefix pr) (drop start (pr_pending pr))"
  shows "case match_candidate pr start eos of
     Match n \<Rightarrow> \<exists>e. n = length (pr_prefix pr) + length e + length (pr_suffix pr)
       \<and> (\<forall>q. pattern_at pr (drop start (pr_pending pr) @ q) = Some (e, drop (start + n) (pr_pending pr) @ q))
   | NeedMore \<Rightarrow> \<not> eos
   | NoMatch \<Rightarrow> \<forall>q. (eos \<longrightarrow> q = []) \<longrightarrow> pattern_at pr (drop start (pr_pending pr) @ q) = None"
proof -
  let ?p = "pr_pending pr" and ?k = "start + length (pr_prefix pr)" and ?suf = "pr_suffix pr"
  have lp: "length (pr_prefix pr) \<le> length (drop start ?p)" using pre by (rule prefix_length_le)
  have at: "pattern_at pr (drop start ?p @ q) =
      (case expression (pr_syntax pr) (drop ?k ?p @ q) of
         Some (e, r) \<Rightarrow> if prefix ?suf r then Some (e, drop (length ?suf) r) else None
       | None \<Rightarrow> None)" for q
    using pre lp by (simp add: pattern_at_def prefix_prefix add.commute)
  note scan = scan_expression_ok [where syn = "pr_syntax pr" and input = ?p and cursor = ?k and eos = eos]
  show ?thesis
  proof (cases "scan_expression (pr_syntax pr) ?p ?k eos")
    case Scan_NeedMore
    with scan show ?thesis by (simp add: match_candidate_scan)
  next
    case Scan_NoMatch
    with scan show ?thesis by (simp add: match_candidate_scan at)
  next
    case (End c)
    let ?a = "drop c ?p"
    from scan End obtain e where e: "expression (pr_syntax pr) (drop ?k ?p) = Some (e, ?a)" "c = ?k + length e"
      "\<And>q. ?a \<noteq> [] \<Longrightarrow> expression (pr_syntax pr) (drop ?k ?p @ q) = Some (e, ?a @ q)"
      by auto
    show ?thesis
    proof (cases "c = length ?p")
      case True
      then have "pattern_at pr (drop start ?p) = None"
        using at [of "[]"] e(1) wf by simp
      with True End show ?thesis by (auto simp: match_candidate_scan)
    next
      case False
      with e(1) have c: "?a \<noteq> []"
        using expression_append [OF e(1)] e(2) by (cases "c \<le> length ?p") auto
      let ?m = "min (length ?a) (length ?suf)"
      have nomatch: "pattern_at pr (drop start ?p @ q) = None" if "\<not> prefix ?suf (?a @ q)" for q
        using that e(3) [OF c] by (simp add: at)
      consider (differ) "take ?m ?a \<noteq> take ?m ?suf"
        | (short) "take ?m ?a = take ?m ?suf" "length ?a < length ?suf"
        | (full) "take ?m ?a = take ?m ?suf" "\<not> length ?a < length ?suf" by blast
      then show ?thesis
      proof cases
        case differ
        then have "match_candidate pr start eos = NoMatch"
          using End False by (simp add: match_candidate_scan Let_def)
        with nomatch common_prefix_extend [OF differ] show ?thesis by simp
      next
        case short
        then have "match_candidate pr start eos = (if eos then NoMatch else NeedMore)"
          using End False by (simp add: match_candidate_scan Let_def)
        with nomatch [of "[]"] common_prefix_short [OF short(2)] show ?thesis by auto
      next
        case full
        then have m: "match_candidate pr start eos = Match (c + length ?suf - start)"
          using End False by (simp add: match_candidate_scan Let_def)
        have "length ?suf \<le> length ?a" using full by simp
        then have "pattern_at pr (drop start ?p @ q) = Some (e, drop (length ?suf + c) ?p @ q)" for q
          using common_prefix_full [OF full] e(3) [OF c] by (simp add: at)
        moreover have "c + length ?suf - start = length (pr_prefix pr) + length e + length ?suf"
          using e(2) by simp
        ultimately show ?thesis using m e(2) by (auto simp: ac_simps)
      qed
    qed
  qed
qed

section \<open>Rendering\<close>

lemma literal_spec_Exact_seen:
  "literal_spec (Exact r) src seen xs = literal_spec (Exact r) src seen' xs"
proof (induction "length xs" arbitrary: xs seen seen' rule: less_induct)
  case less
  show ?case
  proof (cases xs)
    case (Cons x ys)
    have "literal_spec (Exact r) src (seen @ src) (drop (length src) xs)
        = literal_spec (Exact r) src (seen' @ src) (drop (length src) xs)" if "src \<noteq> []"
      using less [of "drop (length src) xs"] that Cons by simp
    moreover have "literal_spec (Exact r) src (seen @ [x]) ys = literal_spec (Exact r) src (seen' @ [x]) ys"
      using less [of ys] Cons by simp
    ultimately show ?thesis
      unfolding Cons literal_spec.simps by (auto simp: Cons)
  qed simp
qed

lemma render_parts_ok:
  assumes c: "c \<le> length t"
  shows "render_parts t e (map (\<lambda>j. c + j) (occ_list MARKER (drop c t))) c
    = Some (literal_spec (Exact e) MARKER [] (drop c t))"
  using c
proof (induction "length t - c" arbitrary: c rule: less_induct)
  case less
  have ne: "MARKER \<noteq> []" by (simp add: MARKER_def)
  show ?case
  proof (cases "first_occ MARKER (drop c t)")
    case None
    then show ?thesis
      using less.prems(1) ne by (simp add: occ_list.simps [of MARKER] literal_spec_none)
  next
    case (Some i)
    let ?c2 = "c + i + length MARKER"
    have b: "?c2 \<le> length t" using first_occ_bound [OF Some] less.prems(1) by simp
    have "length t - ?c2 < length t - c" using b ne by (auto simp flip: length_greater_0_conv)
    from less.hyps [OF this b]
    have IH: "render_parts t e (map (\<lambda>j. ?c2 + j) (occ_list MARKER (drop ?c2 t))) ?c2
      = Some (literal_spec (Exact e) MARKER [] (drop ?c2 t))" .
    have occ: "map (\<lambda>j. c + j) (occ_list MARKER (drop c t))
        = (c + i) # map (\<lambda>j. ?c2 + j) (occ_list MARKER (drop ?c2 t))"
      using Some ne by (simp add: occ_list.simps [of MARKER "drop c t"] ac_simps comp_def)
    have "literal_spec (Exact e) MARKER [] (drop c t)
        = take i (drop c t) @ e @ literal_spec (Exact e) MARKER [] (drop ?c2 t)"
      using literal_spec_first [OF ne Some, of "Exact e" "[]"]
        literal_spec_Exact_seen [of e MARKER _ "drop ?c2 t" "[]"]
      by (simp add: ac_simps)
    with occ IH b show ?thesis by simp
  qed
qed

lemma render_match_ok:
  assumes "memchr_ok M"
  shows "render_match M (pr_replacement pr) e (pr_suffix pr) = Some (replacement_spec pr e)"
proof (cases "pr_replacement pr")
  case (Replace_Prefix p)
  then show ?thesis by (simp add: render_match_def replacement_spec_def)
next
  case (Replace_Template t)
  have "mm_find_iter M MARKER t = occ_list MARKER t"
    using assms by (intro memchr_ok_find_iter) (simp_all add: MARKER_def)
  with render_parts_ok [of 0 t e] Replace_Template show ?thesis
    by (simp add: render_match_def replacement_spec_def render_identifier_template_def)
qed

section \<open>The loop\<close>

definition prev_after :: "byte option \<Rightarrow> bytes \<Rightarrow> byte option" where
  "prev_after prev z = (if z = [] then prev else last_byte z)"

lemma prev_after_append: "prev_after (prev_after prev y) z = prev_after prev (y @ z)"
  by (simp add: prev_after_def last_byte_def)

lemma pattern_spec_copy:
  "pattern_at pr (x # xs) = None \<or> after_identifier prev \<Longrightarrow>
     pattern_spec pr prev (x # xs) = x # pattern_spec pr (Some x) xs"
  by (auto simp: pattern_spec.simps)

lemma pattern_spec_match:
  "\<not> after_identifier prev \<Longrightarrow> pattern_at pr xs = Some (e, r) \<Longrightarrow>
     pattern_spec pr prev xs = replacement_spec pr e @ pattern_spec pr (last_byte (replacement_spec pr e)) r"
  by (cases xs) (auto simp: pattern_spec.simps dest: pattern_at_append)

lemma pattern_spec_skip:
  "(\<And>j. j < k \<Longrightarrow> \<not> occurs_at (pr_prefix pr) xs j) \<Longrightarrow> k \<le> length xs \<Longrightarrow>
     pattern_spec pr prev xs = take k xs @ pattern_spec pr (prev_after prev (take k xs)) (drop k xs)"
proof (induction k arbitrary: prev xs)
  case 0
  then show ?case by (simp add: prev_after_def)
next
  case (Suc k)
  then obtain x ys where xs: "xs = x # ys" by (cases xs) auto
  have no: "\<not> occurs_at (pr_prefix pr) ys j" if "j < k" for j
    using Suc.prems(1) [of "Suc j"] that xs by (simp add: occurs_at_Cons_Suc)
  have "pattern_at pr (x # ys) = None"
    using Suc.prems(1) [of 0] xs by (simp add: pattern_at_def)
  then have "pattern_spec pr prev xs = x # pattern_spec pr (Some x) ys"
    by (simp add: xs pattern_spec_copy)
  also have "\<dots> = x # take k ys @ pattern_spec pr (prev_after (Some x) (take k ys)) (drop k ys)"
    using Suc.IH [OF no] Suc.prems(2) xs by simp
  also have "prev_after (Some x) (take k ys) = prev_after prev (take (Suc k) xs)"
    by (simp add: xs prev_after_def last_byte_def)
  finally show ?case by (simp add: xs)
qed

definition pattern_advanced ::
  "pattern_rewriter \<Rightarrow> bool \<Rightarrow> byte option \<Rightarrow> nat \<Rightarrow> bytes \<Rightarrow> byte option \<Rightarrow> bytes \<Rightarrow> nat \<Rightarrow> bool" where
  "pattern_advanced pr eos prev c out prev' out' c' \<longleftrightarrow>
     c \<le> c' \<and> c' \<le> length (pr_pending pr)
     \<and> (\<exists>z. out' = out @ z
          \<and> (\<forall>q. (eos \<longrightarrow> q = []) \<longrightarrow>
               pattern_spec pr prev (drop c (pr_pending pr) @ q)
               = z @ pattern_spec pr prev' (drop c' (pr_pending pr) @ q)))"

lemma pattern_advanced_refl: "c \<le> length (pr_pending pr) \<Longrightarrow> pattern_advanced pr eos prev c out prev out c"
  by (simp add: pattern_advanced_def)

lemma pattern_advanced_trans:
  "pattern_advanced pr eos p0 c0 o0 p1 o1 c1 \<Longrightarrow> pattern_advanced pr eos p1 c1 o1 p2 o2 c2 \<Longrightarrow>
     pattern_advanced pr eos p0 c0 o0 p2 o2 c2"
  by (auto simp: pattern_advanced_def)

lemma pattern_advanced_skip:
  assumes "\<And>j q. j < k \<Longrightarrow> eos \<longrightarrow> q = [] \<Longrightarrow> \<not> occurs_at (pr_prefix pr) (drop c (pr_pending pr) @ q) j"
    and "c + k \<le> length (pr_pending pr)"
  shows "pattern_advanced pr eos prev c out (prev_after prev (take k (drop c (pr_pending pr))))
    (out @ take k (drop c (pr_pending pr))) (c + k)"
proof -
  let ?xs = "drop c (pr_pending pr)"
  have "pattern_spec pr prev (?xs @ q) =
      take k ?xs @ pattern_spec pr (prev_after prev (take k ?xs)) (drop (c + k) (pr_pending pr) @ q)"
    if "eos \<longrightarrow> q = []" for q
    using pattern_spec_skip [of k pr "?xs @ q" prev] assms(1) [OF _ that] assms(2)
    by (simp add: add.commute)
  with assms(2) show ?thesis by (auto simp: pattern_advanced_def)
qed

lemma pattern_advanced_copy:
  assumes c: "c < length (pr_pending pr)"
    and no: "\<And>q. eos \<longrightarrow> q = [] \<Longrightarrow>
      pattern_at pr (drop c (pr_pending pr) @ q) = None \<or> after_identifier prev"
  shows "pattern_advanced pr eos prev c out (Some (pr_pending pr ! c)) (out @ [pr_pending pr ! c]) (c + 1)"
proof -
  have "pattern_spec pr prev (drop c (pr_pending pr) @ q)
      = pr_pending pr ! c # pattern_spec pr (Some (pr_pending pr ! c)) (drop (Suc c) (pr_pending pr) @ q)"
    if "eos \<longrightarrow> q = []" for q
    using no [OF that] unfolding drop_eq_Cons [OF c] by (simp add: pattern_spec_copy)
  with c show ?thesis by (auto simp: pattern_advanced_def)
qed

text \<open>The byte before only matters as far as it is an identifier byte.\<close>

lemma pattern_spec_prev: "after_identifier a = after_identifier b \<Longrightarrow> pattern_spec pr a xs = pattern_spec pr b xs"
  by (cases xs) (simp_all add: pattern_spec.simps)

lemma pattern_advanced_match:
  assumes "c + n \<le> length (pr_pending pr)" "\<not> after_identifier prev"
    and at: "\<And>q. pattern_at pr (drop c (pr_pending pr) @ q) = Some (e, drop (c + n) (pr_pending pr) @ q)"
    and prev: "after_identifier prev' = after_identifier (last_byte (replacement_spec pr e))"
  shows "pattern_advanced pr eos prev c out prev' (out @ replacement_spec pr e) (c + n)"
  using assms(1) pattern_spec_match [OF assms(2) at] pattern_spec_prev [OF prev]
  by (auto simp: pattern_advanced_def)

lemma pattern_loop_ok:
  assumes M: "memchr_ok M" and wf: "pattern_wf pr"
  shows "c \<le> length (pr_pending pr) \<Longrightarrow> out \<noteq> [] \<longrightarrow> prev = last_byte out \<Longrightarrow>
    \<exists>out' c' prev'. pattern_loop M pr eos out c prev = Some (out', c', prev')
      \<and> pattern_advanced pr eos prev c out prev' out' c' \<and> (eos \<longrightarrow> c' = length (pr_pending pr))"
proof (induction "length (pr_pending pr) - c" arbitrary: c out prev rule: less_induct)
  case less
  let ?p = "pr_pending pr" and ?pre = "pr_prefix pr" and ?suf = "pr_suffix pr"
  let ?xs = "drop c ?p"
  have ne: "?pre \<noteq> []" "?suf \<noteq> []" using wf by (simp_all add: pattern_wf_def)
  note unfold = pattern_loop.simps [of M pr eos out c prev]
  have rec: "\<exists>out' c' prev'. pattern_loop M pr eos out c prev = Some (out', c', prev')
      \<and> pattern_advanced pr eos prev c out prev' out' c' \<and> (eos \<longrightarrow> c' = length ?p)"
    if "c < c1" "c1 \<le> length ?p" "pattern_advanced pr eos prev c out prev1 out1 c1"
      "pattern_loop M pr eos out c prev = pattern_loop M pr eos out1 c1 prev1"
      "out1 \<noteq> [] \<longrightarrow> prev1 = last_byte out1" for c1 prev1 out1
  proof -
    have "length ?p - c1 < length ?p - c" using that(1,2) by simp
    from less.hyps [OF this that(2,5)] pattern_advanced_trans [OF that(3)] that(4) show ?thesis by metis
  qed
  show ?case
  proof (cases "first_occ ?pre ?xs")
    case None
    let ?k = "if eos then length ?p - c else length ?p - c - (length ?pre - 1)"
    let ?z = "take ?k ?xs"
    have k: "c + ?k \<le> length ?p" using less.prems(1) by auto
    have "pattern_loop M pr eos out c prev = Some (out @ ?z, c + ?k, prev_after prev ?z)"
      using less.prems(1) None by (auto simp: unfold memchr_ok_find [OF M] Let_def prev_after_def)
    moreover have "\<not> occurs_at ?pre (?xs @ q) j" if "j < ?k" "eos \<longrightarrow> q = []" for j and q :: bytes
    proof -
      from None have nn: "\<not> occurs_at ?pre ?xs j" by (simp add: first_occ_None_iff)
      show ?thesis
      proof (cases eos)
        case False
        with that(1) ne have "j + length ?pre \<le> length ?xs" by auto
        with nn show ?thesis by (simp add: occurs_at_append_iff)
      qed (use that nn in simp)
    qed
    then have "pattern_advanced pr eos prev c out (prev_after prev ?z) (out @ ?z) (c + ?k)"
      by (rule pattern_advanced_skip [OF _ k])
    ultimately show ?thesis using less.prems(1) by auto
  next
    case (Some i)
    have b: "c + i + length ?pre \<le> length ?p" using first_occ_bound [OF Some] less.prems(1) by simp
    show ?thesis
    proof (cases "0 < i")
      case True
      let ?z = "take i ?xs"
      have "?z \<noteq> []" using True b ne by auto
      then have step: "pattern_loop M pr eos out c prev
          = pattern_loop M pr eos (out @ ?z) (c + i) (prev_after prev ?z)"
        using less.prems(1) Some True b by (simp add: unfold memchr_ok_find [OF M] Let_def prev_after_def)
      have no: "\<not> occurs_at ?pre (?xs @ q) j" if "j < i" for j q
        using first_occ_append [OF Some, of q] that by (simp add: first_occ_Some_iff)
      have "pattern_advanced pr eos prev c out (prev_after prev ?z) (out @ ?z) (c + i)"
        by (rule pattern_advanced_skip) (use no b in simp_all)
      then show ?thesis
        by (rule rec [rotated 2, OF _ step]) (use True b \<open>?z \<noteq> []\<close> in \<open>simp_all add: prev_after_def last_byte_def\<close>)
    next
      case False
      then have i: "i = 0" by simp
      with Some have pre: "prefix ?pre ?xs" by (simp add: first_occ_Some_iff)
      have c: "c < length ?p" using b ne i by (auto simp flip: length_greater_0_conv)
      note cand = match_candidate_ok [OF ne(2) pre, of eos]
      show ?thesis
      proof (cases "after_identifier prev \<or> match_candidate pr c eos = NoMatch")
        case True
        then have "pattern_loop M pr eos out c prev
            = pattern_loop M pr eos (out @ [?p ! c]) (c + 1) (Some (?p ! c))"
          using less.prems(1) Some i c
          by (auto simp: unfold memchr_ok_find [OF M] Let_def after_identifier_def)
        moreover have "pattern_advanced pr eos prev c out (Some (?p ! c)) (out @ [?p ! c]) (c + 1)"
        proof (rule pattern_advanced_copy [OF c])
          fix q :: bytes
          assume "eos \<longrightarrow> q = []"
          with True cand show "pattern_at pr (?xs @ q) = None \<or> after_identifier prev"
            by (cases "after_identifier prev") auto
        qed
        ultimately show ?thesis using c by (intro rec [of "c + 1" "Some (?p ! c)" "out @ [?p ! c]"]) (simp_all add: last_byte_def)
      next
        case False
        show ?thesis
        proof (cases "match_candidate pr c eos")
          case NeedMore
          then have "pattern_loop M pr eos out c prev = Some (out, c, prev)"
            using False less.prems(1) Some i
            by (simp add: unfold memchr_ok_find [OF M] Let_def after_identifier_def)
          moreover have "\<not> eos" using cand NeedMore by simp
          ultimately show ?thesis using pattern_advanced_refl [OF less.prems(1)] by auto
        next
          case (Match n)
          with cand obtain e where n: "n = length ?pre + length e + length ?suf"
            and at: "\<And>q. pattern_at pr (?xs @ q) = Some (e, drop (c + n) ?p @ q)"
            by auto
          have cn: "c + n \<le> length ?p" and "0 < n"
            using match_candidate_bounds [OF Match] by auto
          from pattern_at_append [OF at [of "[]"]]
          have xs: "?xs = ?pre @ e @ ?suf @ drop (c + n) ?p" and "e \<noteq> []" by simp_all
          have expr: "take (length e) (drop (c + length ?pre) ?p) = e"
            and msuf: "take (length ?suf) (drop (c + (length ?pre + length e)) ?p) = ?suf"
            using arg_cong [OF xs, of "drop (length ?pre)"] arg_cong [OF xs, of "drop (length ?pre + length e)"]
            by (simp_all add: add.commute add.left_commute)
          let ?y = "replacement_spec pr e"
          have "after_identifier (last_byte (out @ ?y)) = after_identifier (last_byte ?y)"
          proof (cases "?y = []")
            case True
            then have "after_identifier (last_byte (out @ ?y)) = (out \<noteq> [] \<and> after_identifier prev)"
              using less.prems(2) by (auto simp: last_byte_def after_identifier_def)
            with True False show ?thesis by (simp add: last_byte_def after_identifier_def)
          qed (simp add: last_byte_def)
          then have "pattern_advanced pr eos prev c out (last_byte (out @ ?y)) (out @ ?y) (c + n)"
            using False by (intro pattern_advanced_match [OF cn _ at]) simp_all
          moreover have "c + n - length ?suf = c + length ?pre + length e" using n by simp
          then have "pattern_loop M pr eos out c prev
              = pattern_loop M pr eos (out @ ?y) (c + n) (last_byte (out @ ?y))"
            using False less.prems(1) Some i Match expr msuf n
            by (simp add: unfold memchr_ok_find [OF M] Let_def after_identifier_def render_match_ok [OF M])
          ultimately show ?thesis using \<open>0 < n\<close> cn by (intro rec [of "c + n" "last_byte (out @ ?y)" "out @ ?y"]) simp_all
        qed (use False in simp)
      qed
    qed
  qed
qed

section \<open>The rewriter is a stage\<close>

definition pattern_tracks ::
  "memchr_lib \<Rightarrow> pattern_rewriter \<Rightarrow> pattern_rewriter \<Rightarrow> bytes \<Rightarrow> bytes \<Rightarrow> bool" where
  "pattern_tracks M s0 s inp out \<longleftrightarrow>
     memchr_ok M \<and> pattern_wf s0
     \<and> (\<exists>p prev. s = s0\<lparr>pr_pending := p, pr_previous_byte := prev, pr_finished := False\<rparr>
          \<and> (\<forall>q. pattern_spec s0 None (inp @ q) = out @ pattern_spec s0 prev (p @ q)))"

definition pattern_fresh :: "pattern_rewriter \<Rightarrow> bool" where
  [wf_simps]: "pattern_fresh s \<longleftrightarrow>
     pattern_wf s \<and> pr_pending s = [] \<and> pr_previous_byte s = None \<and> \<not> pr_finished s"

definition pattern_complete :: "pattern_rewriter \<Rightarrow> bytes \<Rightarrow> bool" where
  "pattern_complete s0 x \<longleftrightarrow> True"

definition pattern_transform :: "pattern_rewriter \<Rightarrow> bytes \<Rightarrow> bytes" where
  "pattern_transform s0 x = pattern_spec s0 None x"

text \<open>The reference does not depend on the fields that change.\<close>

lemma pattern_at_cong:
  "pattern_at (s\<lparr>pr_pending := p, pr_previous_byte := b, pr_finished := f\<rparr>) xs = pattern_at s xs"
  by (simp add: pattern_at_def split: option.split)

lemma replacement_spec_cong:
  "replacement_spec (s\<lparr>pr_pending := p, pr_previous_byte := b, pr_finished := f\<rparr>) e = replacement_spec s e"
  by (simp add: replacement_spec_def split: expression_replacement.split)

lemma pattern_spec_cong:
  "pattern_spec (s\<lparr>pr_pending := p, pr_previous_byte := b, pr_finished := f\<rparr>) prev xs = pattern_spec s prev xs"
proof (induction "length xs" arbitrary: xs prev rule: less_induct)
  case less
  show ?case
  proof (cases xs)
    case (Cons x ys)
    show ?thesis
    proof (cases "pattern_at s (x # ys)")
      case None
      with less [of ys] Cons show ?thesis by (simp add: pattern_spec.simps pattern_at_cong)
    next
      case (Some er)
      obtain e r where er: "er = (e, r)" by force
      with Some have xs: "xs = pr_prefix s @ e @ pr_suffix s @ r" "e \<noteq> []"
        using pattern_at_append [of s xs e r] by (simp_all add: Cons)
      then have "length r < length xs" by simp
      with less [of r] less [of ys] Some er Cons show ?thesis
        by (simp add: pattern_spec.simps pattern_at_cong replacement_spec_cong)
    qed
  qed simp
qed

lemma pattern_fresh_tracks: "memchr_ok M \<Longrightarrow> pattern_fresh s \<Longrightarrow> pattern_tracks M s s [] []"
  by (auto simp: pattern_fresh_def pattern_tracks_def intro!: exI [of _ "[]"] exI [of _ None])

lemma pattern_process_ok:
  assumes "memchr_ok M" "pattern_wf pr"
  obtains y c' prev' where
    "pattern_process_available M pr eos =
       (Ok y, pr\<lparr>pr_previous_byte := prev', pr_pending := drop c' (pr_pending pr)\<rparr>)"
    "pattern_advanced pr eos (pr_previous_byte pr) 0 [] prev' y c'" "eos \<longrightarrow> c' = length (pr_pending pr)"
proof -
  from pattern_loop_ok [OF assms, where c = 0 and eos = eos and out = "[]" and prev = "pr_previous_byte pr"] obtain y c' prev'
    where "pattern_loop M pr eos [] 0 (pr_previous_byte pr) = Some (y, c', prev')"
      "pattern_advanced pr eos (pr_previous_byte pr) 0 [] prev' y c'" "eos \<longrightarrow> c' = length (pr_pending pr)"
    by auto
  then show ?thesis
    by (intro that [where y = y and c' = c' and prev' = prev'])
      (simp_all add: pattern_process_available_def)
qed

lemma pattern_push_law:
  assumes t: "pattern_tracks M s0 s inp out"
  shows "\<exists>y s'. pattern_push M s x = (Ok y, s') \<and> pattern_tracks M s0 s' (inp @ x) (out @ y)"
proof -
  from t obtain p prev where M: "memchr_ok M" and wf: "pattern_wf s0"
    and s: "s = s0\<lparr>pr_pending := p, pr_previous_byte := prev, pr_finished := False\<rparr>"
    and spec: "\<And>q. pattern_spec s0 None (inp @ q) = out @ pattern_spec s0 prev (p @ q)"
    by (auto simp: pattern_tracks_def)
  let ?s1 = "s0\<lparr>pr_pending := p @ x, pr_previous_byte := prev, pr_finished := False\<rparr>"
  have wf1: "pattern_wf ?s1" using wf by (simp add: pattern_wf_def)
  obtain y c' prev' where proc: "pattern_process_available M ?s1 False =
       (Ok y, ?s1\<lparr>pr_previous_byte := prev', pr_pending := drop c' (pr_pending ?s1)\<rparr>)"
    and adv: "pattern_advanced ?s1 False (pr_previous_byte ?s1) 0 [] prev' y c'"
    by (rule pattern_process_ok [OF M wf1, of False])
  have "s\<lparr>pr_pending := pr_pending s @ x\<rparr> = ?s1" by (cases s0) (simp add: s)
  then have push: "pattern_push M s x = pattern_process_available M ?s1 False"
    by (simp add: pattern_push_def) (simp add: s)
  have "pattern_spec s0 None ((inp @ x) @ q) = (out @ y) @ pattern_spec s0 prev' (drop c' (p @ x) @ q)" for q
    using adv spec [of "x @ q"] by (simp add: pattern_advanced_def pattern_spec_cong)
  then have "pattern_tracks M s0 (?s1\<lparr>pr_previous_byte := prev', pr_pending := drop c' (pr_pending ?s1)\<rparr>) (inp @ x) (out @ y)"
    unfolding pattern_tracks_def using M wf
    by (intro conjI exI [of _ "drop c' (p @ x)"] exI [of _ prev']) simp_all
  with push proc show ?thesis by simp
qed

lemma pattern_finish_law:
  assumes t: "pattern_tracks M s0 s inp out"
  shows "\<exists>y s'. pattern_finish M s = (Ok y, s') \<and> out @ y = pattern_transform s0 inp"
proof -
  from t obtain p prev where M: "memchr_ok M" and wf: "pattern_wf s0"
    and s: "s = s0\<lparr>pr_pending := p, pr_previous_byte := prev, pr_finished := False\<rparr>"
    and spec: "\<And>q. pattern_spec s0 None (inp @ q) = out @ pattern_spec s0 prev (p @ q)"
    by (auto simp: pattern_tracks_def)
  let ?s1 = "s0\<lparr>pr_pending := p, pr_previous_byte := prev, pr_finished := True\<rparr>"
  have wf1: "pattern_wf ?s1" using wf by (simp add: pattern_wf_def)
  obtain y c' prev' where proc: "pattern_process_available M ?s1 True =
       (Ok y, ?s1\<lparr>pr_previous_byte := prev', pr_pending := drop c' (pr_pending ?s1)\<rparr>)"
    and adv: "pattern_advanced ?s1 True (pr_previous_byte ?s1) 0 [] prev' y c'"
    and c': "c' = length (pr_pending ?s1)"
    by (rule pattern_process_ok [OF M wf1, of True]) simp
  have "pattern_spec s0 prev p = y"
    using adv c' by (simp add: pattern_advanced_def pattern_spec_cong)
  then have "out @ y = pattern_transform s0 inp"
    using spec [of "[]"] by (simp add: pattern_transform_def)
  with proc show ?thesis by (simp add: pattern_finish_def s)
qed

interpretation pattern_stage:
  stream_stage "pattern_push M" "pattern_finish M" "pattern_tracks M" pattern_complete pattern_transform
  for M
  by unfold_locales
    (use pattern_push_law pattern_finish_law in \<open>auto simp: pattern_complete_def\<close>)

end
