(* ===== verification/Pipeline_Correct.thy ===== *)
theory Pipeline_Correct
  imports Pipeline Literal_Correct Pattern_Correct
begin

text \<open>
  The pipeline implements the contract of theory \<open>Stages\<close>. The three kinds of rewriters are
  stages, hence so is the enum that dispatches to them, a chain of them, and the pipeline with
  its limit; what a pipeline does to a response body is the composition of the reference
  transformations, whatever the chunks in which the body arrives.
\<close>

section \<open>The buffered rewriter\<close>

definition buffered_tracks :: "buffered_rewriter \<Rightarrow> buffered_rewriter \<Rightarrow> bytes \<Rightarrow> bytes \<Rightarrow> bool" where
  "buffered_tracks s0 s inp out \<longleftrightarrow>
     (\<forall>x. br_transform s0 x \<noteq> None) \<and> br_transform s = br_transform s0 \<and> \<not> br_finished s
     \<and> br_pending s = inp \<and> out = []"

definition buffered_transform :: "buffered_rewriter \<Rightarrow> bytes \<Rightarrow> bytes" where
  "buffered_transform s0 x = the (br_transform s0 x)"

definition buffered_complete :: "buffered_rewriter \<Rightarrow> bytes \<Rightarrow> bool" where
  "buffered_complete s0 x \<longleftrightarrow> True"

interpretation buffered_stage:
  stream_stage buffered_push buffered_finish buffered_tracks buffered_complete buffered_transform
proof unfold_locales
  fix s0 s inp out
  assume "buffered_tracks s0 s inp out" and "buffered_complete s0 inp"
  moreover from this obtain y where "br_transform s0 inp = Some y"
    by (auto simp: buffered_tracks_def)
  ultimately show "\<exists>y s'. buffered_finish s = (Ok y, s') \<and> out @ y = buffered_transform s0 inp"
    by (simp add: buffered_finish_def buffered_tracks_def buffered_transform_def Let_def)
qed (simp_all add: buffered_push_def buffered_tracks_def buffered_complete_def)

section \<open>The dispatch\<close>

fun rewriter_tracks ::
  "memchr_lib \<Rightarrow> streaming_rewriter \<Rightarrow> streaming_rewriter \<Rightarrow> bytes \<Rightarrow> bytes \<Rightarrow> bool" where
  "rewriter_tracks M (Buffered s0) (Buffered s) inp out \<longleftrightarrow> buffered_tracks s0 s inp out"
| "rewriter_tracks M (Literal s0) (Literal s) inp out \<longleftrightarrow> literal_tracks M s0 s inp out"
| "rewriter_tracks M (ExpressionPattern s0) (ExpressionPattern s) inp out \<longleftrightarrow> pattern_tracks M s0 s inp out"
| "rewriter_tracks M _ _ inp out \<longleftrightarrow> False"

fun rewriter_complete :: "streaming_rewriter \<Rightarrow> bytes \<Rightarrow> bool" where
  "rewriter_complete (Buffered s) x = buffered_complete s x"
| "rewriter_complete (Literal s) x = literal_complete s x"
| "rewriter_complete (ExpressionPattern s) x = pattern_complete s x"

fun rewriter_transform :: "streaming_rewriter \<Rightarrow> bytes \<Rightarrow> bytes" where
  "rewriter_transform (Buffered s) x = buffered_transform s x"
| "rewriter_transform (Literal s) x = literal_transform s x"
| "rewriter_transform (ExpressionPattern s) x = pattern_transform s x"

fun rewriter_fresh :: "streaming_rewriter \<Rightarrow> bool" where
  "rewriter_fresh (Buffered s) \<longleftrightarrow> (\<forall>x. br_transform s x \<noteq> None) \<and> br_pending s = [] \<and> \<not> br_finished s"
| "rewriter_fresh (Literal s) \<longleftrightarrow> literal_fresh s"
| "rewriter_fresh (ExpressionPattern s) \<longleftrightarrow> pattern_fresh s"

lemma rewriter_fresh_tracks:
  "memchr_ok M \<Longrightarrow> rewriter_fresh r \<Longrightarrow> rewriter_tracks M r r [] []"
  by (cases r)
    (simp_all add: buffered_tracks_def literal_fresh_tracks pattern_fresh_tracks)

lemma rewriter_tracks_cases:
  assumes "rewriter_tracks M r0 r inp out"
  obtains (Buf) s0 s where "r0 = Buffered s0" "r = Buffered s" "buffered_tracks s0 s inp out"
    | (Lit) s0 s where "r0 = Literal s0" "r = Literal s" "literal_tracks M s0 s inp out"
    | (Pat) s0 s where "r0 = ExpressionPattern s0" "r = ExpressionPattern s" "pattern_tracks M s0 s inp out"
  using assms by (cases r0; cases r) auto

interpretation rewriter_stage:
  stream_stage "rewriter_push M" "rewriter_finish M" "rewriter_tracks M" rewriter_complete rewriter_transform
  for M
proof unfold_locales
  fix r0 r inp out x
  assume "rewriter_tracks M r0 r inp out"
  then show "(\<exists>y r'. rewriter_push M r x = (Ok y, r') \<and> rewriter_tracks M r0 r' (inp @ x) (out @ y))
    \<or> (\<exists>e r'. rewriter_push M r x = (Err e, r') \<and> (\<forall>q. \<not> rewriter_complete r0 (inp @ x @ q)))"
  proof (cases rule: rewriter_tracks_cases)
    case (Buf s0 s)
    from buffered_stage.push_law [OF Buf(3), of x] show ?thesis by (auto simp: Buf(1,2))
  next
    case (Lit s0 s)
    from literal_stage.push_law [OF Lit(3), of x] show ?thesis by (auto simp: Lit(1,2))
  next
    case (Pat s0 s)
    from pattern_stage.push_law [OF Pat(3), of x] show ?thesis by (auto simp: Pat(1,2))
  qed
next
  fix r0 r inp out
  assume t: "rewriter_tracks M r0 r inp out" and c: "rewriter_complete r0 inp"
  from t show "\<exists>y r'. rewriter_finish M r = (Ok y, r') \<and> out @ y = rewriter_transform r0 inp"
  proof (cases rule: rewriter_tracks_cases)
    case (Buf s0 s)
    with buffered_stage.finish_complete [OF Buf(3)] c show ?thesis by auto
  next
    case (Lit s0 s)
    with literal_stage.finish_complete [OF Lit(3)] c show ?thesis by auto
  next
    case (Pat s0 s)
    with pattern_stage.finish_complete [OF Pat(3)] c show ?thesis by auto
  qed
next
  fix r0 r inp out
  assume t: "rewriter_tracks M r0 r inp out" and c: "\<not> rewriter_complete r0 inp"
  from t show "\<exists>e r'. rewriter_finish M r = (Err e, r')"
  proof (cases rule: rewriter_tracks_cases)
    case (Buf s0 s)
    with buffered_stage.finish_incomplete [OF Buf(3)] c show ?thesis by auto
  next
    case (Lit s0 s)
    with literal_stage.finish_incomplete [OF Lit(3)] c show ?thesis by auto
  next
    case (Pat s0 s)
    with pattern_stage.finish_incomplete [OF Pat(3)] c show ?thesis by auto
  qed
qed

text \<open>A chain of rewriters: the closure of the contract under composition.\<close>

interpretation rewriter_chain:
  stream_stage "chain_push (rewriter_push M)" "chain_end (rewriter_push M) (rewriter_finish M)"
    "chain_session (rewriter_tracks M)" "chain_complete rewriter_complete rewriter_transform"
    "chain_transform rewriter_transform"
  for M
  by (rule rewriter_stage.chain_is_stage)

section \<open>The pipeline\<close>

definition pipeline_fresh :: "pipeline \<Rightarrow> bool" where
  [wf_simps]: "pipeline_fresh p \<longleftrightarrow>
     pl_rewriters p \<noteq> [] \<and> (\<forall>r \<in> set (pl_rewriters p). rewriter_fresh r)
     \<and> pl_total_bytes p = 0 \<and> \<not> pl_finished p"

definition pipeline_tracks :: "memchr_lib \<Rightarrow> pipeline \<Rightarrow> pipeline \<Rightarrow> bytes \<Rightarrow> bytes \<Rightarrow> bool" where
  "pipeline_tracks M p0 p inp out \<longleftrightarrow>
     chain_session (rewriter_tracks M) (pl_rewriters p0) (pl_rewriters p) inp out
     \<and> pl_max_bytes p = pl_max_bytes p0 \<and> pl_total_bytes p = length inp
     \<and> length inp \<le> pl_max_bytes p0 \<and> length inp \<le> usize_max \<and> \<not> pl_finished p"

definition pipeline_complete :: "pipeline \<Rightarrow> bytes \<Rightarrow> bool" where
  "pipeline_complete p0 x \<longleftrightarrow>
     length x \<le> pl_max_bytes p0 \<and> length x \<le> usize_max
     \<and> chain_complete rewriter_complete rewriter_transform (pl_rewriters p0) x"

definition pipeline_transform :: "pipeline \<Rightarrow> bytes \<Rightarrow> bytes" where
  "pipeline_transform p0 x = chain_transform rewriter_transform (pl_rewriters p0) x"

lemma chain_fresh_tracks:
  "memchr_ok M \<Longrightarrow> (\<forall>r \<in> set rs. rewriter_fresh r) \<Longrightarrow> chain_tracks (rewriter_tracks M) rs rs [] []"
proof (induction rs)
  case (Cons r rs)
  then have "rewriter_tracks M r r [] []" by (simp add: rewriter_fresh_tracks)
  with Cons show ?case by auto
qed simp

lemma pipeline_fresh_tracks: "memchr_ok M \<Longrightarrow> pipeline_fresh p \<Longrightarrow> pipeline_tracks M p p [] []"
  by (simp add: pipeline_fresh_def pipeline_tracks_def chain_session_def chain_fresh_tracks)

lemma chain_session_nonempty: "chain_session R ss0 ss inp out \<Longrightarrow> ss \<noteq> []"
  by (cases ss0; cases ss) (auto simp: chain_session_def)

interpretation pipeline_stage:
  stream_stage "pipeline_push M" "pipeline_finish M" "pipeline_tracks M" pipeline_complete pipeline_transform
  for M
proof unfold_locales
  fix p0 p inp out x
  assume t: "pipeline_tracks M p0 p inp out"
  then have s: "chain_session (rewriter_tracks M) (pl_rewriters p0) (pl_rewriters p) inp out"
    by (simp add: pipeline_tracks_def)
  show "(\<exists>y p'. pipeline_push M p x = (Ok y, p') \<and> pipeline_tracks M p0 p' (inp @ x) (out @ y))
    \<or> (\<exists>e p'. pipeline_push M p x = (Err e, p') \<and> (\<forall>q. \<not> pipeline_complete p0 (inp @ x @ q)))"
  proof (cases "length inp + length x \<le> usize_max \<and> length inp + length x \<le> pl_max_bytes p")
    case False
    then have "\<exists>p'. pipeline_push M p x = (Err (TooLarge (pl_max_bytes p)), p')"
      using t by (auto simp: pipeline_push_def pipeline_tracks_def checked_add_def)
    moreover have "\<not> pipeline_complete p0 (inp @ x @ q)" for q
      using False t by (auto simp: pipeline_complete_def pipeline_tracks_def)
    ultimately show ?thesis by blast
  next
    case True
    with t chain_session_nonempty [OF s]
    have push: "pipeline_push M p x =
        (case chain_push (rewriter_push M) (pl_rewriters p) x of
           (r, rs) \<Rightarrow> (r, p\<lparr>pl_total_bytes := length inp + length x, pl_rewriters := rs\<rparr>))"
      by (simp add: pipeline_push_def pipeline_tracks_def checked_add_def Let_def)
    from rewriter_chain.push_law [OF s, of x] show ?thesis
    proof (elim disjE exE conjE)
      fix y rs
      assume "chain_push (rewriter_push M) (pl_rewriters p) x = (Ok y, rs)"
        and "chain_session (rewriter_tracks M) (pl_rewriters p0) rs (inp @ x) (out @ y)"
      with push t True show ?thesis by (simp add: pipeline_tracks_def)
    next
      fix e rs
      assume "chain_push (rewriter_push M) (pl_rewriters p) x = (Err e, rs)"
        and "\<forall>q. \<not> chain_complete rewriter_complete rewriter_transform (pl_rewriters p0) (inp @ x @ q)"
      with push show ?thesis by (simp add: pipeline_complete_def)
    qed
  qed
next
  fix p0 p inp out
  assume t: "pipeline_tracks M p0 p inp out" and c: "pipeline_complete p0 inp"
  then have s: "chain_session (rewriter_tracks M) (pl_rewriters p0) (pl_rewriters p) inp out"
    by (simp add: pipeline_tracks_def)
  from rewriter_chain.finish_complete [OF s] c t chain_session_nonempty [OF s]
  show "\<exists>y p'. pipeline_finish M p = (Ok y, p') \<and> out @ y = pipeline_transform p0 inp"
    by (auto simp: pipeline_finish_def pipeline_tracks_def pipeline_complete_def pipeline_transform_def)
next
  fix p0 p inp out
  assume t: "pipeline_tracks M p0 p inp out" and c: "\<not> pipeline_complete p0 inp"
  then have s: "chain_session (rewriter_tracks M) (pl_rewriters p0) (pl_rewriters p) inp out"
    by (simp add: pipeline_tracks_def)
  from rewriter_chain.finish_incomplete [OF s] c t chain_session_nonempty [OF s]
  show "\<exists>e p'. pipeline_finish M p = (Err e, p')"
    by (auto simp: pipeline_finish_def pipeline_tracks_def pipeline_complete_def)
qed

section \<open>What the constructors return\<close>

lemma collect_outcomes_Ok:
  "collect_outcomes rs = Ok as \<Longrightarrow> rs = map Ok as"
  by (induction rs arbitrary: as) (auto split: outcome.splits)

lemma collect_outcomes_all:
  assumes "collect_outcomes (map f xs) = Ok as" and "a \<in> set as" and "\<And>x. x \<in> set xs \<Longrightarrow> f x = Ok a \<Longrightarrow> P a"
  shows "P a"
proof -
  from collect_outcomes_Ok [OF assms(1)] have "set (map f xs) = set (map Ok as)" by simp
  with assms(2) have "Ok a \<in> f ` set xs" by auto
  then obtain x where "x \<in> set xs" "f x = Ok a" by auto
  then show ?thesis by (rule assms(3))
qed

lemma literal_from_mode_fresh: "literal_from_mode src m mx = Ok r \<Longrightarrow> literal_fresh r"
  by (auto simp: literal_from_mode_def literal_fresh_def split: if_splits)

lemma literal_new_fresh: "literal_new src rep mx = Ok r \<Longrightarrow> literal_fresh r"
  by (auto simp: literal_new_def literal_from_mode_fresh split: option.splits)

lemma literal_new_exact_fresh: "literal_new_exact src rep mx = Ok r \<Longrightarrow> literal_fresh r"
  by (simp add: literal_new_exact_def literal_from_mode_fresh)

lemma literal_new_with_appended_suffix_fresh:
  "literal_new_with_appended_suffix src suf mx = Ok r \<Longrightarrow> literal_fresh r"
  by (simp add: literal_new_with_appended_suffix_def literal_from_mode_fresh)

lemma pattern_new_fresh: "pattern_new pre suf rep = Ok r \<Longrightarrow> pattern_fresh r"
  by (auto simp: pattern_new_def pattern_fresh_def pattern_wf_def split: if_splits)

lemma pattern_new_template_fresh:
  "pattern_new_template pre suf t = Ok r \<Longrightarrow> pattern_fresh r"
  by (auto simp: pattern_new_template_def pattern_fresh_def pattern_wf_def split: if_splits)

lemma pattern_new_member_expression_fresh:
  "pattern_new_member_expression pre suf rep = Ok r \<Longrightarrow> pattern_fresh r"
  by (auto simp: pattern_new_member_expression_def bind_outcome_Ok_iff pattern_new_def
      pattern_fresh_def pattern_wf_def split: if_splits)

lemmas constructed_fresh =
  literal_new_fresh literal_new_exact_fresh literal_new_with_appended_suffix_fresh
  pattern_new_fresh pattern_new_template_fresh pattern_new_member_expression_fresh

lemma pipeline_from_rewriters_fresh:
  "pipeline_from_rewriters rs mx = Ok p \<Longrightarrow> \<forall>r\<in>set rs. rewriter_fresh r \<Longrightarrow>
     pipeline_fresh p \<and> pl_rewriters p = rs \<and> pl_max_bytes p = mx"
  by (auto simp: pipeline_from_rewriters_def pipeline_fresh_def split: if_splits)

text \<open>Each rule list becomes fresh rewriters.\<close>

lemma wrapped_fresh:
  "bind_outcome r (\<lambda>a. Ok (Literal a)) = Ok w \<Longrightarrow> (\<And>a. r = Ok a \<Longrightarrow> literal_fresh a) \<Longrightarrow> rewriter_fresh w"
  "bind_outcome q (\<lambda>b. Ok (ExpressionPattern b)) = Ok w \<Longrightarrow> (\<And>b. q = Ok b \<Longrightarrow> pattern_fresh b) \<Longrightarrow> rewriter_fresh w"
  by (auto simp: bind_outcome_Ok_iff)

lemma prefix_literal_rewriters_fresh:
  assumes "prefix_literal_rewriters rules = Ok rs" "r \<in> set rs"
  shows "rewriter_fresh r"
  using collect_outcomes_all [OF assms [unfolded prefix_literal_rewriters_def]]
  by (auto simp: split_def intro: wrapped_fresh literal_new_fresh)

lemma exact_literal_rewriters_fresh:
  assumes "exact_literal_rewriters rules = Ok rs" "r \<in> set rs"
  shows "rewriter_fresh r"
  using collect_outcomes_all [OF assms [unfolded exact_literal_rewriters_def]]
  by (auto simp: split_def intro: wrapped_fresh literal_new_exact_fresh)

lemma member_rewriters_fresh:
  assumes "collect_outcomes (map (\<lambda>(pre, suf, rep).
      bind_outcome (pattern_new_member_expression pre suf rep) (\<lambda>r. Ok (ExpressionPattern r))) rules) = Ok rs"
    and "r \<in> set rs"
  shows "rewriter_fresh r"
  using collect_outcomes_all [OF assms]
  by (auto simp: split_def intro: wrapped_fresh pattern_new_member_expression_fresh)

lemma template_rewriters_fresh:
  assumes "collect_outcomes (map (\<lambda>(pre, suf, t).
      bind_outcome (pattern_new_template pre suf t) (\<lambda>r. Ok (ExpressionPattern r))) rules) = Ok rs"
    and "r \<in> set rs"
  shows "rewriter_fresh r"
  using collect_outcomes_all [OF assms]
  by (auto simp: split_def intro: wrapped_fresh pattern_new_template_fresh)

lemma extend_rewriters_fresh:
  "pipeline_fresh p \<Longrightarrow> (\<And>r. r \<in> set rs \<Longrightarrow> rewriter_fresh r) \<Longrightarrow>
     pipeline_fresh (extend_rewriters p rs) \<and> pl_max_bytes (extend_rewriters p rs) = pl_max_bytes p"
  by (auto simp: pipeline_fresh_def extend_rewriters_def)

lemma pipeline_new_with_exact_fresh:
  assumes "pipeline_new_with_exact ps es mx = Ok p"
  shows "pipeline_fresh p \<and> pl_max_bytes p = mx"
proof -
  from assms obtain rs rs' where rs: "prefix_literal_rewriters ps = Ok rs" "exact_literal_rewriters es = Ok rs'"
    and p: "pipeline_from_rewriters (rs @ rs') mx = Ok p"
    by (auto simp: pipeline_new_with_exact_def bind_outcome_Ok_iff)
  have "\<forall>r \<in> set (rs @ rs'). rewriter_fresh r"
    using prefix_literal_rewriters_fresh [OF rs(1)] exact_literal_rewriters_fresh [OF rs(2)] by auto
  from pipeline_from_rewriters_fresh [OF p this] show ?thesis by simp
qed

lemma pipeline_new_fresh:
  assumes "pipeline_new ps mx = Ok p"
  shows "pipeline_fresh p \<and> pl_max_bytes p = mx"
proof -
  from assms obtain rs where rs: "prefix_literal_rewriters ps = Ok rs"
    and p: "pipeline_from_rewriters rs mx = Ok p"
    by (auto simp: pipeline_new_def bind_outcome_Ok_iff)
  have "\<forall>r \<in> set rs. rewriter_fresh r" using prefix_literal_rewriters_fresh [OF rs] by auto
  from pipeline_from_rewriters_fresh [OF p this] show ?thesis by simp
qed

lemma pipeline_new_with_appended_suffix_fresh:
  assumes "pipeline_new_with_appended_suffix src suf mx = Ok p"
  shows "pipeline_fresh p \<and> pl_max_bytes p = mx"
proof -
  from assms obtain r where r: "literal_new_with_appended_suffix src suf usize_max = Ok r"
    and p: "pipeline_from_rewriters [Literal r] mx = Ok p"
    by (auto simp: pipeline_new_with_appended_suffix_def bind_outcome_Ok_iff)
  have "\<forall>r \<in> set [Literal r]. rewriter_fresh r"
    using literal_new_with_appended_suffix_fresh [OF r] by simp
  from pipeline_from_rewriters_fresh [OF p this] show ?thesis by simp
qed

lemma pipeline_new_with_members_fresh:
  assumes "pipeline_new_with_exact_and_member_expression_patterns ps es ms mx = Ok p"
  shows "pipeline_fresh p \<and> pl_max_bytes p = mx"
proof -
  from assms obtain p0 rs where p0: "pipeline_new_with_exact ps es mx = Ok p0"
    and rs: "collect_outcomes (map (\<lambda>(pre, suf, rep).
      bind_outcome (pattern_new_member_expression pre suf rep) (\<lambda>r. Ok (ExpressionPattern r))) ms) = Ok rs"
    and p: "p = extend_rewriters p0 rs"
    by (auto simp: pipeline_new_with_exact_and_member_expression_patterns_def bind_outcome_Ok_iff)
  from extend_rewriters_fresh [OF _ member_rewriters_fresh [OF rs]]
    pipeline_new_with_exact_fresh [OF p0] show ?thesis by (simp add: p)
qed

lemma with_exact_rules_fresh:
  "with_exact_rules p0 es = Ok p \<Longrightarrow> pipeline_fresh p0 \<Longrightarrow>
     pipeline_fresh p \<and> pl_max_bytes p = pl_max_bytes p0"
  by (auto simp: with_exact_rules_def bind_outcome_Ok_iff
      intro!: extend_rewriters_fresh exact_literal_rewriters_fresh)

lemma with_identifier_template_patterns_fresh:
  "with_identifier_template_patterns p0 ts = Ok p \<Longrightarrow> pipeline_fresh p0 \<Longrightarrow>
     pipeline_fresh p \<and> pl_max_bytes p = pl_max_bytes p0"
  by (auto simp: with_identifier_template_patterns_def bind_outcome_Ok_iff
      intro!: extend_rewriters_fresh template_rewriters_fresh)

lemma with_buffered_transform_fresh:
  "pipeline_fresh p0 \<Longrightarrow> \<forall>x. f x \<noteq> None \<Longrightarrow>
     pipeline_fresh (with_buffered_transform p0 f)
     \<and> pl_max_bytes (with_buffered_transform p0 f) = pl_max_bytes p0"
  unfolding with_buffered_transform_def by (rule extend_rewriters_fresh) auto

lemmas pipeline_constructors_fresh =
  pipeline_new_with_exact_fresh pipeline_new_fresh pipeline_new_with_appended_suffix_fresh
  pipeline_new_with_members_fresh with_exact_rules_fresh with_identifier_template_patterns_fresh
  with_buffered_transform_fresh

end
