(* ===== verification/Rewriter_Properties.thy ===== *)
theory Rewriter_Properties
  imports Pipeline_Correct
begin

text \<open>
  The properties of the streaming rewriters of \<open>src/literal.rs\<close>, read off the contract of
  theory \<open>Stages\<close>: what a session of pushes and the final \<open>finish\<close> returns, what is
  guaranteed of output that has already been sent, the limits and the error cases.
\<close>

section \<open>Lemmas on sessions\<close>

lemma push_all_append:
  "push_all push s (cs @ ds) =
     (case push_all push s cs of
        (Ok o1, s1) \<Rightarrow> (case push_all push s1 ds of (Ok o2, s2) \<Rightarrow> (Ok (o1 @ o2), s2) | (r, s2) \<Rightarrow> (r, s2))
      | (r, s1) \<Rightarrow> (r, s1))"
  by (induction cs arbitrary: s) (auto split: outcome.splits prod.splits)

context stream_stage
begin

lemma push_all_tracks:
  assumes "tracks s0 s [] []" "push_all push s cs = (Ok out, s1)"
  shows "tracks s0 s1 (concat cs) out"
  using push_all_law [OF assms(1), of cs] assms(2) by auto

lemma run_not_panic: "tracks s0 s [] [] \<Longrightarrow> chunked_run push finish s cs \<noteq> Panic"
  using run_complete [of s0 s cs] run_incomplete [of s0 s cs] by fastforce

lemma emitted_is_prefix:
  assumes "tracks s0 s [] []" "push_all push s cs = (Ok out, s1)" "complete s0 (concat cs @ r)"
  shows "prefix out (transform s0 (concat cs @ r))"
  using out_is_prefix [OF push_all_tracks [OF assms(1,2)] assms(3)] by (auto simp: prefix_def)

end

section \<open>The literal rewriter\<close>

text \<open>
  C14. A literal rewriter that has just been constructed, fed any list of chunks and then
  finished, returns the reference rewriting of the concatenated input, and it succeeds
  exactly when that input is valid UTF-8 within the size limit: chunk boundaries inside the
  literal, inside the inserted text or inside a UTF-8 sequence make no difference.
\<close>

theorem literal_streaming:
  assumes "memchr_ok M" "literal_fresh r"
  shows "chunked_run (literal_push M) (literal_finish M) r cs = Ok v \<longleftrightarrow>
    utf8_valid (concat cs) \<and> length (concat cs) \<le> lr_max_bytes r \<and> length (concat cs) \<le> usize_max
    \<and> v = literal_spec (lr_mode r) (lr_needle r) [] (concat cs)"
  using literal_stage.run_iff [OF literal_fresh_tracks [OF assms], of cs v]
  by (auto simp: literal_complete_def literal_transform_def)

theorem literal_streaming_witness:
  "chunked_run (literal_push std_memchr) (literal_finish std_memchr)
     (ok_val (literal_new ''/a'' ''/b/a'' 100)) [''x/'', ''a /b/'', ''a/a''] = Ok ''x/b/a /b/a/b/a''"
  by (subst literal_streaming)
    (simp_all add: std_memchr_ok literal_new_def strip_suffix_def literal_from_mode_def
      literal_fresh_def usize_max_def utf8_valid_ascii literal_spec.simps suffix_def)

section \<open>UTF-8 validation\<close>

fun validate_chunks :: "bytes \<Rightarrow> bytes list \<Rightarrow> unit rresult \<times> bytes" where
  "validate_chunks tail [] = (Ok (), tail)"
| "validate_chunks tail (c # cs) =
     (case validate_utf8 tail c of (Ok _, tail') \<Rightarrow> validate_chunks tail' cs | r \<Rightarrow> r)"

lemma validate_chunks_from:
  "utf8_partial inp \<Longrightarrow>
     (if utf8_partial (inp @ concat cs)
      then validate_chunks (utf8_rest inp) cs = (Ok (), utf8_rest (inp @ concat cs))
      else fst (validate_chunks (utf8_rest inp) cs) = Err InvalidUtf8)"
proof (induction cs arbitrary: inp)
  case Nil
  then show ?case by simp
next
  case (Cons c cs)
  show ?case
  proof (cases "utf8_partial (inp @ c)")
    case True
    then show ?thesis using validate_utf8_ok [OF Cons.prems, of c] Cons.IH [of "inp @ c"] by auto
  next
    case False
    then have "fst (validate_utf8 (utf8_rest inp) c) = Err InvalidUtf8"
      using validate_utf8_ok [OF Cons.prems, of c] by simp
    moreover have "\<not> utf8_partial (inp @ c @ concat cs)"
      using utf8_not_partial_append [OF False, of "concat cs"] by simp
    ultimately show ?thesis by (cases "validate_utf8 (utf8_rest inp) c") auto
  qed
qed

text \<open>
  Validating a body chunk by chunk accepts the chunks with an empty rest exactly when
  validating the whole body with \<open>str::from_utf8\<close> succeeds, whatever the chunk boundaries; on
  other bodies it reports \<open>InvalidUtf8\<close> or keeps the unfinished last sequence, and it never
  panics (the \<open>unreachable!\<close> is unreachable).
\<close>

theorem validate_utf8_streaming:
  "(validate_chunks [] cs = (Ok (), []) \<longleftrightarrow> from_utf8 (concat cs) = None)
   \<and> (fst (validate_chunks [] cs) = Ok () \<or> fst (validate_chunks [] cs) = Err InvalidUtf8)"
  using validate_chunks_from [of "[]" cs]
  by (auto simp: utf8_partial_def utf8_rest_def utf8_valid_def [symmetric] utf8_partial_iff_valid
      split: if_splits)

section \<open>Bounded buffers\<close>

text \<open>The exit of the loop at an undecided suffix holds the occurrence and less than the suffix.\<close>

lemma literal_loop_held:
  "literal_loop M lr eos h out c = Held h' out' k \<Longrightarrow> c \<le> length (lr_pending lr) \<Longrightarrow>
     \<not> eos \<and> length (drop k (lr_pending lr)) < length (lr_needle lr) + length (case_option [] id (mode_inserted_suffix (lr_mode lr)))"
proof (induction M lr eos h out c rule: literal_loop.induct)
  case (1 M lr eos h out c)
  obtain i where i: "mm_find M (lr_needle lr) (drop c (lr_pending lr)) = Some i"
    using "1.prems"(1) by (auto simp: literal_loop.simps [of M lr eos h out c] Let_def split: option.splits)
  show ?case
    using "1.prems" "1.IH" [OF refl refl refl i refl refl _ refl refl refl refl refl]
    by (subst (asm) literal_loop.simps) (auto simp: i Let_def split: if_splits option.splits)
qed

lemma process_available_pending:
  assumes "literal_process_available M lr False = (Ok y, lr')" "lr_needle lr \<noteq> []"
  shows "length (lr_pending lr') < length (lr_needle lr) + length (case_option [] id (mode_inserted_suffix (lr_mode lr)))"
proof (cases "literal_loop M lr False (lr_input_history lr) [] 0")
  case (Held h out k)
  from literal_loop_held [OF Held] assms Held show ?thesis
    by (cases "lr_mode lr") (auto simp: literal_process_available_def)
next
  case (Searched h out k)
  let ?p = "length (lr_pending lr)" and ?n = "length (lr_needle lr)"
  from Searched assms(1) have "length (lr_pending lr') = ?p - (k + (?p - k - (?n - 1)))"
    by (auto simp: literal_process_available_def Let_def)
  also have "\<dots> < ?n" using assms(2) by (simp flip: length_greater_0_conv)
  finally show ?thesis by simp
qed (use assms in \<open>simp add: literal_process_available_def\<close>)

lemma literal_process_available_frame:
  "literal_process_available M lr eos = (y, lr') \<Longrightarrow>
     lr_needle lr' = lr_needle lr \<and> lr_mode lr' = lr_mode lr"
  by (auto simp: literal_process_available_def Let_def split: loop_exit.splits)

lemma literal_push_pending:
  assumes push: "literal_push M r x = (Ok y, r')" and n: "lr_needle r \<noteq> []"
  shows "length (lr_pending r') < length (lr_needle r) + length (case_option [] id (mode_inserted_suffix (lr_mode r)))"
    and "lr_needle r' = lr_needle r" and "lr_mode r' = lr_mode r"
proof -
  from push obtain t u where "literal_process_available M
      (r\<lparr>lr_total_bytes := t, lr_utf8_tail := u, lr_pending := lr_pending r @ x\<rparr>) False = (Ok y, r')"
    by (auto simp: literal_push_def Let_def split: if_splits option.splits outcome.splits prod.splits)
  moreover define r1 where "r1 = r\<lparr>lr_total_bytes := t, lr_utf8_tail := u, lr_pending := lr_pending r @ x\<rparr>"
  ultimately have r1: "lr_needle r1 = lr_needle r" "lr_mode r1 = lr_mode r"
    and p: "literal_process_available M r1 False = (Ok y, r')" by simp_all
  from literal_process_available_frame [OF p] r1
  show "lr_needle r' = lr_needle r" "lr_mode r' = lr_mode r" by simp_all
  from process_available_pending [OF p] r1 n
  show "length (lr_pending r') < length (lr_needle r) + length (case_option [] id (mode_inserted_suffix (lr_mode r)))"
    by simp
qed

lemma literal_push_all_pending:
  "push_all (literal_push M) r cs = (Ok out, r') \<Longrightarrow> lr_needle r \<noteq> [] \<Longrightarrow>
     length (lr_pending r) < length (lr_needle r) + length (case_option [] id (mode_inserted_suffix (lr_mode r))) \<Longrightarrow>
     length (lr_pending r') < length (lr_needle r) + length (case_option [] id (mode_inserted_suffix (lr_mode r)))"
proof (induction cs arbitrary: r out)
  case (Cons c cs)
  then obtain y r1 out' where "literal_push M r c = (Ok y, r1)" "push_all (literal_push M) r1 cs = (Ok out', r')"
    by (auto split: outcome.splits prod.splits)
  with Cons.IH [of r1] literal_push_pending [OF this(1)] Cons.prems(2) show ?case by simp
qed simp

lemma utf8_rest_short: "utf8_partial inp \<Longrightarrow> length (utf8_rest inp) \<le> 3"
proof (drule utf8_rest_cases, elim disjE exE conjE)
  fix b r
  assume "utf8_rest inp = b # r" and "utf8_seq b r = Short"
  then show ?thesis using utf8_seq_Short [of b r] width_cases [of "byte_val b"] by auto
qed simp

text \<open>
  C39. A literal rewriter holds back only what it may still need, however long the body: fewer
  bytes than the literal and the suffix to insert, at most the inserted prefix of remembered
  input, and at most three bytes of an unfinished UTF-8 sequence.
\<close>

theorem literal_buffers_bounded:
  assumes "memchr_ok M" "literal_fresh r" "push_all (literal_push M) r cs = (Ok out, r')"
  shows "length (lr_pending r') < length (lr_needle r) + length (case_option [] id (mode_inserted_suffix (lr_mode r)))
    \<and> length (lr_input_history r') \<le> length (case_option [] id (mode_inserted_prefix (lr_mode r)))
    \<and> length (lr_utf8_tail r') \<le> 3"
proof -
  have t: "literal_tracks M r r' (concat cs) out"
    by (rule literal_stage.push_all_tracks [OF literal_fresh_tracks [OF assms(1,2)] assms(3)])
  then have "length (lr_utf8_tail r') \<le> 3" by (simp add: literal_tracks_def utf8_rest_short)
  moreover have "length (lr_input_history r') \<le> length (case_option [] id (mode_inserted_prefix (lr_mode r)))"
    using t by (auto simp: literal_tracks_def history_ok_def split: option.splits)
  moreover have "length (lr_pending r') < length (lr_needle r) + length (case_option [] id (mode_inserted_suffix (lr_mode r)))"
    by (rule literal_push_all_pending [OF assms(3)]) (use assms(2) in \<open>simp_all add: literal_fresh_def\<close>)
  ultimately show ?thesis by blast
qed

theorem literal_buffers_bounded_witness:
  "length (lr_pending (snd (push_all (literal_push std_memchr)
      (ok_val (literal_new ''/a'' ''/b/a'' 100)) [''x'', ''y/'']))) < 2"
proof -
  let ?r = "ok_val (literal_new ''/a'' ''/b/a'' 100)"
  let ?s = "snd (push_all (literal_push std_memchr) ?r [''x'', ''y/''])"
  have fresh: "literal_fresh ?r" by code_simp
  have push: "push_all (literal_push std_memchr) ?r [''x'', ''y/''] = (Ok ''xy'', ?s)" by code_simp
  from literal_buffers_bounded [OF std_memchr_ok fresh push]
  show ?thesis by (simp add: literal_new_def strip_suffix_def literal_from_mode_def suffix_def)
qed

section \<open>The expression pattern rewriter\<close>

text \<open>
  C15. An expression pattern rewriter that has just been constructed, fed any list of chunks and then finished, always succeeds and returns the
  reference rewriting of the concatenated input: an expression, its prefix or its suffix cut
  by a chunk boundary is found all the same.
\<close>

theorem pattern_streaming:
  assumes "memchr_ok M" "pattern_fresh r"
  shows "chunked_run (pattern_push M) (pattern_finish M) r cs = Ok (pattern_spec r None (concat cs))"
  using pattern_stage.run_complete [OF pattern_fresh_tracks [OF assms], of cs]
  by (simp add: pattern_complete_def pattern_transform_def)

theorem pattern_streaming_witness:
  "chunked_run (pattern_push std_memchr) (pattern_finish std_memchr)
     (ok_val (pattern_new_member_expression ''f('' '',0)'' ''g('')) [''f(a.'', ''b,'', ''0)f(,0)''] = Ok ''g(a.b,0)f(,0)''"
proof -
  let ?r = "ok_val (pattern_new_member_expression ''f('' '',0)'' ''g('')"
  have "pattern_fresh ?r"
    by (simp add: pattern_new_member_expression_def pattern_new_def pattern_fresh_def pattern_wf_def)
  from pattern_streaming [OF std_memchr_ok this, of "[''f(a.'', ''b,'', ''0)f(,0)'']"]
  show ?thesis by (simp, code_simp)
qed

section \<open>The pipeline\<close>

text \<open>
  C3. A pipeline that has just been constructed, fed any list of chunks and then finished,
  succeeds exactly when the body is within the size limit and every literal rewriter sees
  valid UTF-8, and returns the composition of the reference rewritings applied to the whole
  body, whatever the chunks in which the body arrives.
\<close>

theorem pipeline_streaming:
  assumes "memchr_ok M" "pipeline_fresh p"
  shows "chunked_run (pipeline_push M) (pipeline_finish M) p cs = Ok v \<longleftrightarrow>
    pipeline_complete p (concat cs) \<and> v = pipeline_transform p (concat cs)"
  by (rule pipeline_stage.run_iff [OF pipeline_fresh_tracks [OF assms]])

definition sample_pipeline :: pipeline where
  "sample_pipeline = ok_val (pipeline_new_with_exact [(''/a'', ''/b/a'')] [(''b/'', ''c'')] 100)"

lemmas sample_eval =
  sample_pipeline_def pipeline_new_with_exact_def prefix_literal_rewriters_def
  exact_literal_rewriters_def pipeline_from_rewriters_def literal_new_def literal_new_exact_def
  strip_suffix_def literal_from_mode_def suffix_def

lemma sample_pipeline_fresh: "pipeline_fresh sample_pipeline"
  by (rule conjunct1 [OF pipeline_new_with_exact_fresh [of "[(''/a'', ''/b/a'')]" "[(''b/'', ''c'')]" 100]])
    (simp add: sample_eval)

theorem pipeline_streaming_witness:
  "chunked_run (pipeline_push std_memchr) (pipeline_finish std_memchr) sample_pipeline [''x/'', ''a/b'', ''/''] =
     Ok ''x/ca/c''"
  by (subst pipeline_streaming [OF std_memchr_ok sample_pipeline_fresh])
    (simp add: sample_eval pipeline_complete_def pipeline_transform_def literal_complete_def
      literal_transform_def usize_max_def utf8_valid_ascii literal_spec.simps(2))

text \<open>
  C28. What a constructed pipeline has sent downstream after any chunks is final: it is a prefix
  of the rewriting of every acceptable body that begins with those chunks.
\<close>

theorem pipeline_output_final:
  assumes "memchr_ok M" "pipeline_fresh p"
    and "push_all (pipeline_push M) p cs = (Ok out, p')" "pipeline_complete p (concat cs @ r)"
  shows "prefix out (pipeline_transform p (concat cs @ r))"
  by (rule pipeline_stage.emitted_is_prefix [OF pipeline_fresh_tracks [OF assms(1,2)] assms(3,4)])

theorem pipeline_output_final_witness:
  "prefix ''x/c'' (pipeline_transform sample_pipeline ''x/a b/'')"
proof -
  let ?run = "push_all (pipeline_push std_memchr) sample_pipeline [''x/'', ''a'']"
  have "fst ?run = Ok ''x/c''" by code_simp
  then have run: "?run = (Ok ''x/c'', snd ?run)" by (metis prod.collapse)
  have "pipeline_complete sample_pipeline (concat [''x/'', ''a''] @ '' b/'')" by code_simp
  from pipeline_output_final [OF std_memchr_ok sample_pipeline_fresh run this] show ?thesis by simp
qed

text \<open>The frame of a push: the limit and the counter.\<close>

lemma pipeline_push_frame:
  "pipeline_push M p x = (Ok y, p') \<Longrightarrow>
     pl_max_bytes p' = pl_max_bytes p \<and> pl_total_bytes p' = pl_total_bytes p + length x \<and> \<not> pl_finished p'"
  by (auto simp: pipeline_push_def checked_add_Some_iff Let_def split: if_splits option.splits prod.splits)

lemma pipeline_push_all_frame:
  "push_all (pipeline_push M) p cs = (Ok y, p') \<Longrightarrow> \<not> pl_finished p \<Longrightarrow>
     pl_max_bytes p' = pl_max_bytes p \<and> pl_total_bytes p' = pl_total_bytes p + length (concat cs) \<and> \<not> pl_finished p'"
proof (induction cs arbitrary: p y)
  case (Cons c cs)
  then obtain z p1 w where "pipeline_push M p c = (Ok z, p1)" "push_all (pipeline_push M) p1 cs = (Ok w, p')"
    by (auto split: outcome.splits prod.splits)
  with Cons.IH [of p1] pipeline_push_frame [of M p c] show ?case by simp
qed simp

text \<open>
  C30. The chunk that takes a body over the size limit of its pipeline is refused with
  \<open>TooLarge\<close> and the limit, before any rewriter sees it.
\<close>

theorem pipeline_limit:
  assumes "pipeline_fresh p" "push_all (pipeline_push M) p cs = (Ok out, p')"
    and "pl_max_bytes p < length (concat cs) + length c"
  shows "fst (pipeline_push M p' c) = Err (TooLarge (pl_max_bytes p))
    \<and> pl_rewriters (snd (pipeline_push M p' c)) = pl_rewriters p'"
  using pipeline_push_all_frame [OF assms(2)] assms(1,3)
  by (auto simp: pipeline_fresh_def pipeline_push_def checked_add_def Let_def)

theorem pipeline_limit_witness:
  "fst (pipeline_push std_memchr (snd (push_all (pipeline_push std_memchr)
      (sample_pipeline\<lparr>pl_max_bytes := 4\<rparr>) [''x/a''])) ''bc'') = Err (TooLarge 4)"
proof -
  let ?p = "sample_pipeline\<lparr>pl_max_bytes := 4\<rparr>"
  let ?run = "push_all (pipeline_push std_memchr) ?p [''x/a'']"
  have "fst ?run = Ok ''x/c''" by code_simp
  then have run: "?run = (Ok ''x/c'', snd ?run)" by (metis prod.collapse)
  have "pipeline_fresh ?p" using sample_pipeline_fresh by (simp add: pipeline_fresh_def)
  from pipeline_limit [OF this run, of "''bc''"] show ?thesis by simp
qed

text \<open>
  C29. A pipeline that has just been constructed never panics, whatever the chunks: neither the
  \<open>expect\<close> on its rewriters nor a slice index of a rewriter fails; and once finished, every
  later call is refused with \<open>AlreadyFinished\<close> and changes nothing.
\<close>

theorem pipeline_safe:
  assumes "memchr_ok M" "pipeline_fresh p"
  shows "fst (push_all (pipeline_push M) p cs) \<noteq> Panic
    \<and> chunked_run (pipeline_push M) (pipeline_finish M) p cs \<noteq> Panic
    \<and> pipeline_push M (snd (pipeline_finish M p')) x = (Err AlreadyFinished, snd (pipeline_finish M p'))
    \<and> pipeline_finish M (snd (pipeline_finish M p')) = (Err AlreadyFinished, snd (pipeline_finish M p'))"
proof (intro conjI)
  note fresh = pipeline_fresh_tracks [OF assms]
  show "fst (push_all (pipeline_push M) p cs) \<noteq> Panic"
    using pipeline_stage.push_all_law [OF fresh, of cs] by auto
  show "chunked_run (pipeline_push M) (pipeline_finish M) p cs \<noteq> Panic"
    by (rule pipeline_stage.run_not_panic [OF fresh])
  have "pl_finished (snd (pipeline_finish M p'))"
    by (auto simp: pipeline_finish_def Let_def split: prod.split)
  then show "pipeline_push M (snd (pipeline_finish M p')) x = (Err AlreadyFinished, snd (pipeline_finish M p'))"
    and "pipeline_finish M (snd (pipeline_finish M p')) = (Err AlreadyFinished, snd (pipeline_finish M p'))"
    by (simp_all add: pipeline_push_def pipeline_finish_def)
qed

theorem pipeline_safe_witness:
  "chunked_run (pipeline_push std_memchr) (pipeline_finish std_memchr) sample_pipeline [''x/'', ''a''] \<noteq> Panic"
  using pipeline_safe [OF std_memchr_ok sample_pipeline_fresh, of "[''x/'', ''a'']"] by blast

end
