(* ===== verification/Numbers.thy ===== *)
theory Numbers
  imports Prelude
begin

text \<open>
  How the standard library prints unsigned integers: \<open>to_string\<close> in base ten and the format
  \<open>{:x}\<close> in base sixteen, both without leading zeros. Printing is injective, and the digits are
  letters and digits only.
\<close>

definition digit_char :: "nat \<Rightarrow> byte" where
  "digit_char d = char_of (if d < 10 then 48 + d else 87 + d)"

fun radix_digits :: "nat \<Rightarrow> nat \<Rightarrow> bytes" where
  "radix_digits radix n =
     (if n < radix \<or> radix < 2 then [digit_char n]
      else radix_digits radix (n div radix) @ [digit_char (n mod radix)])"

declare radix_digits.simps [simp del]

definition decimal :: "nat \<Rightarrow> bytes" where
  "decimal n = radix_digits 10 n"

definition lower_hex :: "nat \<Rightarrow> bytes" where
  "lower_hex n = radix_digits 16 n"

lemma radix_digits_small: "n < radix \<Longrightarrow> radix_digits radix n = [digit_char n]"
  by (simp add: radix_digits.simps)

lemma radix_digits_step:
  "radix \<le> n \<Longrightarrow> 2 \<le> radix \<Longrightarrow>
     radix_digits radix n = radix_digits radix (n div radix) @ [digit_char (n mod radix)]"
  by (simp add: radix_digits.simps [of radix n])

lemma radix_digits_induct [case_names small step]:
  assumes "2 \<le> radix" "\<And>n. n < radix \<Longrightarrow> P n"
    and "\<And>n. radix \<le> n \<Longrightarrow> P (n div radix) \<Longrightarrow> P n"
  shows "P (n :: nat)"
proof (induction n rule: less_induct)
  case (less n)
  then show ?case using assms by (cases "n < radix") (auto simp: not_less)
qed

section \<open>Length and digits\<close>

lemma radix_digits_length:
  assumes "2 \<le> radix"
  shows "n < radix ^ k \<Longrightarrow> 0 < k \<Longrightarrow> length (radix_digits radix n) \<le> k"
proof (induction k arbitrary: n)
  case (Suc k)
  show ?case
  proof (cases "n < radix")
    case False
    with Suc.prems assms have "0 < k" by (cases k) auto
    moreover have "n div radix < radix ^ k"
      using Suc.prems(1) by (simp add: less_mult_imp_div_less mult.commute)
    ultimately show ?thesis using Suc.IH False assms by (simp add: radix_digits_step)
  qed (simp add: radix_digits_small)
qed simp

lemma radix_digits_nonempty [simp]: "radix_digits radix n \<noteq> []"
  by (subst radix_digits.simps) simp

lemma radix_digits_set:
  assumes "2 \<le> radix"
  shows "b \<in> set (radix_digits radix n) \<Longrightarrow> \<exists>d < radix. b = digit_char d"
proof (induction n rule: radix_digits_induct [OF assms])
  case (2 n)
  have "n mod radix < radix" using assms by simp
  moreover from 2 assms have "b \<in> set (radix_digits radix (n div radix)) \<or> b = digit_char (n mod radix)"
    by (auto simp: radix_digits_step)
  ultimately show ?case using 2(2) by blast
qed (auto simp: radix_digits_small)

text \<open>The first digit is a zero only for the number zero.\<close>

lemma radix_digits_hd:
  assumes "2 \<le> radix"
  shows "\<exists>d < radix. hd (radix_digits radix n) = digit_char d \<and> (d = 0 \<longrightarrow> n = 0)"
proof (induction n rule: radix_digits_induct [OF assms])
  case (2 n)
  moreover from 2(1) assms have "n div radix \<noteq> 0" by (simp add: div_eq_0_iff)
  ultimately show ?case using assms by (auto simp: radix_digits_step)
qed (auto simp: radix_digits_small)

lemma digit_char_val: "d < 16 \<Longrightarrow> byte_val (digit_char d) = (if d < 10 then 48 + d else 87 + d)"
  by (simp add: digit_char_def)

lemma decimal_digits: "b \<in> set (decimal n) \<Longrightarrow> 48 \<le> byte_val b \<and> byte_val b \<le> (57 :: nat)"
  unfolding decimal_def by (drule radix_digits_set [rotated]) (auto simp: digit_char_val)

lemma lower_hex_digits:
  "b \<in> set (lower_hex n) \<Longrightarrow>
     (48 \<le> byte_val b \<and> byte_val b \<le> (57 :: nat)) \<or> (97 \<le> byte_val b \<and> byte_val b \<le> (102 :: nat))"
  unfolding lower_hex_def
  by (drule radix_digits_set [rotated]) (auto simp: digit_char_val split: if_splits)

section \<open>Printing is injective\<close>

definition char_digit :: "byte \<Rightarrow> nat" where
  "char_digit b = (if byte_val b < (58 :: nat) then byte_val b - 48 else byte_val b - 87)"

lemma char_digit_char: "d < 16 \<Longrightarrow> char_digit (digit_char d) = d"
  by (simp add: char_digit_def digit_char_val)

lemma radix_value:
  assumes "2 \<le> radix" "radix \<le> 16"
  shows "foldl (\<lambda>v b. v * radix + char_digit b) 0 (radix_digits radix n) = n"
proof (induction n rule: radix_digits_induct [OF assms(1)])
  case (2 n)
  have "n mod radix < radix" using assms(1) by simp
  with assms(2) have "n mod radix < 16" by linarith
  with 2 assms(1) show ?case by (simp add: radix_digits_step char_digit_char)
qed (use assms in \<open>simp add: radix_digits_small char_digit_char\<close>)

lemma radix_digits_inject:
  assumes "2 \<le> radix" "radix \<le> 16"
  shows "radix_digits radix m = radix_digits radix n \<longleftrightarrow> m = n"
proof
  assume "radix_digits radix m = radix_digits radix n"
  then show "m = n" by (metis radix_value [OF assms])
qed simp

lemma lower_hex_inject: "lower_hex m = lower_hex n \<longleftrightarrow> m = n"
  unfolding lower_hex_def by (rule radix_digits_inject) simp_all

lemma decimal_inject: "decimal m = decimal n \<longleftrightarrow> m = n"
  unfolding decimal_def by (rule radix_digits_inject) simp_all

end
