(* ===== verification/Rust_Str.thy ===== *)
theory Rust_Str
  imports Literal Pattern Numbers
begin

text \<open>
  The operations of the standard library on \<open>&str\<close> and \<open>&[u8]\<close> that the program uses, on the
  UTF-8 bytes of the strings. Every separator the program splits at is ASCII, so cutting the
  bytes at its first occurrence cuts the string at its first occurrence.
\<close>

section \<open>Prefixes and separators\<close>

definition strip_prefix :: "bytes \<Rightarrow> bytes \<Rightarrow> bytes option" where
  "strip_prefix p s = (if prefix p s then Some (drop (length p) s) else None)"

lemma strip_prefix_Some_iff [rust_simps]: "strip_prefix p s = Some r \<longleftrightarrow> s = p @ r"
  by (auto simp: strip_prefix_def prefix_def)

lemma strip_prefix_append [simp]: "strip_prefix p (p @ r) = Some r"
  by (simp add: strip_prefix_Some_iff)

lemma strip_prefix_None_iff: "strip_prefix p s = None \<longleftrightarrow> \<not> prefix p s"
  by (simp add: strip_prefix_def)

lemma strip_suffix_Some_iff [rust_simps]: "strip_suffix p s = Some r \<longleftrightarrow> s = r @ p"
  by (auto simp: strip_suffix_def suffix_def)

lemma strip_suffix_append [simp]: "strip_suffix p (r @ p) = Some r"
  by (simp add: strip_suffix_Some_iff)

definition split_once :: "bytes \<Rightarrow> bytes \<Rightarrow> (bytes \<times> bytes) option" where
  "split_once d s = map_option (\<lambda>i. (take i s, drop (i + length d) s)) (first_occ d s)"

lemma split_once_Some_iff:
  "split_once d s = Some (a, b) \<longleftrightarrow> s = a @ d @ b \<and> first_occ d s = Some (length a)"
proof
  assume "split_once d s = Some (a, b)"
  then obtain i where i: "first_occ d s = Some i" "a = take i s" "b = drop (i + length d) s"
    by (auto simp: split_once_def)
  then have "occurs_at d s i" by (simp add: first_occ_Some_iff)
  then obtain u v where "s = u @ d @ v" "length u = i" by (auto simp: occurs_at_iff_split)
  with i show "s = a @ d @ b \<and> first_occ d s = Some (length a)" by auto
qed (auto simp: split_once_def)

text \<open>When the part before the separator lacks one of its bytes, the split is determined.\<close>

lemma first_occ_at:
  assumes "d = x # d'" "x \<notin> set a"
  shows "first_occ d (a @ d @ b) = Some (length a)"
proof -
  have "\<not> occurs_at d (a @ d @ b) j" if "j < length a" for j
  proof
    assume "occurs_at d (a @ d @ b) j"
    then have "prefix d (drop j a @ d @ b)" using that by (simp add: occurs_at_def)
    moreover have "drop j a = a ! j # drop (Suc j) a" using that by (rule Cons_nth_drop_Suc [symmetric])
    ultimately have "x = a ! j" using assms(1) by (simp add: prefix_def)
    with assms(2) that show False by auto
  qed
  then show ?thesis by (auto simp: first_occ_Some_iff occurs_at_iff_split)
qed

lemma split_once_at: "x \<notin> set a \<Longrightarrow> split_once (x # d) (a @ x # d @ b) = Some (a, b)"
  using first_occ_at [of "x # d" x d a b] by (simp add: split_once_def)

lemma split_once_byte_iff: "split_once [x] s = Some (a, b) \<longleftrightarrow> s = a @ x # b \<and> x \<notin> set a"
proof
  assume s: "split_once [x] s = Some (a, b)"
  then have "s = a @ [x] @ b" and f: "first_occ [x] s = Some (length a)"
    unfolding split_once_Some_iff by blast+
  then have eq: "s = a @ x # b" by simp
  have "x \<notin> set a"
  proof
    assume "x \<in> set a"
    then obtain j where j: "j < length a" "a ! j = x" by (auto simp: in_set_conv_nth)
    then have "drop j s = x # drop (Suc j) s"
      by (simp add: eq Cons_nth_drop_Suc [symmetric])
    then have "occurs_at [x] s j" using j by (auto simp: occurs_at_def eq)
    with f j(1) show False by (simp add: first_occ_Some_iff)
  qed
  with eq show "s = a @ x # b \<and> x \<notin> set a" by simp
next
  assume "s = a @ x # b \<and> x \<notin> set a"
  with split_once_at [of x a "[]" b] show "split_once [x] s = Some (a, b)" by simp
qed

lemma split_once_None_byte_iff: "split_once [x] s = None \<longleftrightarrow> x \<notin> set s"
proof -
  have "x \<in> set s \<Longrightarrow> split_once [x] s \<noteq> None"
  proof -
    assume "x \<in> set s"
    then obtain a b where "s = a @ x # b" "x \<notin> set a" by (meson split_list_first)
    then have "split_once [x] s = Some (a, b)" by (simp add: split_once_byte_iff)
    then show ?thesis by simp
  qed
  moreover have "x \<in> set s" if "split_once [x] s \<noteq> None"
    using that by (auto simp: split_once_byte_iff)
  ultimately show ?thesis by blast
qed

text \<open>\<open>s.contains(n)\<close> for a substring, and \<open>s.rsplit(c).next()\<close>.\<close>

definition str_contains :: "bytes \<Rightarrow> bytes \<Rightarrow> bool" where
  "str_contains n s \<longleftrightarrow> first_occ n s \<noteq> None"

lemma str_contains_iff: "str_contains n s \<longleftrightarrow> (\<exists>a b. s = a @ n @ b)"
  by (auto simp: str_contains_def first_occ_None_iff occurs_at_iff_split)

definition after_last :: "byte \<Rightarrow> bytes \<Rightarrow> bytes" where
  "after_last c s = rev (takeWhile (\<lambda>x. x \<noteq> c) (rev s))"

section \<open>Trimming\<close>

definition trim_end_matches :: "byte \<Rightarrow> bytes \<Rightarrow> bytes" where
  "trim_end_matches c s = rev (dropWhile (\<lambda>x. x = c) (rev s))"

definition trim_start_matches :: "byte \<Rightarrow> bytes \<Rightarrow> bytes" where
  "trim_start_matches c s = dropWhile (\<lambda>x. x = c) s"

lemma trim_end_matches_end: "\<not> suffix [c] (trim_end_matches c s)"
proof (cases "dropWhile (\<lambda>x. x = c) (rev s)")
  case Nil
  show ?thesis unfolding trim_end_matches_def Nil by simp
next
  case (Cons y ys)
  then have "y \<noteq> c" by (metis (mono_tags, lifting) hd_dropWhile list.distinct(1) list.sel(1))
  then show ?thesis unfolding trim_end_matches_def Cons suffix_to_prefix by simp
qed

lemma trim_matches_none:
  assumes "c \<notin> set s"
  shows "trim_start_matches c s = s" and "trim_end_matches c s = s"
proof -
  have id: "c \<notin> set t \<Longrightarrow> dropWhile (\<lambda>x. x = c) t = t" for t by (cases t) auto
  from id [OF assms] id [of "rev s"] assms show "trim_start_matches c s = s" "trim_end_matches c s = s"
    by (simp_all add: trim_start_matches_def trim_end_matches_def)
qed

section \<open>Case\<close>

definition to_ascii_lowercase_byte :: "byte \<Rightarrow> byte" where
  "to_ascii_lowercase_byte b =
     (let v = byte_val b :: nat in if 65 \<le> v \<and> v \<le> 90 then char_of (v + 32) else b)"

definition to_ascii_lowercase :: "bytes \<Rightarrow> bytes" where
  "to_ascii_lowercase s = map to_ascii_lowercase_byte s"

definition eq_ignore_ascii_case :: "bytes \<Rightarrow> bytes \<Rightarrow> bool" where
  "eq_ignore_ascii_case a b \<longleftrightarrow> to_ascii_lowercase a = to_ascii_lowercase b"

lemma to_ascii_lowercase_byte_idem [simp]:
  "to_ascii_lowercase_byte (to_ascii_lowercase_byte b) = to_ascii_lowercase_byte b"
  by (auto simp: to_ascii_lowercase_byte_def Let_def)

lemma to_ascii_lowercase_idem [simp]: "to_ascii_lowercase (to_ascii_lowercase s) = to_ascii_lowercase s"
  by (simp add: to_ascii_lowercase_def)

lemma eq_ignore_ascii_case_refl [simp]: "eq_ignore_ascii_case s s"
  by (simp add: eq_ignore_ascii_case_def)

section \<open>Classes of bytes\<close>

definition is_ascii_alphanumeric :: "byte \<Rightarrow> bool" where
  "is_ascii_alphanumeric b \<longleftrightarrow> is_ascii_alphabetic b \<or> is_ascii_digit b"

definition is_ascii_whitespace :: "byte \<Rightarrow> bool" where
  "is_ascii_whitespace b \<longleftrightarrow> (let v = byte_val b :: nat in v = 9 \<or> v = 10 \<or> v = 12 \<or> v = 13 \<or> v = 32)"

section \<open>Splitting and joining\<close>

text \<open>\<open>s.split(c)\<close> for an ASCII character: never empty.\<close>

fun split_byte :: "byte \<Rightarrow> bytes \<Rightarrow> bytes list" where
  "split_byte c [] = [[]]"
| "split_byte c (x # xs) =
     (if x = c then [] # split_byte c xs
      else case split_byte c xs of [] \<Rightarrow> [[x]] | y # ys \<Rightarrow> (x # y) # ys)"

fun join_bytes :: "bytes \<Rightarrow> bytes list \<Rightarrow> bytes" where
  "join_bytes sep [] = []"
| "join_bytes sep [x] = x"
| "join_bytes sep (x # y # ys) = x @ sep @ join_bytes sep (y # ys)"

lemma split_byte_nonempty [simp]: "split_byte c s \<noteq> []"
  by (induction s) (auto split: list.splits)

lemma join_split_byte: "join_bytes [c] (split_byte c s) = s"
proof (induction s)
  case (Cons x s)
  obtain y ys where y: "split_byte c s = y # ys" by (meson list.exhaust split_byte_nonempty)
  with Cons show ?case by (cases ys) auto
qed simp

lemma split_byte_no_sep: "x \<in> set (split_byte c s) \<Longrightarrow> c \<notin> set x"
  by (induction s arbitrary: x) (auto split: list.splits if_splits)

lemma split_byte_single: "c \<notin> set x \<Longrightarrow> split_byte c x = [x]"
  by (induction x) auto

lemma split_byte_append: "c \<notin> set x \<Longrightarrow> split_byte c (x @ c # y) = x # split_byte c y"
  by (induction x) auto

lemma split_byte_at: "split_byte c (a @ c # b) = split_byte c a @ split_byte c b"
  by (induction a) (auto split: list.split)

section \<open>White space\<close>

text \<open>The Unicode property \<open>White_Space\<close>, which \<open>str::trim\<close> removes at both ends.\<close>

definition is_whitespace :: "bytes \<Rightarrow> bool" where
  "is_whitespace ch \<longleftrightarrow>
     (let c = code_point ch
      in (9 \<le> c \<and> c \<le> 13) \<or> c = 0x20 \<or> c = 0x85 \<or> c = 0xA0 \<or> c = 0x1680 \<or> (0x2000 \<le> c \<and> c \<le> 0x200A)
         \<or> c = 0x2028 \<or> c = 0x2029 \<or> c = 0x202F \<or> c = 0x205F \<or> c = 0x3000)"

definition str_trim :: "bytes \<Rightarrow> bytes" where
  "str_trim s =
     concat (rev (dropWhile is_whitespace (rev (dropWhile is_whitespace (str_chars s)))))"

definition trim_matches :: "byte \<Rightarrow> bytes \<Rightarrow> bytes" where
  "trim_matches c s = trim_end_matches c (trim_start_matches c s)"

end
