(* ===== verification/Policy.thy ===== *)
theory Policy
  imports Rust_Str
begin

text \<open>
  The rewrite policy of \<open>src/rewrite.rs\<close>: which rules there are, how the configured extensions
  and rules are held, and \<open>RewritePolicy::decide\<close>, which maps a request to a rewrite profile.
\<close>

section \<open>Rules\<close>

datatype rewrite_rule =
    Rule_ConsoleV3
  | Rule_JsBundle
  | Rule_FrontendIndexJsBundle
  | Rule_NamedProxyHtml
  | Rule_Ys1000Html
  | Rule_KubekeyAssetJs

fun rule_number :: "rewrite_rule \<Rightarrow> nat" where
  "rule_number Rule_ConsoleV3 = 1"
| "rule_number Rule_JsBundle = 2"
| "rule_number Rule_FrontendIndexJsBundle = 3"
| "rule_number Rule_NamedProxyHtml = 4"
| "rule_number Rule_Ys1000Html = 5"
| "rule_number Rule_KubekeyAssetJs = 6"

text \<open>The rules are ordered by their numbers.\<close>

lemma rule_number_inject: "rule_number a = rule_number b \<longleftrightarrow> a = b"
  by (cases a; cases b) simp_all

instantiation rewrite_rule :: linorder
begin

definition less_eq_rewrite_rule :: "rewrite_rule \<Rightarrow> rewrite_rule \<Rightarrow> bool" where
  "less_eq_rewrite_rule a b \<longleftrightarrow> rule_number a \<le> rule_number b"

definition less_rewrite_rule :: "rewrite_rule \<Rightarrow> rewrite_rule \<Rightarrow> bool" where
  "less_rewrite_rule a b \<longleftrightarrow> rule_number a < rule_number b"

instance
  by standard
    (auto simp: less_eq_rewrite_rule_def less_rewrite_rule_def rule_number_inject)

end

definition ALL_RULES :: "rewrite_rule list" where
  "ALL_RULES =
     [Rule_ConsoleV3, Rule_JsBundle, Rule_FrontendIndexJsBundle, Rule_NamedProxyHtml,
      Rule_Ys1000Html, Rule_KubekeyAssetJs]"

text \<open>\<open>TryFrom<u8>\<close>; the error is the number.\<close>

definition rule_try_from :: "nat \<Rightarrow> (nat, rewrite_rule) outcome" where
  "rule_try_from number =
     (case find (\<lambda>rule. rule_number rule = number) ALL_RULES of
        Some rule \<Rightarrow> Ok rule
      | None \<Rightarrow> Err number)"

lemma ALL_RULES_complete [simp]: "rule \<in> set ALL_RULES"
  by (cases rule) (simp_all add: ALL_RULES_def)

lemma ALL_RULES_sorted: "sorted ALL_RULES \<and> distinct ALL_RULES"
  by (simp add: ALL_RULES_def less_eq_rewrite_rule_def)

lemma rule_try_from_number: "rule_try_from n = Ok rule \<longleftrightarrow> n = rule_number rule"
  by (cases rule) (auto simp: rule_try_from_def ALL_RULES_def split: option.splits if_splits)

section \<open>Constants\<close>

definition ALL_EXTENSIONS_WILDCARD :: bytes where "ALL_EXTENSIONS_WILDCARD = ''*''"
definition KUBEKEY_LEGACY_ROOT :: bytes where
  "KUBEKEY_LEGACY_ROOT = ''/57516e69-2cb0-4d48-a8a8-2833cfff87a9''"
definition KUBEKEY_NAME :: bytes where "KUBEKEY_NAME = ''kubekey''"
definition NAMED_PROXY_ROOT :: bytes where "NAMED_PROXY_ROOT = ''/proxy/''"
definition YS1000_NAME :: bytes where "YS1000_NAME = ''ys1000''"
definition YS1000_FRONTEND_NAME :: bytes where "YS1000_FRONTEND_NAME = ''ys1000-frontend''"
definition YS1000_FRONTEND_INDEX_PATH :: bytes where
  "YS1000_FRONTEND_INDEX_PATH = ''ys1000-frontend/index.js''"

section \<open>The policy\<close>

datatype rewrite_profile =
    ConsoleV3
  | FrontendIndexJsBundle
  | Ys1000FrontendIndexJsBundle
  | JsBundle
  | KubekeyAssetJs
  | NamedProxyHtml
  | Ys1000Html

datatype rewrite_decision =
    Bypass
  | Rewrite (dec_profile: rewrite_profile) (dec_extension: bytes) (dec_head_only: bool)

datatype extension_matcher = All | Allowlist "bytes set"

record rewrite_policy =
  rp_base_path :: bytes
  rp_extensions :: extension_matcher
  rp_disabled_extensions :: "bytes set"
  rp_enabled_rules :: "rewrite_rule set"

definition policy_from_matcher ::
  "bytes \<Rightarrow> extension_matcher \<Rightarrow> bytes set \<Rightarrow> rewrite_rule set \<Rightarrow> rewrite_policy" where
  "policy_from_matcher base_path extensions disabled_extensions enabled_rules =
     \<lparr>rp_base_path = trim_end_matches CHR ''/'' base_path, rp_extensions = extensions,
      rp_disabled_extensions = disabled_extensions, rp_enabled_rules = enabled_rules\<rparr>"

definition policy_new_with_rules ::
  "bytes \<Rightarrow> bytes list \<Rightarrow> bytes list \<Rightarrow> rewrite_rule list \<Rightarrow> rewrite_policy" where
  "policy_new_with_rules base_path enabled_extensions disabled_extensions enabled_rules =
     (let enabled = set enabled_extensions;
          extensions =
            (if card enabled = 1 \<and> ALL_EXTENSIONS_WILDCARD \<in> enabled then All else Allowlist enabled)
      in policy_from_matcher base_path extensions (set disabled_extensions) (set enabled_rules))"

definition policy_new_with_disabled_extensions ::
  "bytes \<Rightarrow> bytes list \<Rightarrow> bytes list \<Rightarrow> rewrite_policy" where
  "policy_new_with_disabled_extensions base_path enabled_extensions disabled_extensions =
     policy_new_with_rules base_path enabled_extensions disabled_extensions ALL_RULES"

definition policy_new :: "bytes \<Rightarrow> bytes list \<Rightarrow> rewrite_policy" where
  "policy_new base_path enabled_extensions =
     policy_new_with_disabled_extensions base_path enabled_extensions []"

definition policy_for_all_extensions :: "bytes \<Rightarrow> rewrite_policy" where
  "policy_for_all_extensions base_path = policy_new base_path [ALL_EXTENSIONS_WILDCARD]"

definition policy_for_allowlisted_extensions :: "bytes \<Rightarrow> bytes list \<Rightarrow> rewrite_policy" where
  "policy_for_allowlisted_extensions base_path enabled_extensions = policy_new base_path enabled_extensions"

section \<open>Names and assets\<close>

definition is_safe_extension_name :: "bytes \<Rightarrow> bool" where
  "is_safe_extension_name value \<longleftrightarrow>
     value \<noteq> [] \<and> length value \<le> 128
     \<and> (\<forall>b \<in> set value. is_ascii_alphanumeric b \<or> b \<in> {CHR ''-'', CHR ''_'', CHR ''.''})
     \<and> is_ascii_alphanumeric (hd value)"

definition is_text_asset :: "bytes \<Rightarrow> bool" where
  "is_text_asset asset_path =
     (let filename = after_last CHR ''/'' asset_path
      in list_ex (\<lambda>suf. suffix suf filename) [''.js'', ''.mjs'', ''.css'', ''.json'', ''.html'', ''.htm''])"

definition jsbundle_asset_path :: "bytes \<Rightarrow> bytes \<Rightarrow> bytes option" where
  "jsbundle_asset_path extension distribution_path =
     (case Option.bind (strip_prefix extension distribution_path) (strip_prefix ''/'') of
        Some asset \<Rightarrow> Some asset
      | None \<Rightarrow>
          Option.bind (strip_suffix ''-frontend'' extension) (\<lambda>distribution_name.
            Option.bind (strip_prefix distribution_name distribution_path) (strip_prefix ''/'')))"

definition is_extension_enabled :: "rewrite_policy \<Rightarrow> bytes \<Rightarrow> bool" where
  "is_extension_enabled P extension \<longleftrightarrow>
     is_safe_extension_name extension \<and> extension \<notin> rp_disabled_extensions P
     \<and> (case rp_extensions P of All \<Rightarrow> True | Allowlist enabled \<Rightarrow> extension \<in> enabled)"

definition is_rule_enabled :: "rewrite_policy \<Rightarrow> rewrite_rule \<Rightarrow> bool" where
  "is_rule_enabled P rule \<longleftrightarrow> rule \<in> rp_enabled_rules P"

section \<open>The decision\<close>

text \<open>
  The three parts of \<open>decide\<close>: each returns a decision, or \<open>None\<close> where the code falls through
  to the next part.
\<close>

definition then_some :: "bool \<Rightarrow> 'a \<Rightarrow> 'a option" where
  "then_some b x = (if b then Some x else None)"

definition named_proxy_profile :: "rewrite_policy \<Rightarrow> bytes \<Rightarrow> bytes \<Rightarrow> rewrite_profile option" where
  "named_proxy_profile P name asset_path =
     (if name = YS1000_NAME
      then (case then_some (is_rule_enabled P Rule_Ys1000Html) Ys1000Html of
              Some p \<Rightarrow> Some p
            | None \<Rightarrow> then_some (is_rule_enabled P Rule_NamedProxyHtml) NamedProxyHtml)
      else if asset_path \<noteq> [] \<and> suffix ''.js'' asset_path
      then then_some (name = KUBEKEY_NAME \<and> prefix ''assets/'' asset_path
                      \<and> is_rule_enabled P Rule_KubekeyAssetJs) KubekeyAssetJs
      else then_some (is_rule_enabled P Rule_NamedProxyHtml) NamedProxyHtml)"

definition decide_named_proxy :: "rewrite_policy \<Rightarrow> bytes \<Rightarrow> bytes \<Rightarrow> rewrite_decision option" where
  "decide_named_proxy P meth path =
     (case strip_prefix (rp_base_path P @ NAMED_PROXY_ROOT) path of
        None \<Rightarrow> None
      | Some proxy_path \<Rightarrow>
          (case split_once ''/'' proxy_path of
             None \<Rightarrow> None
           | Some (name, asset_path) \<Rightarrow>
               if name = [] then None
               else Some (case named_proxy_profile P name asset_path of
                            None \<Rightarrow> Bypass
                          | Some p \<Rightarrow> Rewrite p name (eq_ignore_ascii_case meth ''HEAD''))))"

definition jsbundle_profile :: "rewrite_policy \<Rightarrow> bytes \<Rightarrow> bytes \<Rightarrow> bytes \<Rightarrow> rewrite_profile option" where
  "jsbundle_profile P extension distribution_path asset_path =
     (let is_frontend_index = (suffix ''-frontend'' extension \<and> asset_path = ''index.js'');
          is_ys1000_frontend_index =
            (extension = YS1000_FRONTEND_NAME \<and> distribution_path = YS1000_FRONTEND_INDEX_PATH)
      in if is_frontend_index \<and> is_rule_enabled P Rule_FrontendIndexJsBundle
         then (if is_ys1000_frontend_index then Some Ys1000FrontendIndexJsBundle
               else Some FrontendIndexJsBundle)
         else if is_rule_enabled P Rule_JsBundle then Some JsBundle
         else None)"

definition decide_jsbundle :: "rewrite_policy \<Rightarrow> bytes \<Rightarrow> bytes \<Rightarrow> rewrite_decision option" where
  "decide_jsbundle P meth path =
     Option.bind (strip_prefix (rp_base_path P @ ''/jsbundles/'') path) (\<lambda>bundle_path.
     Option.bind (split_once ''/dist/'' bundle_path) (\<lambda>(extension, distribution_path).
     Option.bind (jsbundle_asset_path extension distribution_path) (\<lambda>asset_path.
       if is_extension_enabled P extension \<and> asset_path \<noteq> [] \<and> CHR ''/'' \<notin> set asset_path
          \<and> suffix ''.js'' asset_path
       then map_option (\<lambda>p. Rewrite p extension (eq_ignore_ascii_case meth ''HEAD''))
              (jsbundle_profile P extension distribution_path asset_path)
       else None)))"

definition decide_static :: "rewrite_policy \<Rightarrow> bytes \<Rightarrow> bytes \<Rightarrow> rewrite_decision" where
  "decide_static P meth path =
     (case strip_prefix (rp_base_path P @ ''/extensions-static/'') path of
        None \<Rightarrow> Bypass
      | Some extension_path \<Rightarrow>
          (case split_once ''/dist/v3dist/'' extension_path of
             None \<Rightarrow> Bypass
           | Some (extension, asset_path) \<Rightarrow>
               if extension = [] \<or> asset_path = [] \<or> CHR ''/'' \<in> set extension
                  \<or> \<not> is_rule_enabled P Rule_ConsoleV3 \<or> \<not> is_extension_enabled P extension
                  \<or> \<not> is_text_asset asset_path
               then Bypass
               else Rewrite ConsoleV3 extension (eq_ignore_ascii_case meth ''HEAD'')))"

definition decide :: "rewrite_policy \<Rightarrow> bytes \<Rightarrow> bytes \<Rightarrow> rewrite_decision" where
  "decide P meth path =
     (if rp_base_path P = []
         \<or> (\<not> eq_ignore_ascii_case meth ''GET'' \<and> \<not> eq_ignore_ascii_case meth ''HEAD'')
      then Bypass
      else case decide_named_proxy P meth path of
             Some d \<Rightarrow> d
           | None \<Rightarrow>
               (case decide_jsbundle P meth path of
                  Some d \<Rightarrow> d
                | None \<Rightarrow> decide_static P meth path))"

definition metrics_extension_label :: "rewrite_policy \<Rightarrow> rewrite_profile \<Rightarrow> bytes \<Rightarrow> bytes" where
  "metrics_extension_label P profile extension =
     (case profile of
        KubekeyAssetJs \<Rightarrow> ''kubekey-assets''
      | NamedProxyHtml \<Rightarrow> ''proxy-html''
      | Ys1000Html \<Rightarrow> ''ys1000-html''
      | _ \<Rightarrow> (case rp_extensions P of All \<Rightarrow> ALL_EXTENSIONS_WILDCARD | Allowlist _ \<Rightarrow> extension))"

end
