(* ===== verification/Policy_Correct.thy ===== *)
theory Policy_Correct
  imports Policy
begin

text \<open>
  What the rewrite policy promises: \<open>route\<close> states as a grammar of paths which requests are
  rewritten with which profile, and \<open>decide\<close> is shown to implement it. The safety properties of
  the decisions follow from the grammar by rule induction.
\<close>

section \<open>The grammar of rewritten paths\<close>

inductive route :: "rewrite_policy \<Rightarrow> bytes \<Rightarrow> rewrite_profile \<Rightarrow> bytes \<Rightarrow> bool" for P where
  ys1000_html:
    "is_rule_enabled P Rule_Ys1000Html \<Longrightarrow>
       route P (rp_base_path P @ ''/proxy/ys1000/'' @ asset) Ys1000Html ''ys1000''"
| ys1000_as_named_proxy:
    "\<not> is_rule_enabled P Rule_Ys1000Html \<Longrightarrow> is_rule_enabled P Rule_NamedProxyHtml \<Longrightarrow>
       route P (rp_base_path P @ ''/proxy/ys1000/'' @ asset) NamedProxyHtml ''ys1000''"
| named_proxy_html:
    "is_rule_enabled P Rule_NamedProxyHtml \<Longrightarrow> name \<noteq> [] \<Longrightarrow> CHR ''/'' \<notin> set name \<Longrightarrow>
       name \<noteq> ''ys1000'' \<Longrightarrow> \<not> suffix ''.js'' asset \<Longrightarrow>
       route P (rp_base_path P @ ''/proxy/'' @ name @ ''/'' @ asset) NamedProxyHtml name"
| kubekey_asset:
    "is_rule_enabled P Rule_KubekeyAssetJs \<Longrightarrow> suffix ''.js'' asset \<Longrightarrow> prefix ''assets/'' asset \<Longrightarrow>
       route P (rp_base_path P @ ''/proxy/kubekey/'' @ asset) KubekeyAssetJs ''kubekey''"
| frontend_index:
    "is_rule_enabled P Rule_FrontendIndexJsBundle \<Longrightarrow> is_extension_enabled P ext \<Longrightarrow>
       ext = name @ ''-frontend'' \<Longrightarrow> dist = ext \<or> dist = name \<Longrightarrow> \<not> (ext = ''ys1000-frontend'' \<and> dist = ext) \<Longrightarrow>
       route P (rp_base_path P @ ''/jsbundles/'' @ ext @ ''/dist/'' @ dist @ ''/index.js'')
         FrontendIndexJsBundle ext"
| ys1000_frontend_index:
    "is_rule_enabled P Rule_FrontendIndexJsBundle \<Longrightarrow> is_extension_enabled P ''ys1000-frontend'' \<Longrightarrow>
       route P (rp_base_path P @ ''/jsbundles/ys1000-frontend/dist/ys1000-frontend/index.js'')
         Ys1000FrontendIndexJsBundle ''ys1000-frontend''"
| js_bundle:
    "is_rule_enabled P Rule_JsBundle \<Longrightarrow> is_extension_enabled P ext \<Longrightarrow>
       dist = ext \<or> ext = dist @ ''-frontend'' \<Longrightarrow>
       CHR ''/'' \<notin> set asset \<Longrightarrow> suffix ''.js'' asset \<Longrightarrow>
       \<not> (suffix ''-frontend'' ext \<and> asset = ''index.js'' \<and> is_rule_enabled P Rule_FrontendIndexJsBundle) \<Longrightarrow>
       route P (rp_base_path P @ ''/jsbundles/'' @ ext @ ''/dist/'' @ dist @ ''/'' @ asset) JsBundle ext"
| console_v3:
    "is_rule_enabled P Rule_ConsoleV3 \<Longrightarrow> is_extension_enabled P ext \<Longrightarrow> is_text_asset asset \<Longrightarrow>
       route P (rp_base_path P @ ''/extensions-static/'' @ ext @ ''/dist/v3dist/'' @ asset) ConsoleV3 ext"

section \<open>The parts of the decision\<close>

lemma safe_name_no_slash: "is_safe_extension_name ext \<Longrightarrow> CHR ''/'' \<notin> set ext"
  by (auto simp: is_safe_extension_name_def is_ascii_alphanumeric_def is_ascii_alphabetic_def
      is_ascii_digit_def Let_def)

lemma enabled_no_slash: "is_extension_enabled P ext \<Longrightarrow> CHR ''/'' \<notin> set ext \<and> ext \<noteq> []"
  by (simp add: is_extension_enabled_def safe_name_no_slash) (simp add: is_safe_extension_name_def)

definition decision_of :: "bytes \<Rightarrow> bytes \<Rightarrow> rewrite_profile option \<Rightarrow> rewrite_decision" where
  "decision_of m ext profile =
     (case profile of None \<Rightarrow> Bypass | Some p \<Rightarrow> Rewrite p ext (eq_ignore_ascii_case m ''HEAD''))"

lemma decide_named_proxy_Some_iff:
  "decide_named_proxy P m path = Some d \<longleftrightarrow>
     (\<exists>name asset. path = rp_base_path P @ ''/proxy/'' @ name @ ''/'' @ asset
        \<and> name \<noteq> [] \<and> CHR ''/'' \<notin> set name \<and> d = decision_of m name (named_proxy_profile P name asset))"
  (is "?l \<longleftrightarrow> ?r")
proof
  assume ?l
  then obtain name asset where "path = (rp_base_path P @ NAMED_PROXY_ROOT) @ name @ CHR ''/'' # asset"
    "CHR ''/'' \<notin> set name" "name \<noteq> []" "d = decision_of m name (named_proxy_profile P name asset)"
    by (auto simp: decide_named_proxy_def decision_of_def strip_prefix_Some_iff
        split_once_byte_iff simp flip: append_assoc split: option.splits if_splits)
  then show ?r by (auto simp: NAMED_PROXY_ROOT_def)
next
  assume ?r
  then obtain name asset where path: "path = (rp_base_path P @ NAMED_PROXY_ROOT) @ name @ CHR ''/'' # asset"
    and name: "CHR ''/'' \<notin> set name" "name \<noteq> []" and d: "d = decision_of m name (named_proxy_profile P name asset)"
    by (auto simp: NAMED_PROXY_ROOT_def)
  have "split_once ''/'' (name @ CHR ''/'' # asset) = Some (name, asset)"
    using name by (simp add: split_once_byte_iff)
  then show ?l
    unfolding decide_named_proxy_def path strip_prefix_append
    using name d by (simp add: decision_of_def)
qed

lemma jsbundle_asset_path_Some_iff:
  "jsbundle_asset_path ext dp = Some asset \<longleftrightarrow>
     (\<exists>dist. dp = dist @ ''/'' @ asset \<and> (dist = ext \<or> ext = dist @ ''-frontend''))"
proof -
  have ext: "Option.bind (strip_prefix ext dp) (strip_prefix ''/'') = Some a \<longleftrightarrow> dp = ext @ ''/'' @ a" for a
    by (simp add: bind_eq_Some_conv strip_prefix_Some_iff)
  have front: "Option.bind (strip_suffix ''-frontend'' ext) (\<lambda>name.
      Option.bind (strip_prefix name dp) (strip_prefix ''/'')) = Some a \<longleftrightarrow>
      (\<exists>dist. dp = dist @ ''/'' @ a \<and> ext = dist @ ''-frontend'')" for a
    by (auto simp: bind_eq_Some_conv strip_prefix_Some_iff strip_suffix_Some_iff)
  show ?thesis
  proof (cases "Option.bind (strip_prefix ext dp) (strip_prefix ''/'')")
    case None
    then have "dp \<noteq> ext @ ''/'' @ asset" by (metis ext option.distinct(1))
    with None front [of asset] show ?thesis by (auto simp: jsbundle_asset_path_def)
  next
    case (Some a)
    then have dp: "dp = ext @ ''/'' @ a" by (simp only: ext)
    have "dp \<noteq> dist @ ''/'' @ b" if "ext = dist @ ''-frontend''" for dist b
      using that dp by simp
    with Some dp show ?thesis by (auto simp: jsbundle_asset_path_def)
  qed
qed

lemma decide_jsbundle_Some_iff:
  "decide_jsbundle P m path = Some d \<longleftrightarrow>
     (\<exists>ext dist asset p. path = rp_base_path P @ ''/jsbundles/'' @ ext @ ''/dist/'' @ dist @ ''/'' @ asset
        \<and> (dist = ext \<or> ext = dist @ ''-frontend'')
        \<and> is_extension_enabled P ext \<and> CHR ''/'' \<notin> set asset \<and> suffix ''.js'' asset
        \<and> jsbundle_profile P ext (dist @ ''/'' @ asset) asset = Some p
        \<and> d = Rewrite p ext (eq_ignore_ascii_case m ''HEAD''))" (is "?l \<longleftrightarrow> ?r")
proof
  assume ?l
  then obtain ext dp asset p where path: "path = rp_base_path P @ ''/jsbundles/'' @ ext @ ''/dist/'' @ dp"
    and asset: "jsbundle_asset_path ext dp = Some asset"
    and ok: "is_extension_enabled P ext" "CHR ''/'' \<notin> set asset" "suffix ''.js'' asset"
    and p: "jsbundle_profile P ext dp asset = Some p" "d = Rewrite p ext (eq_ignore_ascii_case m ''HEAD'')"
    by (auto simp: decide_jsbundle_def bind_eq_Some_conv strip_prefix_Some_iff split_once_Some_iff
        split: if_splits)
  from asset obtain dist where "dp = dist @ ''/'' @ asset" "dist = ext \<or> ext = dist @ ''-frontend''"
    by (auto simp: jsbundle_asset_path_Some_iff)
  with path ok p show ?r by auto
next
  assume ?r
  then obtain ext dist asset p
    where path: "path = (rp_base_path P @ ''/jsbundles/'') @ ext @ ''/dist/'' @ dist @ ''/'' @ asset"
      and dist: "dist = ext \<or> ext = dist @ ''-frontend''"
      and ok: "is_extension_enabled P ext" "CHR ''/'' \<notin> set asset" "suffix ''.js'' asset"
      and p: "jsbundle_profile P ext (dist @ ''/'' @ asset) asset = Some p"
        "d = Rewrite p ext (eq_ignore_ascii_case m ''HEAD'')"
    by auto
  let ?dp = "dist @ ''/'' @ asset"
  have "split_once ''/dist/'' (ext @ ''/dist/'' @ ?dp) = Some (ext, ?dp)"
    using split_once_at [of "CHR ''/''" ext "''dist/''" ?dp] enabled_no_slash [OF ok(1)] by simp
  moreover have "jsbundle_asset_path ext ?dp = Some asset" using dist by (auto simp: jsbundle_asset_path_Some_iff)
  moreover have "asset \<noteq> []" using ok(3) by auto
  ultimately show ?l using ok p
    unfolding decide_jsbundle_def path strip_prefix_append by simp
qed

lemma is_text_asset_nonempty: "is_text_asset asset \<Longrightarrow> asset \<noteq> []"
  by (auto simp: is_text_asset_def after_last_def)

lemma decide_static_Rewrite_iff:
  "decide_static P m path = Rewrite p ext h \<longleftrightarrow>
     (\<exists>asset. path = rp_base_path P @ ''/extensions-static/'' @ ext @ ''/dist/v3dist/'' @ asset
        \<and> is_rule_enabled P Rule_ConsoleV3 \<and> is_extension_enabled P ext \<and> is_text_asset asset
        \<and> p = ConsoleV3 \<and> h = eq_ignore_ascii_case m ''HEAD'')" (is "?l \<longleftrightarrow> ?r")
proof
  assume ?l
  then show ?r
    by (auto simp: decide_static_def strip_prefix_Some_iff split_once_Some_iff
        split: option.splits if_splits)
next
  assume ?r
  then obtain asset
    where path: "path = (rp_base_path P @ ''/extensions-static/'') @ ext @ ''/dist/v3dist/'' @ asset"
      and ok: "is_rule_enabled P Rule_ConsoleV3" "is_extension_enabled P ext" "is_text_asset asset"
      and ph: "p = ConsoleV3" "h = eq_ignore_ascii_case m ''HEAD''"
    by auto
  have "split_once ''/dist/v3dist/'' (ext @ ''/dist/v3dist/'' @ asset) = Some (ext, asset)"
    using split_once_at [of "CHR ''/''" ext "''dist/v3dist/''" asset] enabled_no_slash [OF ok(2)] by simp
  then show ?l
    unfolding decide_static_def path strip_prefix_append
    using ok ph enabled_no_slash [OF ok(2)] is_text_asset_nonempty [OF ok(3)] by simp
qed

text \<open>A path of one part of the decision is none of another.\<close>

lemma not_named_proxy:
  "decide_named_proxy P m (rp_base_path P @ ''/jsbundles/'' @ r) = None"
  "decide_named_proxy P m (rp_base_path P @ ''/extensions-static/'' @ r) = None"
  by (simp_all add: decide_named_proxy_def NAMED_PROXY_ROOT_def strip_prefix_def)

lemma not_jsbundle: "decide_jsbundle P m (rp_base_path P @ ''/extensions-static/'' @ r) = None"
  by (simp add: decide_jsbundle_def strip_prefix_def)

text \<open>Both directions of the refinement, part by part.\<close>

lemma named_proxy_route:
  assumes "decide_named_proxy P m path = Some (Rewrite p ext h)"
  shows "h = eq_ignore_ascii_case m ''HEAD'' \<and> route P path p ext"
proof -
  from assms obtain name asset where path: "path = rp_base_path P @ ''/proxy/'' @ name @ ''/'' @ asset"
    and name: "name \<noteq> []" "CHR ''/'' \<notin> set name"
    and p: "named_proxy_profile P name asset = Some p" and d: "ext = name" "h = eq_ignore_ascii_case m ''HEAD''"
    by (auto simp: decide_named_proxy_Some_iff decision_of_def split: option.splits)
  have "route P path p name"
  proof (cases "name = ''ys1000''")
    case True
    with p route.ys1000_html [of P asset] route.ys1000_as_named_proxy [of P asset] show ?thesis
      by (auto simp: path named_proxy_profile_def YS1000_NAME_def then_some_def split: if_splits)
  next
    case False
    with p route.named_proxy_html [OF _ name False, of P asset] route.kubekey_asset [of P asset] show ?thesis
      by (auto simp: path named_proxy_profile_def YS1000_NAME_def KUBEKEY_NAME_def then_some_def split: if_splits)
  qed
  with d show ?thesis by simp
qed

lemma jsbundle_route:
  assumes "decide_jsbundle P m path = Some d"
  shows "\<exists>p ext. d = Rewrite p ext (eq_ignore_ascii_case m ''HEAD'') \<and> route P path p ext"
proof -
  from assms obtain ext dist asset p
    where path: "path = rp_base_path P @ ''/jsbundles/'' @ ext @ ''/dist/'' @ dist @ ''/'' @ asset"
      and dist: "dist = ext \<or> ext = dist @ ''-frontend''"
      and ok: "is_extension_enabled P ext" "CHR ''/'' \<notin> set asset" "suffix ''.js'' asset"
      and p: "jsbundle_profile P ext (dist @ ''/'' @ asset) asset = Some p"
      and d: "d = Rewrite p ext (eq_ignore_ascii_case m ''HEAD'')"
    by (auto simp: decide_jsbundle_Some_iff)
  have "route P path p ext"
  proof (cases "suffix ''-frontend'' ext \<and> asset = ''index.js'' \<and> is_rule_enabled P Rule_FrontendIndexJsBundle")
    case False
    with p have "p = JsBundle" "is_rule_enabled P Rule_JsBundle"
      by (auto simp: jsbundle_profile_def split: if_splits)
    with route.js_bundle [OF _ ok(1) dist ok(2,3) False] show ?thesis by (simp add: path)
  next
    case True
    then obtain name where name: "ext = name @ ''-frontend''" and asset: "asset = ''index.js''"
      and rule: "is_rule_enabled P Rule_FrontendIndexJsBundle" by (auto simp: suffix_def)
    show ?thesis
    proof (cases "ext = ''ys1000-frontend'' \<and> dist = ext")
      case ys: True
      then have "p = Ys1000FrontendIndexJsBundle"
        using p True by (simp add: jsbundle_profile_def YS1000_FRONTEND_NAME_def YS1000_FRONTEND_INDEX_PATH_def)
      with route.ys1000_frontend_index [OF rule] ok(1) ys asset show ?thesis by (simp add: path)
    next
      case no: False
      then have "\<not> (ext = ''ys1000-frontend'' \<and> dist @ ''/index.js'' = ''ys1000-frontend/index.js'')"
        by auto
      then have "p = FrontendIndexJsBundle"
        using p True by (simp add: jsbundle_profile_def YS1000_FRONTEND_NAME_def YS1000_FRONTEND_INDEX_PATH_def asset split: if_splits)
      moreover have "dist = ext \<or> dist = name" using dist name by auto
      ultimately show ?thesis
        using route.frontend_index [OF rule ok(1) name _ no] by (simp add: path asset)
    qed
  qed
  with d show ?thesis by blast
qed

lemma jsbundle_decides:
  assumes "dist = ext \<or> ext = dist @ ''-frontend''" "is_extension_enabled P ext" "CHR ''/'' \<notin> set asset"
    "suffix ''.js'' asset" "jsbundle_profile P ext (dist @ ''/'' @ asset) asset = Some p"
  shows "decide_jsbundle P m (rp_base_path P @ ''/jsbundles/'' @ ext @ ''/dist/'' @ dist @ ''/'' @ asset)
    = Some (Rewrite p ext (eq_ignore_ascii_case m ''HEAD''))"
  unfolding decide_jsbundle_Some_iff using assms by blast

lemma named_proxy_decides:
  assumes "name \<noteq> []" "CHR ''/'' \<notin> set name" "named_proxy_profile P name asset = Some p"
  shows "decide_named_proxy P m (rp_base_path P @ ''/proxy/'' @ name @ ''/'' @ asset)
    = Some (Rewrite p name (eq_ignore_ascii_case m ''HEAD''))"
  unfolding decide_named_proxy_Some_iff using assms
  by (intro exI [of _ name] exI [of _ asset]) (simp add: decision_of_def)

definition first_decision :: "rewrite_policy \<Rightarrow> bytes \<Rightarrow> bytes \<Rightarrow> rewrite_decision" where
  "first_decision P m path =
     (case decide_named_proxy P m path of
        Some d \<Rightarrow> d
      | None \<Rightarrow> (case decide_jsbundle P m path of Some d \<Rightarrow> d | None \<Rightarrow> decide_static P m path))"

lemmas profile_simps =
  named_proxy_profile_def jsbundle_profile_def then_some_def YS1000_NAME_def KUBEKEY_NAME_def
  YS1000_FRONTEND_NAME_def YS1000_FRONTEND_INDEX_PATH_def

lemma route_decides:
  "route P path p ext \<Longrightarrow> first_decision P m path = Rewrite p ext (eq_ignore_ascii_case m ''HEAD'')"
proof (induction rule: route.induct)
  case (ys1000_html asset)
  with named_proxy_decides [of "''ys1000''" P asset Ys1000Html m] show ?case
    by (simp add: first_decision_def profile_simps)
next
  case (ys1000_as_named_proxy asset)
  with named_proxy_decides [of "''ys1000''" P asset NamedProxyHtml m] show ?case
    by (simp add: first_decision_def profile_simps)
next
  case (named_proxy_html name asset)
  with named_proxy_decides [of name P asset NamedProxyHtml m] show ?case
    by (simp add: first_decision_def profile_simps)
next
  case (kubekey_asset asset)
  then have "asset \<noteq> []" by auto
  with kubekey_asset named_proxy_decides [of "''kubekey''" P asset KubekeyAssetJs m] show ?case
    by (simp add: first_decision_def profile_simps)
next
  case (frontend_index ext name dist)
  then have "jsbundle_profile P ext (dist @ ''/index.js'') ''index.js'' = Some FrontendIndexJsBundle"
    by (auto simp: profile_simps suffix_def)
  moreover have "suffix ''.js'' ''index.js''" by (simp add: suffix_def)
  ultimately show ?case
    using frontend_index jsbundle_decides [of dist ext P "''index.js''" FrontendIndexJsBundle m]
    not_named_proxy(1) [of P m]
    by (auto simp: first_decision_def)
next
  case ys1000_frontend_index
  then have "jsbundle_profile P ''ys1000-frontend'' (''ys1000-frontend'' @ ''/'' @ ''index.js'') ''index.js''
      = Some Ys1000FrontendIndexJsBundle"
    by (simp add: profile_simps suffix_def)
  from jsbundle_decides [OF _ ys1000_frontend_index(2) _ _ this, of m] not_named_proxy(1) [of P m]
  show ?case by (simp add: first_decision_def suffix_def)
next
  case (js_bundle ext dist asset)
  then have "jsbundle_profile P ext (dist @ ''/'' @ asset) asset = Some JsBundle"
    by (auto simp: profile_simps)
  from jsbundle_decides [OF js_bundle(3,2,4,5) this, of m] not_named_proxy(1) [of P m]
  show ?case by (simp add: first_decision_def)
next
  case (console_v3 ext asset)
  then have "decide_static P m (rp_base_path P @ ''/extensions-static/'' @ ext @ ''/dist/v3dist/'' @ asset)
      = Rewrite ConsoleV3 ext (eq_ignore_ascii_case m ''HEAD'')"
    by (subst decide_static_Rewrite_iff) blast
  with not_named_proxy(2) [of P m] not_jsbundle [of P m] show ?case by (simp add: first_decision_def)
qed

lemma decision_routes:
  assumes "first_decision P m path = Rewrite p ext h"
  shows "h = eq_ignore_ascii_case m ''HEAD'' \<and> route P path p ext"
proof (cases "decide_named_proxy P m path")
  case (Some d)
  with assms named_proxy_route [of P m path p ext h] show ?thesis by (simp add: first_decision_def)
next
  case None
  show ?thesis
  proof (cases "decide_jsbundle P m path")
    case (Some d)
    with assms None jsbundle_route [OF Some] show ?thesis by (auto simp: first_decision_def)
  next
    case no: None
    with assms None have "decide_static P m path = Rewrite p ext h" by (simp add: first_decision_def)
    then show ?thesis using route.console_v3 by (auto simp: decide_static_Rewrite_iff)
  qed
qed

text \<open>
  C8. The decision procedure implements the grammar: a request is rewritten with a profile for
  an extension exactly when the base path is not the root, the method is GET or HEAD in any
  case and the path has the form that the grammar gives that profile; HEAD requests are marked
  as such.
\<close>

theorem decide_implements_route:
  "decide P m path = Rewrite p ext h \<longleftrightarrow>
     rp_base_path P \<noteq> [] \<and> (eq_ignore_ascii_case m ''GET'' \<or> eq_ignore_ascii_case m ''HEAD'')
     \<and> h = eq_ignore_ascii_case m ''HEAD'' \<and> route P path p ext"
proof -
  have "decide P m path =
      (if rp_base_path P = [] \<or> (\<not> eq_ignore_ascii_case m ''GET'' \<and> \<not> eq_ignore_ascii_case m ''HEAD'')
       then Bypass else first_decision P m path)"
    by (simp add: decide_def first_decision_def)
  with decision_routes [of P m path p ext h] route_decides [of P path p ext m] show ?thesis by auto
qed

section \<open>Safety of decisions\<close>

fun profile_rule :: "rewrite_profile \<Rightarrow> rewrite_rule" where
  "profile_rule ConsoleV3 = Rule_ConsoleV3"
| "profile_rule FrontendIndexJsBundle = Rule_FrontendIndexJsBundle"
| "profile_rule Ys1000FrontendIndexJsBundle = Rule_FrontendIndexJsBundle"
| "profile_rule JsBundle = Rule_JsBundle"
| "profile_rule KubekeyAssetJs = Rule_KubekeyAssetJs"
| "profile_rule NamedProxyHtml = Rule_NamedProxyHtml"
| "profile_rule Ys1000Html = Rule_Ys1000Html"

definition proxy_profile :: "rewrite_profile \<Rightarrow> bool" where
  "proxy_profile p \<longleftrightarrow> p \<in> {KubekeyAssetJs, NamedProxyHtml, Ys1000Html}"

lemma route_safe:
  "route P path p ext \<Longrightarrow>
     is_rule_enabled P (profile_rule p) \<and> prefix (rp_base_path P @ ''/'') path
     \<and> ext \<noteq> [] \<and> CHR ''/'' \<notin> set ext \<and> (proxy_profile p \<or> is_extension_enabled P ext)"
  by (induction rule: route.induct) (auto simp: proxy_profile_def dest: enabled_no_slash)

lemma decide_route: "decide P m path = Rewrite p ext h \<Longrightarrow> route P path p ext"
  using decision_routes [of P m path p ext h]
  by (simp add: decide_def first_decision_def split: if_splits)

lemma safe_name_utf8: "is_safe_extension_name ext \<Longrightarrow> utf8_valid ext"
  by (rule utf8_valid_ascii)
    (fastforce simp: is_safe_extension_name_def is_ascii_alphanumeric_def is_ascii_alphabetic_def
      is_ascii_digit_def Let_def)

lemma route_utf8: "route P path p ext \<Longrightarrow> utf8_valid path \<Longrightarrow> utf8_valid ext"
proof (induction rule: route.induct)
  case (named_proxy_html name asset)
  have slash: "utf8_valid ''/''" by code_simp
  from named_proxy_html have "utf8_valid ((rp_base_path P @ ''/proxy'') @ ''/'' @ name @ ''/'' @ asset)" by simp
  from utf8_valid_needle(2) [OF this slash] utf8_valid_needle(1) [of name "''/''" asset] slash
  show ?case by simp
qed (auto simp: is_extension_enabled_def intro: safe_name_utf8, code_simp+)

lemma decide_utf8: "decide P m path = Rewrite p ext h \<Longrightarrow> utf8_valid path \<Longrightarrow> utf8_valid ext"
  by (rule route_utf8 [OF decide_route])

text \<open>
  C22. A request that is rewritten lies under the base path, its rule is enabled, the extension
  name is not empty and contains no slash, and unless it is a page or an asset of a named proxy
  the extension is enabled: a safe name that is allowed and not in the list of disabled ones.
\<close>

theorem decide_safe:
  assumes "decide P m path = Rewrite p ext h"
  shows "is_rule_enabled P (profile_rule p) \<and> prefix (rp_base_path P @ ''/'') path
    \<and> ext \<noteq> [] \<and> CHR ''/'' \<notin> set ext
    \<and> (proxy_profile p \<or> (is_safe_extension_name ext \<and> ext \<notin> rp_disabled_extensions P
         \<and> (rp_extensions P = All \<or> (\<exists>allowed. rp_extensions P = Allowlist allowed \<and> ext \<in> allowed))))"
  using route_safe [OF decide_route [OF assms]]
  by (auto simp: is_extension_enabled_def split: extension_matcher.splits)

definition sample_policy :: rewrite_policy where
  "sample_policy = policy_new_with_rules ''/b/'' [''a'', ''a-frontend''] [''off''] ALL_RULES"

theorem decide_safe_witness:
  "is_safe_extension_name ''a'' \<and> ''a'' \<notin> rp_disabled_extensions sample_policy"
proof -
  have "decide sample_policy ''get'' ''/b/jsbundles/a/dist/a/m.js'' = Rewrite JsBundle ''a'' False"
    by code_simp
  from decide_safe [OF this] show ?thesis by (simp add: proxy_profile_def)
qed

section \<open>Disabling a rule\<close>

definition without_rule :: "rewrite_rule \<Rightarrow> rewrite_policy \<Rightarrow> rewrite_policy" where
  "without_rule r P = P\<lparr>rp_enabled_rules := rp_enabled_rules P - {r}\<rparr>"

text \<open>What takes over when the rule of a profile is disabled.\<close>

fun fallback_profile :: "rewrite_profile \<Rightarrow> rewrite_profile option" where
  "fallback_profile FrontendIndexJsBundle = Some JsBundle"
| "fallback_profile Ys1000FrontendIndexJsBundle = Some JsBundle"
| "fallback_profile Ys1000Html = Some NamedProxyHtml"
| "fallback_profile _ = None"

definition after_disabling :: "rewrite_rule \<Rightarrow> rewrite_policy \<Rightarrow> rewrite_profile \<Rightarrow> rewrite_profile option" where
  "after_disabling r P p =
     (if profile_rule p \<noteq> r then Some p
      else case fallback_profile p of
             Some q \<Rightarrow> if is_rule_enabled P (profile_rule q) then Some q else None
           | None \<Rightarrow> None)"

lemma named_proxy_profile_without:
  "named_proxy_profile (without_rule r P) name asset =
     Option.bind (named_proxy_profile P name asset) (after_disabling r P)"
  by (cases r) (auto simp: profile_simps after_disabling_def without_rule_def is_rule_enabled_def)

lemma jsbundle_profile_without:
  "jsbundle_profile (without_rule r P) ext dp asset =
     Option.bind (jsbundle_profile P ext dp asset) (after_disabling r P)"
  by (cases r) (auto simp: profile_simps after_disabling_def without_rule_def is_rule_enabled_def Let_def)

lemma without_rule_sel [simp]:
  "rp_base_path (without_rule r P) = rp_base_path P" "is_extension_enabled (without_rule r P) = is_extension_enabled P"
  by (simp_all add: without_rule_def is_extension_enabled_def fun_eq_iff)

lemma static_only_console:
  "decide_static P m path = d \<Longrightarrow> d = Bypass \<or> (\<exists>ext. d = Rewrite ConsoleV3 ext (eq_ignore_ascii_case m ''HEAD''))"
  by (auto simp: decide_static_def split: option.splits)

definition redecide :: "rewrite_rule \<Rightarrow> rewrite_policy \<Rightarrow> rewrite_decision \<Rightarrow> rewrite_decision" where
  "redecide r P d =
     (case d of
        Bypass \<Rightarrow> Bypass
      | Rewrite p ext h \<Rightarrow> (case after_disabling r P p of Some q \<Rightarrow> Rewrite q ext h | None \<Rightarrow> Bypass))"

lemma decide_named_proxy_without:
  "decide_named_proxy (without_rule r P) m path = map_option (redecide r P) (decide_named_proxy P m path)"
  by (auto simp: decide_named_proxy_def named_proxy_profile_without redecide_def
      split: option.splits)

lemma decide_static_without:
  "decide_static (without_rule r P) m path = redecide r P (decide_static P m path)"
  by (auto simp: decide_static_def redecide_def after_disabling_def is_rule_enabled_def without_rule_def
      is_extension_enabled_def split: option.splits)

lemma decide_jsbundle_without:
  "decide_jsbundle (without_rule r P) m path =
     Option.bind (decide_jsbundle P m path)
       (\<lambda>d. case redecide r P d of Bypass \<Rightarrow> None | d' \<Rightarrow> Some d')"
  by (auto simp: decide_jsbundle_def jsbundle_profile_without redecide_def
      split: Option.bind_splits prod.splits option.splits)

lemma jsbundle_not_static: "decide_jsbundle P m path \<noteq> None \<Longrightarrow> decide_static P m path = Bypass"
  by (auto simp: decide_jsbundle_Some_iff decide_static_def strip_prefix_def)

text \<open>
  C32. Disabling one rule changes exactly the decisions of its own profiles: the frontend index
  and the ys1000 page fall back to the generic rule of their kind when that is enabled, every
  other request of the disabled rule is passed through, and all other decisions stay the same.
\<close>

theorem decide_without_rule:
  "decide (without_rule r P) m path = redecide r P (decide P m path)"
proof -
  let ?Q = "without_rule r P"
  have "first_decision ?Q m path = redecide r P (first_decision P m path)"
  proof (cases "decide_named_proxy P m path")
    case (Some d)
    then show ?thesis by (simp add: first_decision_def decide_named_proxy_without)
  next
    case None
    then have named: "decide_named_proxy ?Q m path = None" by (simp add: decide_named_proxy_without)
    show ?thesis
    proof (cases "decide_jsbundle P m path")
      case no: None
      with None named show ?thesis
        by (simp add: first_decision_def decide_jsbundle_without decide_static_without)
    next
      case (Some d)
      then have "decide_static ?Q m path = Bypass"
        by (simp add: jsbundle_not_static decide_static_without redecide_def)
      with None Some named show ?thesis
        by (cases "redecide r P d") (simp_all add: first_decision_def decide_jsbundle_without)
    qed
  qed
  moreover have "redecide r P Bypass = Bypass" by (simp add: redecide_def)
  ultimately show ?thesis by (simp add: decide_def first_decision_def)
qed

section \<open>Configuration of the policy\<close>

lemma new_with_rules_extension:
  "is_extension_enabled (policy_new_with_rules base enabled disabled rules) ext \<longleftrightarrow>
     is_safe_extension_name ext \<and> ext \<notin> set disabled \<and> (set enabled = {''*''} \<or> ext \<in> set enabled)"
proof -
  have card: "card (set enabled) = 1 \<and> ''*'' \<in> set enabled \<longleftrightarrow> set enabled = {''*''}"
  proof
    assume "card (set enabled) = 1 \<and> ''*'' \<in> set enabled"
    then have one: "card (set enabled) = 1" and star: "''*'' \<in> set enabled" by (rule conjunct1, rule conjunct2)
    from one obtain x where "set enabled = {x}" by (rule card_1_singletonE)
    with star show "set enabled = {''*''}" by (simp only: singleton_iff)
  next
    assume "set enabled = {''*''}"
    then show "card (set enabled) = 1 \<and> ''*'' \<in> set enabled" by simp
  qed
  have "rp_extensions (policy_new_with_rules base enabled disabled rules) =
      (if set enabled = {''*''} then All else Allowlist (set enabled))"
    unfolding policy_new_with_rules_def policy_from_matcher_def ALL_EXTENSIONS_WILDCARD_def Let_def card
    by simp
  moreover have "rp_disabled_extensions (policy_new_with_rules base enabled disabled rules) = set disabled"
    by (simp add: policy_new_with_rules_def policy_from_matcher_def Let_def)
  ultimately show ?thesis
    by (simp add: is_extension_enabled_def)
qed

text \<open>
  A policy built from configuration lists allows an extension exactly when its name is safe,
  it is not listed as disabled, and either it is listed itself or the list of enabled
  extensions is the wildcard alone; the wildcard next to other names allows nothing more. The
  base path of a policy never ends in a slash.
\<close>

theorem policy_extensions:
  "(is_extension_enabled (policy_new_with_rules base enabled disabled rules) ext \<longleftrightarrow>
     is_safe_extension_name ext \<and> ext \<notin> set disabled
     \<and> (set enabled = {''*''} \<or> ext \<in> set enabled))
   \<and> \<not> suffix ''/'' (rp_base_path (policy_new_with_rules base enabled disabled rules))"
  by (simp add: new_with_rules_extension)
    (simp add: policy_new_with_rules_def policy_from_matcher_def Let_def trim_end_matches_end)

text \<open>
  C38. The metrics label of a rewritten request is one of three fixed labels, the wildcard, or,
  under an allow list, one of the listed extensions: paths cannot create new label values.
\<close>

theorem metrics_label_bounded:
  assumes "decide P m path = Rewrite p ext h"
  shows "metrics_extension_label P p ext \<in> {''kubekey-assets'', ''proxy-html'', ''ys1000-html'', ''*''}
    \<or> (\<exists>allowed. rp_extensions P = Allowlist allowed \<and> metrics_extension_label P p ext \<in> allowed)"
  using route_safe [OF decide_route [OF assms]]
  by (cases p)
    (auto simp: metrics_extension_label_def ALL_EXTENSIONS_WILDCARD_def proxy_profile_def
      is_extension_enabled_def split: extension_matcher.splits)

theorem metrics_label_bounded_witness:
  "metrics_extension_label sample_policy JsBundle ''a'' \<in> {''a'', ''a-frontend''}"
proof -
  have "decide sample_policy ''GET'' ''/b/jsbundles/a/dist/a/m.js'' = Rewrite JsBundle ''a'' False"
    by code_simp
  from metrics_label_bounded [OF this]
  show ?thesis
    by (auto simp: metrics_extension_label_def sample_policy_def policy_new_with_rules_def
        policy_from_matcher_def ALL_EXTENSIONS_WILDCARD_def)
qed

end
