(* ===== verification/Mig_Meta.thy ===== *)
theory Mig_Meta
  imports Rust_Str
begin

text \<open>
  The rewriting of the embedded metadata of the ys1000 page, \<open>rewrite_mig_meta_base_uri\<close> of
  \<open>src/rewrite.rs\<close>: every assignment \<open>window._mig_meta = '...'\<close> whose quoted text is the Base64
  encoding of a JSON object with the root \<open>baseURI\<close> gets the base path. The crates \<open>base64\<close> and
  \<open>serde_json\<close> are a parameter, a record of the functions that are called.
\<close>

section \<open>The codec crates\<close>

record 'json codec_lib =
  b64_decode :: "bytes \<Rightarrow> bytes option"
  b64_encode :: "bytes \<Rightarrow> bytes"
  json_from_slice :: "bytes \<Rightarrow> 'json option"
  json_get :: "bytes \<Rightarrow> 'json \<Rightarrow> 'json option" \<comment> \<open>\<open>Value::get_mut\<close>\<close>
  json_set :: "bytes \<Rightarrow> 'json \<Rightarrow> 'json \<Rightarrow> 'json" \<comment> \<open>an assignment through it\<close>
  json_as_str :: "'json \<Rightarrow> bytes option"
  json_string :: "bytes \<Rightarrow> 'json"
  json_to_vec :: "'json \<Rightarrow> bytes option"

text \<open>
  What is relied on: Base64 can be decoded again, and is ASCII without quotes; a parsed value one of
  whose members has been set to a string, when it is serialised, can be parsed again and has the
  same string members (a parsed value is never nested too deeply for that); assignment through the reference.
\<close>

definition codec_ok :: "'json codec_lib \<Rightarrow> bool" where
  [wf_simps]: "codec_ok C \<longleftrightarrow>
     (\<forall>x. b64_decode C (b64_encode C x) = Some x \<and> APO \<notin> set (b64_encode C x) \<and> QUO \<notin> set (b64_encode C x)
        \<and> (\<forall>b \<in> set (b64_encode C x). byte_val b < (128 :: nat)))
     \<and> (\<forall>d m n t v b. json_from_slice C d = Some m \<and> v = json_set C n m (json_string C t) \<and> json_to_vec C v = Some b \<longrightarrow>
          (\<exists>v'. json_from_slice C b = Some v'
             \<and> (\<forall>k u s. json_get C k v = Some u \<and> json_as_str C u = Some s \<longrightarrow>
                  (\<exists>u'. json_get C k v' = Some u' \<and> json_as_str C u' = Some s))))
     \<and> (\<forall>k v u x. json_get C k v = Some u \<longrightarrow> json_get C k (json_set C k v x) = Some x)
     \<and> (\<forall>s. json_as_str C (json_string C s) = Some s)"

section \<open>One payload\<close>

definition rewrite_mig_meta_payload :: "'json codec_lib \<Rightarrow> bytes \<Rightarrow> bytes \<Rightarrow> bytes option" where
  "rewrite_mig_meta_payload C desired_base_uri encoded =
     Option.bind (b64_decode C encoded) (\<lambda>decoded.
     Option.bind (json_from_slice C decoded) (\<lambda>metadata.
     Option.bind (json_get C ''baseURI'' metadata) (\<lambda>base_uri.
     Option.bind (json_as_str C base_uri) (\<lambda>current.
       if current = ''/proxy/ys1000''
       then map_option (b64_encode C)
              (json_to_vec C (json_set C ''baseURI'' metadata (json_string C desired_base_uri)))
       else if current = desired_base_uri then None
       else None))))"

section \<open>The scan\<close>

definition ASSIGNMENT :: bytes where
  "ASSIGNMENT = ''window._mig_meta''"

function skip_ascii_whitespace :: "bytes \<Rightarrow> nat \<Rightarrow> nat" where
  "skip_ascii_whitespace input position =
     (case get_byte input position of
        Some b \<Rightarrow> if is_ascii_whitespace b then skip_ascii_whitespace input (position + 1) else position
      | None \<Rightarrow> position)"
  by pat_completeness auto
termination
  by (relation "measure (\<lambda>(input, position). length input - position)")
    (auto simp: get_byte_def split: if_splits)

declare skip_ascii_whitespace.simps [simp del]

text \<open>
  The \<open>while let\<close> loop with its variables \<open>search_from\<close>, \<open>copied_until\<close> and \<open>output\<close>; it returns
  the output and \<open>copied_until\<close>, or \<open>None\<close> for the panic of a slice out of range.
\<close>

lemma skip_ascii_whitespace_ge: "position \<le> skip_ascii_whitespace input position"
proof (induction input position rule: skip_ascii_whitespace.induct)
  case (1 input position)
  then show ?case
    by (subst skip_ascii_whitespace.simps) (force split: option.splits)
qed

lemma ASSIGNMENT_length: "length ASSIGNMENT = 16"
  by (simp add: ASSIGNMENT_def)

lemma mig_measure: "\<not> (n::nat) < s \<Longrightarrow> s \<le> k \<Longrightarrow> n - k < Suc n - s"
  by simp

lemma mig_progress:
  "search_from \<le> Suc (skip_ascii_whitespace input (Suc (skip_ascii_whitespace input (search_from + x + 16))) + y)"
  using skip_ascii_whitespace_ge [of "search_from + x + 16" input]
    skip_ascii_whitespace_ge [of "Suc (skip_ascii_whitespace input (search_from + x + 16))" input]
  by linarith

function mig_loop ::
  "memchr_lib \<Rightarrow> 'json codec_lib \<Rightarrow> bytes \<Rightarrow> bytes \<Rightarrow> nat \<Rightarrow> nat \<Rightarrow> bytes \<Rightarrow> (bytes \<times> nat) option"
where
  "mig_loop M C desired_base_uri input search_from copied_until output =
     (if length input < search_from then None
      else case mm_find M ASSIGNMENT (drop search_from input) of
        None \<Rightarrow> Some (output, copied_until)
      | Some relative_start \<Rightarrow>
          let assignment_start = search_from + relative_start;
              after_assignment = assignment_start + length ASSIGNMENT;
              position = skip_ascii_whitespace input after_assignment
          in if get_byte input position \<noteq> Some (CHR ''='')
             then mig_loop M C desired_base_uri input after_assignment copied_until output
             else
               let position' = skip_ascii_whitespace input (position + 1)
               in case get_byte input position' of
                    None \<Rightarrow> mig_loop M C desired_base_uri input after_assignment copied_until output
                  | Some quote \<Rightarrow>
                      if quote \<noteq> APO \<and> quote \<noteq> QUO
                      then mig_loop M C desired_base_uri input after_assignment copied_until output
                      else
                        let encoded_start = position' + 1
                        in case mc_find M quote (drop encoded_start input) of
                             None \<Rightarrow> Some (output, copied_until)
                           | Some relative_end \<Rightarrow>
                               let encoded_end = encoded_start + relative_end
                               in if length input \<le> encoded_end then None
                                  else
                                    case rewrite_mig_meta_payload C desired_base_uri
                                           (take relative_end (drop encoded_start input)) of
                                      None \<Rightarrow>
                                        mig_loop M C desired_base_uri input (encoded_end + 1) copied_until output
                                    | Some rewritten \<Rightarrow>
                                        if encoded_start < copied_until then None
                                        else
                                          mig_loop M C desired_base_uri input (encoded_end + 1) encoded_end
                                            (output @ take (encoded_start - copied_until) (drop copied_until input)
                                             @ rewritten))"
  by pat_completeness auto
termination
  by (relation "measure (\<lambda>(M, C, d, input, search_from, cu, out). Suc (length input) - search_from)")
    (auto simp: ASSIGNMENT_length intro!: mig_measure mig_progress)

declare mig_loop.simps [simp del]

definition rewrite_mig_meta_base_uri ::
  "memchr_lib \<Rightarrow> 'json codec_lib \<Rightarrow> bytes \<Rightarrow> bytes \<Rightarrow> bytes option" where
  "rewrite_mig_meta_base_uri M C input desired_base_uri =
     (case mig_loop M C desired_base_uri input 0 0 [] of
        None \<Rightarrow> None
      | Some (output, copied_until) \<Rightarrow>
          if copied_until = 0 then Some input
          else Some (output @ drop copied_until input))"

end
