(* ===== verification/Mig_Meta_Correct.thy ===== *)
theory Mig_Meta_Correct
  imports Mig_Meta
begin

text \<open>
  The reference for the metadata rewriting walks the text from assignment to assignment; the
  loop over byte positions computes it without leaving the slice, and applying it twice changes
  nothing more.
\<close>

section \<open>Reference\<close>

text \<open>The text from the name to the opening quote, the quote, and what follows it.\<close>

definition assignment_value :: "bytes \<Rightarrow> (bytes \<times> byte \<times> bytes) option" where
  "assignment_value xs =
     (case dropWhile is_ascii_whitespace xs of
        b # r1 \<Rightarrow>
          if b = CHR ''=''
          then (case dropWhile is_ascii_whitespace r1 of
                  q # r2 \<Rightarrow>
                    if q = APO \<or> q = QUO
                    then Some (takeWhile is_ascii_whitespace xs @ ''='' @ takeWhile is_ascii_whitespace r1 @ [q], q, r2)
                    else None
                | [] \<Rightarrow> None)
          else None
      | [] \<Rightarrow> None)"

lemma assignment_value_append:
  "assignment_value xs = Some (a, q, r) \<Longrightarrow> xs = a @ r \<and> (q = APO \<or> q = QUO)"
  using takeWhile_dropWhile_id [of is_ascii_whitespace xs]
  by (auto simp: assignment_value_def split: list.splits if_splits)
    (metis append_Cons append_assoc takeWhile_dropWhile_id)+

definition payload_spec :: "'json codec_lib \<Rightarrow> bytes \<Rightarrow> bytes \<Rightarrow> bytes" where
  "payload_spec C d enc = (case rewrite_mig_meta_payload C d enc of None \<Rightarrow> enc | Some e \<Rightarrow> e)"

function mig_spec :: "'json codec_lib \<Rightarrow> bytes \<Rightarrow> bytes \<Rightarrow> bytes" where
  "mig_spec C d xs =
     (case first_occ ASSIGNMENT xs of
        None \<Rightarrow> xs
      | Some i \<Rightarrow>
          take (i + 16) xs @
          (case assignment_value (drop (i + 16) xs) of
             None \<Rightarrow> mig_spec C d (drop (i + 16) xs)
           | Some (a, q, r) \<Rightarrow>
               a @
               (case split_once [q] r of
                  None \<Rightarrow> r
                | Some (enc, post) \<Rightarrow> payload_spec C d enc @ q # mig_spec C d post)))"
  by pat_completeness auto
termination
proof (relation "measure (\<lambda>(C, d, xs). length xs)", goal_cases)
  case 1
  show ?case by simp
next
  case (2 C d xs i)
  with first_occ_bound [of ASSIGNMENT xs i] show ?case by (simp add: ASSIGNMENT_length)
next
  case (3 C d xs i v a qr q r s enc post)
  then have "drop (i + 16) xs = a @ r" "r = enc @ q # post"
    by (auto simp: split_once_byte_iff dest: assignment_value_append)
  then have "length (drop (i + 16) xs) = length (a @ enc @ q # post)" by simp
  then have "length post < length xs" by simp
  then show ?case by simp
qed

declare mig_spec.simps [simp del]

section \<open>Positions and suffixes\<close>

lemma get_byte_drop: "get_byte input p = (case drop p input of [] \<Rightarrow> None | b # _ \<Rightarrow> Some b)"
  by (cases "p < length input") (auto simp: get_byte_def drop_eq_Cons)

lemma skip_ascii_whitespace_eq:
  "skip_ascii_whitespace input p = p + length (takeWhile is_ascii_whitespace (drop p input))"
proof (induction input p rule: skip_ascii_whitespace.induct)
  case (1 input p)
  show ?case
  proof (cases "p < length input")
    case True
    then have "drop p input = input ! p # drop (Suc p) input" by (rule drop_eq_Cons)
    with 1 True show ?thesis
      by (subst skip_ascii_whitespace.simps) (auto simp: get_byte_def)
  next
    case False
    then show ?thesis by (subst skip_ascii_whitespace.simps) (simp add: get_byte_def)
  qed
qed

lemma drop_skip:
  "drop (skip_ascii_whitespace input p) input = dropWhile is_ascii_whitespace (drop p input)"
  by (simp add: skip_ascii_whitespace_eq dropWhile_eq_drop add.commute)

section \<open>The loop computes the reference\<close>

text \<open>
  What the two positions after an assignment say: they find the opening quote that
  \<open>assignment_value\<close> finds, or fail where it fails.
\<close>

lemma positions_cases:
  obtains (NoEq) "get_byte input (skip_ascii_whitespace input n) \<noteq> Some (CHR ''='')"
      "assignment_value (drop n input) = None"
    | (NoQuote) "get_byte input (skip_ascii_whitespace input n) = Some (CHR ''='')"
      "\<And>q. get_byte input (skip_ascii_whitespace input (skip_ascii_whitespace input n + 1)) = Some q \<Longrightarrow> q \<noteq> APO \<and> q \<noteq> QUO"
      "assignment_value (drop n input) = None"
    | (Value) a q where "get_byte input (skip_ascii_whitespace input n) = Some (CHR ''='')"
      "get_byte input (skip_ascii_whitespace input (skip_ascii_whitespace input n + 1)) = Some q" "q = APO \<or> q = QUO"
      "assignment_value (drop n input) = Some (a, q, drop (n + length a) input)"
      "skip_ascii_whitespace input (skip_ascii_whitespace input n + 1) + 1 = n + length a"
proof -
  let ?xs = "drop n input"
  let ?p = "skip_ascii_whitespace input n"
  show ?thesis
  proof (cases "\<exists>s. dropWhile is_ascii_whitespace ?xs = CHR ''='' # s")
    case False
    then have "get_byte input ?p \<noteq> Some (CHR ''='')" and "assignment_value ?xs = None"
      by (auto simp: get_byte_drop drop_skip assignment_value_def split: list.splits)
    then show ?thesis by (rule NoEq)
  next
    case True
    then obtain s where s: "dropWhile is_ascii_whitespace ?xs = CHR ''='' # s" by blast
    then have eq: "get_byte input ?p = Some (CHR ''='')" by (simp add: get_byte_drop drop_skip)
    have ds: "drop (?p + 1) input = s"
      using drop_skip [of input n] s by (metis Suc_eq_plus1 drop_Suc list.sel(3) tl_drop)
    let ?p' = "skip_ascii_whitespace input (?p + 1)"
    have dp: "drop ?p' input = dropWhile is_ascii_whitespace s" by (simp only: drop_skip ds)
    show ?thesis
    proof (cases "\<exists>q r. dropWhile is_ascii_whitespace s = q # r \<and> (q = APO \<or> q = QUO)")
      case False
      have gb: "get_byte input ?p' = (case dropWhile is_ascii_whitespace s of [] \<Rightarrow> None | b # _ \<Rightarrow> Some b)"
        by (simp only: get_byte_drop dp)
      have "assignment_value ?xs = None"
        using False s by (auto simp: assignment_value_def split: list.splits)
      moreover have "q \<noteq> APO \<and> q \<noteq> QUO" if "get_byte input ?p' = Some q" for q
        using that False unfolding gb by (auto split: list.splits)
      ultimately show ?thesis using NoQuote [OF eq] by blast
    next
      case True
      then obtain q r where q: "dropWhile is_ascii_whitespace s = q # r" "q = APO \<or> q = QUO" by blast
      let ?a = "takeWhile is_ascii_whitespace ?xs @ ''='' @ takeWhile is_ascii_whitespace s @ [q]"
      have len: "?p' + 1 = n + length ?a"
        using skip_ascii_whitespace_eq [of input "?p + 1"] skip_ascii_whitespace_eq [of input n]
        unfolding ds by simp
      have "drop (n + length ?a) input = r"
        using dp q(1) unfolding len [symmetric] by (metis Suc_eq_plus1 drop_Suc list.sel(3) tl_drop)
      moreover have "get_byte input ?p' = Some q" by (simp only: get_byte_drop dp q(1) list.case)
      ultimately show ?thesis
        using Value [OF eq _ q(2) _ len] s q by (auto simp: assignment_value_def)
    qed
  qed
qed

lemma split_once_position:
  "split_once [q] r = map_option (\<lambda>e. (take e r, drop (e + 1) r)) (byte_position q r)"
proof (cases "q \<in> set r")
  case True
  then obtain a b where r: "r = a @ q # b" "q \<notin> set a" by (meson split_list_first)
  then have "takeWhile (\<lambda>c. c \<noteq> q) r = a"
    by (simp add: takeWhile_append2 [of a "\<lambda>c. c \<noteq> q" "q # b", simplified] takeWhile_append)
  then have "byte_position q r = Some (length a)" using r(1) by (simp add: byte_position_def)
  moreover have "split_once [q] r = Some (a, b)" using r by (simp add: split_once_byte_iff)
  ultimately show ?thesis by (simp add: r(1))
next
  case False
  then have "takeWhile (\<lambda>c. c \<noteq> q) r = r" by (induction r) auto
  then have "byte_position q r = None" unfolding byte_position_def by (simp only: Let_def) simp
  moreover have "split_once [q] r = None" using False by (simp add: split_once_None_byte_iff)
  ultimately show ?thesis by simp
qed

lemma byte_position_bound: "byte_position q r = Some e \<Longrightarrow> e < length r \<and> r ! e = q"
  using nth_length_takeWhile [of "\<lambda>c. c \<noteq> q" r] by (auto simp: byte_position_def Let_def split: if_splits)

lemma slice_split:
  fixes cu sf :: nat
  assumes "cu \<le> sf"
  shows "take (sf + k - cu) (drop cu input) = take (sf - cu) (drop cu input) @ take k (drop sf input)"
proof -
  from assms have "sf + k - cu = (sf - cu) + k" by simp
  then have "take (sf + k - cu) (drop cu input)
      = take (sf - cu) (drop cu input) @ take k (drop (sf - cu) (drop cu input))"
    by (simp only: take_add)
  with assms show ?thesis by (simp add: add.commute)
qed

lemma mig_loop_ok:
  assumes M: "memchr_ok M"
  shows "sf \<le> length input \<Longrightarrow> cu \<le> sf \<Longrightarrow>
    \<exists>out' cu'. mig_loop M C d input sf cu out = Some (out', cu')
      \<and> cu \<le> cu' \<and> (cu' = cu \<longrightarrow> out' = out) \<and> cu' \<le> length input
      \<and> out' @ drop cu' input = out @ take (sf - cu) (drop cu input) @ mig_spec C d (drop sf input)"
proof (induction "length input - sf" arbitrary: sf cu out rule: less_induct)
  case less
  note unfold = mig_loop.simps [of M C d input sf cu out]
  have all: "drop cu input = take (sf - cu) (drop cu input) @ drop sf input"
    using less.prems by (metis append_take_drop_id drop_drop le_add_diff_inverse2)
  show ?case
  proof (cases "first_occ ASSIGNMENT (drop sf input)")
    case None
    then show ?thesis
      using less.prems all
      by (simp add: unfold memchr_ok_find [OF M] mig_spec.simps [of C d "drop sf input"])
  next
    case found: (Some i)
    let ?n = "sf + i + 16"
    have n: "?n \<le> length input"
      using first_occ_bound [OF found] less.prems(1) by (simp add: ASSIGNMENT_length)
    have upto: "take (?n - cu) (drop cu input) = take (sf - cu) (drop cu input) @ take (i + 16) (drop sf input)"
      using slice_split [OF less.prems(2), of "i + 16" input] by (simp add: add.assoc)
    note found = unfold found memchr_ok_find [OF M] ASSIGNMENT_length Let_def
    have cont: ?thesis
      if "mig_loop M C d input sf cu out = mig_loop M C d input ?n cu out"
        and "mig_spec C d (drop sf input) = take (i + 16) (drop sf input) @ mig_spec C d (drop ?n input)"
    proof -
      have "length input - ?n < length input - sf" using n by simp
      from less.hyps [OF this n, of cu out] less.prems that upto show ?thesis by (auto simp: add.assoc)
    qed
    show ?thesis
    proof (cases rule: positions_cases [of input ?n])
      case NoEq
      then show ?thesis
        using less.prems(1) by (intro cont) (simp_all add: found mig_spec.simps [of C d "drop sf input"] add_ac)
    next
      case NoQuote
      then show ?thesis
        using less.prems(1)
        by (intro cont) (auto simp add: found mig_spec.simps [of C d "drop sf input"] add_ac split: option.split)
    next
      case (Value a q)
      let ?s = "?n + length a"
      have step: "mig_loop M C d input sf cu out =
          (case byte_position q (drop ?s input) of
             None \<Rightarrow> Some (out, cu)
           | Some e \<Rightarrow>
               if length input \<le> ?s + e then None
               else case rewrite_mig_meta_payload C d (take e (drop ?s input)) of
                      None \<Rightarrow> mig_loop M C d input (?s + e + 1) cu out
                    | Some new \<Rightarrow>
                        if ?s < cu then None
                        else mig_loop M C d input (?s + e + 1) (?s + e)
                               (out @ take (?s - cu) (drop cu input) @ new))"
        using less.prems(1) Value(1-3) unfolding Value(5) [symmetric]
        by (auto simp add: found memchr_ok_byte [OF M] split: option.split)
      have a: "assignment_value (drop ?n input) = Some (a, q, drop ?s input)" by (rule Value(4))
      have s: "?s \<le> length input"
        using Value(2) unfolding Value(5) [symmetric] by (auto simp: get_byte_def split: if_splits)
      have spec: "mig_spec C d (drop sf input) = take (i + 16) (drop sf input) @ a @
          (case split_once [q] (drop ?s input) of
             None \<Rightarrow> drop ?s input
           | Some (enc, post) \<Rightarrow> payload_spec C d enc @ q # mig_spec C d post)"
        using a found by (simp add: mig_spec.simps [of C d "drop sf input"] add_ac split: option.split)
      have a_eq: "drop ?n input = a @ drop ?s input" using assignment_value_append [OF a] by simp
      have dsf: "drop sf input = take (i + 16) (drop sf input) @ a @ drop ?s input"
        using append_take_drop_id [of "i + 16" "drop sf input"] a_eq by (simp add: add_ac)
      have "take (i + 16 + length a) (drop sf input) = take (i + 16) (drop sf input) @ a"
        using dsf first_occ_bound [OF found(2)] by (metis (no_types, lifting) append.assoc append_eq_conv_conj
            length_append length_take min_absorb2 ASSIGNMENT_length)
      then have pre: "take (?s - cu) (drop cu input)
          = take (sf - cu) (drop cu input) @ take (i + 16) (drop sf input) @ a"
        using slice_split [OF less.prems(2), of "i + 16 + length a" input] by (simp add: add_ac)
      show ?thesis
      proof (cases "byte_position q (drop ?s input)")
        case None
        then have "mig_spec C d (drop sf input) = drop sf input"
          using spec dsf by (simp add: split_once_position)
        with None step less.prems all show ?thesis by simp
      next
        case (Some e)
        let ?e = "?s + e"
        let ?enc = "take e (drop ?s input)"
        from byte_position_bound [OF Some] s have e: "?e < length input" "input ! ?e = q"
          by (auto simp: add_ac)
        have q1: "take (e + 1) (drop ?s input) = ?enc @ [q]"
          using e by (simp add: take_Suc_conv_app_nth)
        have spec': "mig_spec C d (drop sf input) = take (i + 16) (drop sf input) @ a @
            payload_spec C d ?enc @ q # mig_spec C d (drop (?e + 1) input)"
          using spec Some by (simp add: split_once_position add_ac)
        have lt: "length input - (?e + 1) < length input - sf" and le: "?e + 1 \<le> length input"
          using e(1) by simp_all
        show ?thesis
        proof (cases "rewrite_mig_meta_payload C d ?enc")
          case None
          have "cu \<le> ?e + 1" using less.prems(2) by simp
          from less.hyps [OF lt le this, of out]
          show ?thesis
            using step Some None e(1) spec' pre q1 slice_split [of cu ?s "e + 1" input] less.prems(2)
            by (auto simp: payload_spec_def add.assoc)
        next
          case new: (Some new)
          have "?e \<le> ?e + 1" by simp
          from less.hyps [OF lt le this, of "out @ take (?s - cu) (drop cu input) @ new"]
          obtain out' cu' where "mig_loop M C d input sf cu out = Some (out', cu')"
            "?e \<le> cu'" "cu' \<le> length input"
            "out' @ drop cu' input = (out @ take (?s - cu) (drop cu input) @ new)
              @ take (?e + 1 - ?e) (drop ?e input) @ mig_spec C d (drop (?e + 1) input)"
            using step Some new e(1) less.prems(2) by auto
          moreover have "take (?e + 1 - ?e) (drop ?e input) = [q]"
            using e drop_eq_Cons [OF e(1)] by simp
          ultimately show ?thesis
            using spec' pre new less.prems(2) by (auto simp: payload_spec_def)
        qed
      qed
    qed
  qed
qed

lemma rewrite_mig_meta_base_uri_ok:
  assumes "memchr_ok M"
  shows "rewrite_mig_meta_base_uri M C input d = Some (mig_spec C d input)"
proof -
  from mig_loop_ok [OF assms, of 0 input 0 C d "[]"] obtain out' cu'
    where "mig_loop M C d input 0 0 [] = Some (out', cu')" "cu' = 0 \<longrightarrow> out' = []"
      "out' @ drop cu' input = mig_spec C d input"
    by auto
  then show ?thesis by (auto simp: rewrite_mig_meta_base_uri_def)
qed

section \<open>Idempotence\<close>

lemma assignment_value_again:
  assumes "assignment_value xs = Some (a, q, r)"
  shows "assignment_value (a @ r') = Some (a, q, r') \<and> CHR ''w'' \<notin> set a"
proof -
  from assms obtain s where s: "dropWhile is_ascii_whitespace xs = CHR ''='' # s"
    "dropWhile is_ascii_whitespace s = q # r" "q = APO \<or> q = QUO"
    and a: "a = takeWhile is_ascii_whitespace xs @ ''='' @ takeWhile is_ascii_whitespace s @ [q]"
    by (auto simp: assignment_value_def split: list.splits if_splits)
  have tw: "takeWhile P (takeWhile P ys @ c # zs) = takeWhile P ys"
    "dropWhile P (takeWhile P ys @ c # zs) = c # zs" if "\<not> P c" for P ys c and zs :: bytes
    using that by (induction ys) auto
  have ws: "\<not> is_ascii_whitespace (CHR ''='')" "\<not> is_ascii_whitespace q" "\<not> is_ascii_whitespace (CHR ''w'')"
    using s(3) by (auto simp: is_ascii_whitespace_def Let_def)
  have "CHR ''w'' \<notin> set a"
    using ws(3) s(3) by (auto simp: a dest: set_takeWhileD)
  moreover have "assignment_value (a @ r') = Some (a, q, r')"
    using s(3) by (auto simp: a assignment_value_def tw ws)
  ultimately show ?thesis by blast
qed

lemma assignment_value_before:
  assumes "assignment_value (p @ CHR ''w'' # r) = None"
  shows "assignment_value (p @ CHR ''w'' # r') = None"
proof (rule ccontr)
  assume "assignment_value (p @ CHR ''w'' # r') \<noteq> None"
  then obtain a q z where v: "assignment_value (p @ CHR ''w'' # r') = Some (a, q, z)" by auto
  then have eq: "p @ CHR ''w'' # r' = a @ z" and no: "CHR ''w'' \<notin> set a"
    using assignment_value_append assignment_value_again by blast+
  then have "prefix a (p @ CHR ''w'' # r')" by simp
  then have "prefix a p"
    using no by (auto simp: prefix_append prefix_Cons)
  then obtain p' where p: "p = a @ p'" by (auto simp: prefix_def)
  from assignment_value_again [OF v, of "p' @ CHR ''w'' # r"] p have
    "assignment_value (p @ CHR ''w'' # r) = Some (a, q, p' @ CHR ''w'' # r)" by simp
  with assms show False by simp
qed

lemma first_occ_again:
  assumes "first_occ n xs = Some i"
  shows "first_occ n (take (i + length n) xs @ r) = Some i"
proof -
  have len: "i + length n \<le> length xs" by (rule first_occ_bound [OF assms])
  have "occurs_at n (take (i + length n) xs @ r) j \<longleftrightarrow> occurs_at n xs j" if "j \<le> i" for j
  proof -
    have "xs = take (i + length n) xs @ drop (i + length n) xs" by simp
    moreover have "j + length n \<le> length (take (i + length n) xs)" using that len by simp
    ultimately show ?thesis by (metis occurs_at_append_iff)
  qed
  with assms show ?thesis by (simp add: first_occ_Some_iff)
qed

lemma codec_members:
  assumes "codec_ok C" "json_from_slice C d = Some m" "v = json_set C n m (json_string C t)"
    and "json_to_vec C v = Some b" "json_get C k v = Some u" "json_as_str C u = Some s"
  obtains v' u' where "json_from_slice C b = Some v'" "json_get C k v' = Some u'" "json_as_str C u' = Some s"
proof -
  from assms(1) have "\<forall>d m n t v b. json_from_slice C d = Some m \<and> v = json_set C n m (json_string C t) \<and> json_to_vec C v = Some b \<longrightarrow>
      (\<exists>v'. json_from_slice C b = Some v'
         \<and> (\<forall>k u s. json_get C k v = Some u \<and> json_as_str C u = Some s \<longrightarrow>
              (\<exists>u'. json_get C k v' = Some u' \<and> json_as_str C u' = Some s)))"
    unfolding codec_ok_def by blast
  with assms(2-6) that show thesis by blast
qed

lemma payload_again:
  assumes "codec_ok C" "d \<noteq> ''/proxy/ys1000''" "rewrite_mig_meta_payload C d enc = Some new"
  shows "rewrite_mig_meta_payload C d new = None \<and> APO \<notin> set new \<and> QUO \<notin> set new"
proof -
  from assms(3) obtain decoded v u b where m: "json_from_slice C decoded = Some v" and u: "json_get C ''baseURI'' v = Some u"
    and b: "json_to_vec C (json_set C ''baseURI'' v (json_string C d)) = Some b" "new = b64_encode C b"
    by (auto simp: rewrite_mig_meta_payload_def bind_eq_Some_conv split: if_splits)
  from assms(1) u have "json_get C ''baseURI'' (json_set C ''baseURI'' v (json_string C d)) = Some (json_string C d)"
    "json_as_str C (json_string C d) = Some d" by (simp_all add: codec_ok_def)
  from codec_members [OF assms(1) m refl b(1) this] obtain v' u' where "json_from_slice C b = Some v'"
    "json_get C ''baseURI'' v' = Some u'" "json_as_str C u' = Some d" .
  then have "rewrite_mig_meta_payload C d new = None"
    using assms(1,2) b(2) by (simp add: rewrite_mig_meta_payload_def codec_ok_def)
  then show ?thesis using assms(1) b(2) by (simp add: codec_ok_def)
qed

lemma payload_spec_again:
  assumes "codec_ok C" "d \<noteq> ''/proxy/ys1000''" "q = APO \<or> q = QUO" "q \<notin> set enc"
  shows "payload_spec C d (payload_spec C d enc) = payload_spec C d enc \<and> q \<notin> set (payload_spec C d enc)"
proof (cases "rewrite_mig_meta_payload C d enc")
  case None
  with assms(4) show ?thesis by (simp add: payload_spec_def)
next
  case (Some new)
  with payload_again [OF assms(1,2) Some] assms(3) show ?thesis by (auto simp: payload_spec_def)
qed

text \<open>The rewriting of a text without a value at its head has none either.\<close>

lemma assignment_value_mig_spec:
  assumes "assignment_value ys = None"
  shows "assignment_value (mig_spec C d ys) = None"
proof (cases "first_occ ASSIGNMENT ys")
  case None
  with assms show ?thesis by (simp add: mig_spec.simps)
next
  case (Some j)
  have "take j ys @ ASSIGNMENT = take (j + 16) ys"
    using first_occ_take_drop [OF Some] by (simp add: ASSIGNMENT_length)
  then have head: "take (j + 16) ys @ z = take j ys @ CHR ''w'' # tl ASSIGNMENT @ z" for z
    by (simp add: ASSIGNMENT_def flip: append_assoc)
  have "ys = take (j + 16) ys @ drop (j + 16) ys" by simp
  then have "assignment_value (take j ys @ CHR ''w'' # tl ASSIGNMENT @ drop (j + 16) ys) = None"
    using assms by (simp only: head)
  then have "assignment_value (take j ys @ CHR ''w'' # tl ASSIGNMENT @ z) = None" for z
    by (rule assignment_value_before)
  then have "assignment_value (take (j + 16) ys @ z) = None" for z by (simp only: head)
  with Some show ?thesis by (simp add: mig_spec.simps [of C d ys])
qed

lemma mig_spec_at:
  assumes "first_occ ASSIGNMENT xs = Some i"
  shows "mig_spec C d (take (i + 16) xs @ rest) = take (i + 16) xs @
      (case assignment_value rest of
         None \<Rightarrow> mig_spec C d rest
       | Some (a, q, r) \<Rightarrow>
           a @ (case split_once [q] r of
                  None \<Rightarrow> r
                | Some (enc, post) \<Rightarrow> payload_spec C d enc @ q # mig_spec C d post))"
proof -
  have "i + 16 \<le> length xs" using first_occ_bound [OF assms] by (simp add: ASSIGNMENT_length)
  moreover have "first_occ ASSIGNMENT (take (i + 16) xs @ rest) = Some i"
    using first_occ_again [OF assms] by (simp add: ASSIGNMENT_length)
  ultimately show ?thesis by (subst mig_spec.simps) (simp split: option.split)
qed

lemma mig_spec_idem:
  assumes C: "codec_ok C" and d: "d \<noteq> ''/proxy/ys1000''"
  shows "mig_spec C d (mig_spec C d xs) = mig_spec C d xs"
proof (induction "length xs" arbitrary: xs rule: less_induct)
  case less
  show ?case
  proof (cases "first_occ ASSIGNMENT xs")
    case None
    then show ?thesis by (simp add: mig_spec.simps)
  next
    case (Some i)
    let ?rest = "drop (i + 16) xs"
    have bound: "i + 16 \<le> length xs" using first_occ_bound [OF Some] by (simp add: ASSIGNMENT_length)
    note cut = mig_spec_at [OF Some, of C d]
    have xs: "mig_spec C d xs = mig_spec C d (take (i + 16) xs @ ?rest)" by simp
    show ?thesis
    proof (cases "assignment_value ?rest")
      case None
      have "length ?rest < length xs" using bound by simp
      from less [OF this] None assignment_value_mig_spec [OF None, of C d] show ?thesis
        unfolding xs cut by (simp add: cut)
    next
      case val: (Some v)
      obtain a q r where v: "v = (a, q, r)" by (cases v)
      note av = val [unfolded v]
      from assignment_value_append [OF av] have rest: "?rest = a @ r" and q: "q = APO \<or> q = QUO" by auto
      show ?thesis
      proof (cases "split_once [q] r")
        case None
        with av rest have "mig_spec C d xs = xs"
          unfolding xs cut by simp (metis append_take_drop_id)
        then show ?thesis by simp
      next
        case split: (Some ep)
        obtain enc post where ep: "ep = (enc, post)" by (cases ep)
        from split ep have r: "r = enc @ q # post" and no: "q \<notin> set enc" by (simp_all add: split_once_byte_iff)
        note again = payload_spec_again [OF C d q no]
        have m: "mig_spec C d xs = take (i + 16) xs @ a @ payload_spec C d enc @ q # mig_spec C d post"
          unfolding xs cut using av split ep by simp
        have "length ?rest = length a + (length enc + Suc (length post))" using rest r by simp
        then have "length post < length xs" by simp
        from less [OF this] again
          assignment_value_again [OF av, of "payload_spec C d enc @ q # mig_spec C d post"]
        show ?thesis
          unfolding m cut by (simp add: split_once_at [of q _ "[]", simplified])
      qed
    qed
  qed
qed

section \<open>Properties\<close>

text \<open>
  C23. The metadata rewriting never indexes outside the page and computes the reference: each
  payload of an assignment with a quoted value is replaced where it decodes to metadata with
  the root base URI, and every other byte of the page is copied.
\<close>

theorem mig_meta_functional:
  assumes "memchr_ok M"
  shows "rewrite_mig_meta_base_uri M C page base_uri = Some (mig_spec C base_uri page)"
  by (rule rewrite_mig_meta_base_uri_ok [OF assms])

text \<open>
  An instance of the codec parameter: two letters per byte, and a JSON value with the one member
  \<open>baseURI\<close>, which is a string.
\<close>

definition letter :: "nat \<Rightarrow> byte" where
  "letter n = char_of (65 + n)"

fun hex_decode :: "bytes \<Rightarrow> bytes option" where
  "hex_decode [] = Some []"
| "hex_decode (a # b # xs) =
     map_option (Cons (char_of ((byte_val a - 65) * 16 + (byte_val b - 65)))) (hex_decode xs)"
| "hex_decode _ = None"

definition hex_encode :: "bytes \<Rightarrow> bytes" where
  "hex_encode xs = concat (map (\<lambda>c. [letter (byte_val c div 16), letter (byte_val c mod 16)]) xs)"

definition sample_codec :: "bytes codec_lib" where
  "sample_codec =
     \<lparr>b64_decode = hex_decode, b64_encode = hex_encode, json_from_slice = Some,
      json_get = (\<lambda>k v. if k = ''baseURI'' then Some v else None), json_set = (\<lambda>k v x. x),
      json_as_str = Some, json_string = id, json_to_vec = Some\<rparr>"

lemma letter_val: "n < 16 \<Longrightarrow> byte_val (letter n) = 65 + (n :: nat)"
  by (simp add: letter_def of_char_of)

lemma letter_not_quote:
  assumes "n < 16"
  shows "letter n \<noteq> APO \<and> letter n \<noteq> QUO"
proof -
  have "byte_val (letter n) \<noteq> (byte_val APO :: nat)" "byte_val (letter n) \<noteq> (byte_val QUO :: nat)"
    by (simp_all add: letter_val [OF assms])
  then show ?thesis by metis
qed

lemma hex_decode_encode: "hex_decode (hex_encode xs) = Some xs"
proof (induction xs)
  case (Cons c xs)
  have "byte_val c div 16 < (16 :: nat)" by (rule less_mult_imp_div_less) simp
  with Cons show ?case by (simp add: hex_encode_def letter_val)
qed (simp add: hex_encode_def)

lemma hex_encode_not_quote: "APO \<notin> set (hex_encode xs) \<and> QUO \<notin> set (hex_encode xs)"
proof (induction xs)
  case (Cons c xs)
  have "byte_val c div 16 < (16 :: nat)" by (rule less_mult_imp_div_less) simp
  with letter_not_quote [of "byte_val c div 16"] letter_not_quote [of "byte_val c mod 16"] Cons
  show ?case by (auto simp: hex_encode_def)
qed (simp add: hex_encode_def)

lemma hex_encode_ascii: "\<forall>b \<in> set (hex_encode xs). byte_val b < (128 :: nat)"
proof (induction xs)
  case (Cons c xs)
  have n: "byte_val c div 16 < (16 :: nat)" "byte_val c mod 16 < (16 :: nat)"
    by (rule less_mult_imp_div_less) simp_all
  have "byte_val (letter k) < (128 :: nat)" if "k < 16" for k
    unfolding letter_val [OF that] using that by simp
  with n Cons show ?case by (simp add: hex_encode_def)
qed (simp add: hex_encode_def)

lemma sample_codec_ok: "codec_ok sample_codec"
  using hex_encode_ascii
  by (auto simp: codec_ok_def sample_codec_def hex_decode_encode hex_encode_not_quote)

definition sample_page :: bytes where
  "sample_page = ''x window._mig_meta = '' @ [APO] @ hex_encode ''/proxy/ys1000'' @ [APO] @ '';''"

theorem mig_meta_functional_witness:
  "rewrite_mig_meta_base_uri std_memchr sample_codec sample_page ''/b/proxy/ys1000'' =
     Some (''x window._mig_meta = '' @ [APO] @ hex_encode ''/b/proxy/ys1000'' @ [APO] @ '';'')"
proof -
  have "mig_spec sample_codec ''/b/proxy/ys1000'' sample_page =
      ''x window._mig_meta = '' @ [APO] @ hex_encode ''/b/proxy/ys1000'' @ [APO] @ '';''"
    by code_simp
  with mig_meta_functional [OF std_memchr_ok, of sample_codec sample_page "''/b/proxy/ys1000''"]
  show ?thesis by simp
qed

text \<open>
  C35. Rewriting the metadata of a page twice is the same as rewriting it once, whenever the base
  path is not empty: a payload that has been rewritten is recognised and left alone.
\<close>

theorem mig_meta_idempotent:
  assumes "memchr_ok M" "codec_ok C" "base_path \<noteq> []"
    and "rewrite_mig_meta_base_uri M C page (base_path @ ''/proxy/ys1000'') = Some page'"
  shows "rewrite_mig_meta_base_uri M C page' (base_path @ ''/proxy/ys1000'') = Some page'"
proof -
  have "base_path @ ''/proxy/ys1000'' \<noteq> ''/proxy/ys1000''" using assms(3) by simp
  from mig_spec_idem [OF assms(2) this, of page] assms(4) show ?thesis
    by (simp add: rewrite_mig_meta_base_uri_ok [OF assms(1)])
qed

theorem mig_meta_idempotent_witness:
  "rewrite_mig_meta_base_uri std_memchr sample_codec
     (mig_spec sample_codec ''/b/proxy/ys1000'' sample_page) ''/b/proxy/ys1000'' =
   Some (mig_spec sample_codec ''/b/proxy/ys1000'' sample_page)"
  using mig_meta_idempotent [OF std_memchr_ok sample_codec_ok, of "''/b''" sample_page]
  by (simp add: rewrite_mig_meta_base_uri_ok std_memchr_ok)

end
