(* ===== verification/Profiles.thy ===== *)
theory Profiles
  imports Pipeline_Correct Policy Mig_Meta_Correct
begin

text \<open>
  The pipelines of the rewrite profiles, \<open>build_selected_response_rewriter\<close> and
  \<open>build_response_rewriter\<close> of \<open>src/rewrite.rs\<close>, with the JavaScript and HTML literals they
  replace. Quotes, apostrophes and backslashes, which an Isabelle string cannot hold next to
  each other, are written as the bytes \<open>QUO\<close>, \<open>APO\<close> and \<open>BSL\<close>.
\<close>

section \<open>The rules of the console bundle\<close>

definition response_exact_rules :: "bytes \<Rightarrow> (bytes \<times> bytes) list" where
  "response_exact_rules base_path =
     [
      (''return requestURL.replace(/'' @ [BSL, BSL] @ ''/'' @ [BSL, BSL] @ ''/+/, ''
       @ [APO] @ ''/'' @ [APO] @ '');'',
       ''return requestURL.toLowerCase().startsWith('' @ [APO] @ ''http://'' @ [APO]
       @ '') || requestURL.toLowerCase().startsWith('' @ [APO] @ ''https://'' @ [APO]
       @ '') || requestURL.startsWith('' @ [APO] @ ''//'' @ [APO]
       @ '') ? requestURL : (requestURL.replace(/'' @ [BSL, BSL] @ ''/'' @ [BSL, BSL]
       @ ''/+/, '' @ [APO] @ ''/'' @ [APO] @ '') === '' @ [APO] @ base_path @ [APO]
       @ '' || requestURL.replace(/'' @ [BSL, BSL] @ ''/'' @ [BSL, BSL] @ ''/+/, ''
       @ [APO] @ ''/'' @ [APO] @ '').startsWith('' @ [APO] @ base_path @ ''/'' @ [APO]
       @ '') ? requestURL.replace(/'' @ [BSL, BSL] @ ''/'' @ [BSL, BSL] @ ''/+/, ''
       @ [APO] @ ''/'' @ [APO] @ '') : '' @ [APO] @ base_path @ ''/'' @ [APO]
       @ ''.concat(requestURL.replace(/'' @ [BSL, BSL] @ ''/'' @ [BSL, BSL] @ ''/+/, ''
       @ [APO] @ ''/'' @ [APO] @ '').replace(/^'' @ [BSL, BSL] @ ''/+/, '' @ [APO, APO]
       @ '')));''),
      (''return '' @ [QUO] @ ''/'' @ [QUO] @ ''.concat(path.trimLeft('' @ [APO] @ ''/''
       @ [APO] @ ''));'',
       ''return path.startsWith('' @ [APO] @ ''/'' @ [APO] @ '') ? path : '' @ [QUO]
       @ ''/'' @ [QUO] @ ''.concat(path);''),
      (''return '' @ [BSL, QUO] @ ''/'' @ [BSL, QUO] @ ''.concat(path.trimLeft('' @ [APO]
       @ ''/'' @ [APO] @ ''));'',
       ''return path.startsWith('' @ [APO] @ ''/'' @ [APO] @ '') ? path : '' @ [BSL, QUO]
       @ ''/'' @ [BSL, QUO] @ ''.concat(path);''),
      (''if (path.startsWith('' @ [APO] @ ''http'' @ [APO] @ '')) {'',
       ''if (path.toLowerCase().startsWith('' @ [APO] @ ''http://'' @ [APO]
       @ '') || path.toLowerCase().startsWith('' @ [APO] @ ''https://'' @ [APO] @ '')) {'')]"

definition response_member_expression_rules :: "bytes \<Rightarrow> (bytes \<times> bytes \<times> bytes) list" where
  "response_member_expression_rules base_path =
     [
      (''basename: '' @ [QUO, QUO] @ ''.concat('',
       '', '' @ [QUO] @ ''/consolev3'' @ [QUO] @ '')'',
       ''basename: '' @ [QUO] @ base_path @ ''/'' @ [QUO] @ ''.concat(''),
      (''basename:'' @ [QUO, QUO] @ ''.concat('',
       '','' @ [QUO] @ ''/consolev3'' @ [QUO] @ '')'',
       ''basename:'' @ [QUO] @ base_path @ ''/'' @ [QUO] @ ''.concat(''),
      (''basename: '' @ [BSL, QUO, BSL, QUO] @ ''.concat('',
       '', '' @ [BSL, QUO] @ ''/consolev3'' @ [BSL, QUO] @ '')'',
       ''basename: '' @ [BSL, QUO] @ base_path @ ''/'' @ [BSL, QUO] @ ''.concat(''),
      (''basename:'' @ [BSL, QUO, BSL, QUO] @ ''.concat('',
       '','' @ [BSL, QUO] @ ''/consolev3'' @ [BSL, QUO] @ '')'',
       ''basename:'' @ [BSL, QUO] @ base_path @ ''/'' @ [BSL, QUO] @ ''.concat('')]"

definition response_template_rules :: "bytes \<Rightarrow> (bytes \<times> bytes \<times> bytes) list" where
  "response_template_rules base_path =
     [
      ([QUO] @ ''/'' @ [QUO] @ ''.concat('',
       ''.trimLeft('' @ [QUO] @ ''/'' @ [QUO] @ ''))'',
       ''({identifier}==='' @ [QUO] @ base_path @ [QUO] @ ''||{identifier}.startsWith(''
       @ [QUO] @ base_path @ ''/'' @ [QUO] @ '')?{identifier}:'' @ [QUO] @ base_path
       @ ''/'' @ [QUO] @ ''.concat({identifier}.replace(/^'' @ [BSL] @ ''/+/,''
       @ [QUO, QUO] @ '')))''),
      (''return'' @ [QUO] @ ''/'' @ [QUO] @ ''.concat('',
       ''.trimLeft('' @ [QUO] @ ''/'' @ [QUO] @ ''))'',
       ''return({identifier}==='' @ [QUO] @ base_path @ [QUO]
       @ ''||{identifier}.startsWith('' @ [QUO] @ base_path @ ''/'' @ [QUO]
       @ '')?{identifier}:'' @ [QUO] @ base_path @ ''/'' @ [QUO]
       @ ''.concat({identifier}.replace(/^'' @ [BSL] @ ''/+/,'' @ [QUO, QUO] @ '')))''),
      ('')),'',
       ''.replace(/'' @ [BSL] @ ''/'' @ [BSL] @ ''/+/,'' @ [QUO] @ ''/'' @ [QUO] @ '')}'',
       '')),({identifier}={identifier}.replace(/'' @ [BSL] @ ''/'' @ [BSL] @ ''/+/,''
       @ [QUO] @ ''/'' @ [QUO] @ ''),{identifier}==='' @ [QUO] @ base_path @ [QUO]
       @ ''||{identifier}.startsWith('' @ [QUO] @ base_path @ ''/'' @ [QUO]
       @ '')?{identifier}:'' @ [QUO] @ base_path @ ''/'' @ [QUO]
       @ ''.concat({identifier}.replace(/^'' @ [BSL] @ ''/+/,'' @ [QUO, QUO] @ '')))}'')]"

definition build_response_rewriter :: "bytes \<Rightarrow> bytes \<Rightarrow> bytes \<Rightarrow> nat \<Rightarrow> pipeline rresult" where
  "build_response_rewriter base_path source replacement max_bytes =
     bind_outcome
       (pipeline_new_with_exact_and_member_expression_patterns
          [(source, replacement), (''/extensions-static/'', base_path @ ''/extensions-static/'')]
          (response_exact_rules base_path) (response_member_expression_rules base_path) max_bytes)
       (\<lambda>pipeline. with_identifier_template_patterns pipeline (response_template_rules base_path))"

section \<open>The pipeline of a profile\<close>

definition kubekey_legacy_root_rule :: "bytes \<Rightarrow> bytes \<times> bytes" where
  "kubekey_legacy_root_rule base_path = (KUBEKEY_LEGACY_ROOT, base_path)"

definition location_host :: bytes where
  "location_host = ''`//${window.location.host}/''"

text \<open>The 20 attribute rules of a proxied page: five boundaries and four attributes.\<close>

definition attribute_rules :: "bytes \<Rightarrow> bytes \<Rightarrow> (bytes \<times> bytes) list" where
  "attribute_rules base_path proxy_root =
     concat (map (\<lambda>boundary.
       map (\<lambda>attribute. (boundary @ attribute @ proxy_root, boundary @ attribute @ base_path @ proxy_root))
         [''href='' @ [QUO], ''href='' @ [APO], ''src='' @ [QUO], ''src='' @ [APO]])
       ['' '', [CHR 0x09], [CHR 0x0D], [CHR 0x0A], [CHR 0x0C]])"

definition build_selected_response_rewriter ::
  "memchr_lib \<Rightarrow> 'json codec_lib \<Rightarrow> rewrite_profile \<Rightarrow> bytes \<Rightarrow> bytes \<Rightarrow> nat \<Rightarrow> pipeline rresult" where
  "build_selected_response_rewriter M C profile base_path extension max_bytes =
     (case profile of
        ConsoleV3 \<Rightarrow>
          let source = ''/extensions-static/'' @ extension @ ''/dist/v3dist/'';
              replacement = base_path @ source
          in build_response_rewriter base_path source replacement max_bytes
      | FrontendIndexJsBundle \<Rightarrow>
          pipeline_new_with_appended_suffix location_host
            (trim_start_matches CHR ''/'' base_path @ ''/'') max_bytes
      | JsBundle \<Rightarrow>
          pipeline_new_with_appended_suffix location_host
            (trim_start_matches CHR ''/'' base_path @ ''/'') max_bytes
      | Ys1000FrontendIndexJsBundle \<Rightarrow>
          let exact_rules = map (\<lambda>quote.
                ([quote] @ NAMED_PROXY_ROOT @ YS1000_NAME @ ''/'' @ [quote],
                 [quote] @ base_path @ NAMED_PROXY_ROOT @ YS1000_NAME @ ''/'' @ [quote])) [QUO, APO]
          in bind_outcome
               (pipeline_new_with_appended_suffix location_host
                  (trim_start_matches CHR ''/'' base_path @ ''/'') max_bytes)
               (\<lambda>pipeline. with_exact_rules pipeline exact_rules)
      | KubekeyAssetJs \<Rightarrow>
          pipeline_new_with_exact [] [kubekey_legacy_root_rule base_path] max_bytes
      | _ \<Rightarrow>
          let proxy_root = NAMED_PROXY_ROOT @ extension @ ''/'';
              exact_rules =
                attribute_rules base_path proxy_root
                @ (if extension = KUBEKEY_NAME then [kubekey_legacy_root_rule base_path] else [])
          in bind_outcome (pipeline_new_with_exact [] exact_rules max_bytes) (\<lambda>pipeline.
               if profile = Ys1000Html
               then Ok (with_buffered_transform pipeline (\<lambda>input.
                      rewrite_mig_meta_base_uri M C input (base_path @ NAMED_PROXY_ROOT @ extension)))
               else Ok pipeline))"

end
