(* ===== verification/Profiles_Correct.thy ===== *)
theory Profiles_Correct
  imports Profiles
begin

text \<open>
  What each profile does to a body: its literal rules in order, its patterns, and the metadata
  of a ys1000 page. The builders never fail and return exactly the rewriters of these rules;
  a body is accepted exactly when it is valid UTF-8 within the limit.
\<close>

section \<open>The rules of a profile\<close>

definition exact_steps :: "(bytes \<times> bytes) list \<Rightarrow> (literal_rewrite_mode \<times> bytes) list" where
  "exact_steps rules = map (\<lambda>(src, rep). (Exact rep, src)) rules"

definition host_step :: "bytes \<Rightarrow> literal_rewrite_mode \<times> bytes" where
  "host_step base_path =
     (let s = trim_start_matches CHR ''/'' base_path @ ''/'' in (Append (location_host @ s) s, location_host))"

definition page_steps :: "bytes \<Rightarrow> bytes \<Rightarrow> (bytes \<times> bytes) list" where
  "page_steps base_path extension =
     attribute_rules base_path (''/proxy/'' @ extension @ ''/'')
     @ (if extension = ''kubekey'' then [(KUBEKEY_LEGACY_ROOT, base_path)] else [])"

fun profile_literals :: "rewrite_profile \<Rightarrow> bytes \<Rightarrow> bytes \<Rightarrow> (literal_rewrite_mode \<times> bytes) list" where
  "profile_literals ConsoleV3 base_path extension =
     (let root = ''/extensions-static/'' @ extension @ ''/dist/v3dist/''
      in [(Prepend (base_path @ root) base_path, root),
          (Prepend (base_path @ ''/extensions-static/'') base_path, ''/extensions-static/'')]
         @ exact_steps (response_exact_rules base_path))"
| "profile_literals FrontendIndexJsBundle base_path extension = [host_step base_path]"
| "profile_literals JsBundle base_path extension = [host_step base_path]"
| "profile_literals Ys1000FrontendIndexJsBundle base_path extension =
     host_step base_path
     # exact_steps (map (\<lambda>q. ([q] @ ''/proxy/ys1000/'' @ [q], [q] @ base_path @ ''/proxy/ys1000/'' @ [q])) [QUO, APO])"
| "profile_literals KubekeyAssetJs base_path extension = exact_steps [(KUBEKEY_LEGACY_ROOT, base_path)]"
| "profile_literals NamedProxyHtml base_path extension = exact_steps (page_steps base_path extension)"
| "profile_literals Ys1000Html base_path extension = exact_steps (page_steps base_path extension)"

definition pattern_start :: "pattern_syntax \<Rightarrow> bytes \<Rightarrow> bytes \<Rightarrow> expression_replacement \<Rightarrow> pattern_rewriter" where
  "pattern_start syn pre suf rep =
     \<lparr>pr_prefix = pre, pr_suffix = suf, pr_replacement = rep, pr_syntax = syn, pr_pending = [],
      pr_previous_byte = None, pr_finished = False\<rparr>"

fun profile_patterns :: "rewrite_profile \<Rightarrow> bytes \<Rightarrow> pattern_rewriter list" where
  "profile_patterns ConsoleV3 base_path =
     map (\<lambda>(pre, suf, rep). pattern_start MemberExpression pre suf (Replace_Prefix rep))
       (response_member_expression_rules base_path)
     @ map (\<lambda>(pre, suf, t). pattern_start Identifier pre suf (Replace_Template t)) (response_template_rules base_path)"
| "profile_patterns _ base_path = []"

definition literal_steps :: "(literal_rewrite_mode \<times> bytes) list \<Rightarrow> bytes \<Rightarrow> bytes" where
  "literal_steps steps x = fold (\<lambda>(m, src) y. literal_spec m src [] y) steps x"

definition pattern_steps :: "pattern_rewriter list \<Rightarrow> bytes \<Rightarrow> bytes" where
  "pattern_steps prs x = fold (\<lambda>pr y. pattern_spec pr None y) prs x"

text \<open>The whole body, rewritten.\<close>

definition profile_spec :: "'json codec_lib \<Rightarrow> rewrite_profile \<Rightarrow> bytes \<Rightarrow> bytes \<Rightarrow> bytes \<Rightarrow> bytes" where
  "profile_spec C profile base_path extension body =
     (let y = pattern_steps (profile_patterns profile base_path)
                (literal_steps (profile_literals profile base_path extension) body)
      in if profile = Ys1000Html then mig_spec C (base_path @ ''/proxy/'' @ extension) y else y)"

section \<open>The builders\<close>

definition literal_start :: "literal_rewrite_mode \<times> bytes \<Rightarrow> streaming_rewriter" where
  "literal_start step = (case step of (m, src) \<Rightarrow>
     Literal \<lparr>lr_needle = src, lr_mode = m, lr_max_bytes = usize_max, lr_total_bytes = 0,
       lr_pending = [], lr_input_history = [], lr_utf8_tail = [], lr_finished = False\<rparr>)"

definition page_rewriters :: "memchr_lib \<Rightarrow> 'json codec_lib \<Rightarrow> rewrite_profile \<Rightarrow> bytes \<Rightarrow> bytes \<Rightarrow> streaming_rewriter list" where
  "page_rewriters M C profile base_path extension =
     (if profile = Ys1000Html
      then [Buffered \<lparr>br_transform = (\<lambda>input. rewrite_mig_meta_base_uri M C input (base_path @ ''/proxy/'' @ extension)),
              br_pending = [], br_finished = False\<rparr>]
      else [])"

definition profile_pipeline :: "memchr_lib \<Rightarrow> 'json codec_lib \<Rightarrow> rewrite_profile \<Rightarrow> bytes \<Rightarrow> bytes \<Rightarrow> nat \<Rightarrow> pipeline" where
  "profile_pipeline M C profile base_path extension max_bytes =
     \<lparr>pl_rewriters = map literal_start (profile_literals profile base_path extension)
        @ map ExpressionPattern (profile_patterns profile base_path)
        @ page_rewriters M C profile base_path extension,
      pl_max_bytes = max_bytes, pl_total_bytes = 0, pl_finished = False\<rparr>"

lemma exact_literal_rewriters_Ok:
  "\<forall>(src, rep) \<in> set rules. src \<noteq> [] \<Longrightarrow>
     exact_literal_rewriters rules = Ok (map literal_start (exact_steps rules))"
  by (induction rules)
    (auto simp: exact_literal_rewriters_def exact_steps_def literal_start_def literal_new_exact_def literal_from_mode_def)

lemma prefix_literal_rewriters_Ok:
  "\<forall>(src, pre) \<in> set rules. src \<noteq> [] \<Longrightarrow>
     prefix_literal_rewriters (map (\<lambda>(src, pre). (src, pre @ src)) rules) =
       Ok (map (\<lambda>(src, pre). literal_start (Prepend (pre @ src) pre, src)) rules)"
  by (induction rules)
    (auto simp: prefix_literal_rewriters_def literal_start_def literal_new_def literal_from_mode_def strip_suffix_def suffix_def)

lemma member_rewriters_Ok:
  "\<forall>(pre, suf, rep) \<in> set rules. pre \<noteq> [] \<and> suf \<noteq> [] \<Longrightarrow>
     collect_outcomes (map (\<lambda>(pre, suf, rep).
       bind_outcome (pattern_new_member_expression pre suf rep) (\<lambda>r. Ok (ExpressionPattern r))) rules) =
     Ok (map (\<lambda>(pre, suf, rep). ExpressionPattern (pattern_start MemberExpression pre suf (Replace_Prefix rep))) rules)"
  by (induction rules)
    (auto simp: pattern_new_member_expression_def pattern_new_def pattern_start_def)

lemma template_rewriters_Ok:
  "\<forall>(pre, suf, t) \<in> set rules. pre \<noteq> [] \<and> suf \<noteq> [] \<Longrightarrow>
     collect_outcomes (map (\<lambda>(pre, suf, t).
       bind_outcome (pattern_new_template pre suf t) (\<lambda>r. Ok (ExpressionPattern r))) rules) =
     Ok (map (\<lambda>(pre, suf, t). ExpressionPattern (pattern_start Identifier pre suf (Replace_Template t))) rules)"
  by (induction rules) (auto simp: pattern_new_template_def pattern_start_def)

text \<open>No rule of a profile has an empty source, prefix or suffix.\<close>

lemma sources_nonempty:
  "\<forall>(src, rep) \<in> set (response_exact_rules base_path). src \<noteq> []"
  "\<forall>(pre, suf, rep) \<in> set (response_member_expression_rules base_path). pre \<noteq> [] \<and> suf \<noteq> []"
  "\<forall>(pre, suf, t) \<in> set (response_template_rules base_path). pre \<noteq> [] \<and> suf \<noteq> []"
  "\<forall>(src, rep) \<in> set (attribute_rules base_path root). src \<noteq> []"
  "\<forall>(src, rep) \<in> set (page_steps base_path ext). src \<noteq> []"
  by (simp_all add: response_exact_rules_def response_member_expression_rules_def
      response_template_rules_def attribute_rules_def page_steps_def KUBEKEY_LEGACY_ROOT_def)

definition fresh_pipeline :: "streaming_rewriter list \<Rightarrow> nat \<Rightarrow> pipeline" where
  "fresh_pipeline rs mx = \<lparr>pl_rewriters = rs, pl_max_bytes = mx, pl_total_bytes = 0, pl_finished = False\<rparr>"

lemma exact_pipeline_Ok:
  assumes "\<forall>(src, rep) \<in> set rules. src \<noteq> []" "rules \<noteq> []"
  shows "pipeline_new_with_exact [] rules mx = Ok (fresh_pipeline (map literal_start (exact_steps rules)) mx)"
  using assms exact_literal_rewriters_Ok [OF assms(1)]
  by (simp add: pipeline_new_with_exact_def prefix_literal_rewriters_def pipeline_from_rewriters_def
      fresh_pipeline_def exact_steps_def)

lemma host_pipeline_Ok:
  "pipeline_new_with_appended_suffix location_host (trim_start_matches CHR ''/'' base_path @ ''/'') mx =
     Ok (fresh_pipeline [literal_start (host_step base_path)] mx)"
  by (simp add: pipeline_new_with_appended_suffix_def literal_new_with_appended_suffix_def literal_from_mode_def
      location_host_def pipeline_from_rewriters_def fresh_pipeline_def literal_start_def host_step_def Let_def)

lemma console_pipeline_Ok:
  assumes "root \<noteq> []"
  shows "build_response_rewriter base_path root (base_path @ root) mx =
    Ok (fresh_pipeline
          ([literal_start (Prepend (base_path @ root) base_path, root),
            literal_start (Prepend (base_path @ ''/extensions-static/'') base_path, ''/extensions-static/'')]
           @ map literal_start (exact_steps (response_exact_rules base_path))
           @ map ExpressionPattern (profile_patterns ConsoleV3 base_path)) mx)"
proof -
  have pre: "prefix_literal_rewriters [(root, base_path @ root), (''/extensions-static/'', base_path @ ''/extensions-static/'')]
      = Ok [literal_start (Prepend (base_path @ root) base_path, root),
            literal_start (Prepend (base_path @ ''/extensions-static/'') base_path, ''/extensions-static/'')]"
    using prefix_literal_rewriters_Ok [of "[(root, base_path), (''/extensions-static/'', base_path)]"] assms by simp
  show ?thesis
    unfolding build_response_rewriter_def pipeline_new_with_exact_and_member_expression_patterns_def
      pipeline_new_with_exact_def pre exact_literal_rewriters_Ok [OF sources_nonempty(1)] bind_outcome.simps
      member_rewriters_Ok [OF sources_nonempty(2)] with_identifier_template_patterns_def
      template_rewriters_Ok [OF sources_nonempty(3)] pipeline_from_rewriters_def
    by (simp add: extend_rewriters_def fresh_pipeline_def split_def o_def)
qed

lemma page_pipeline_Ok:
  "pipeline_new_with_exact []
     (attribute_rules base_path (NAMED_PROXY_ROOT @ ext @ ''/'')
      @ (if ext = KUBEKEY_NAME then [kubekey_legacy_root_rule base_path] else [])) mx =
   Ok (fresh_pipeline (map literal_start (exact_steps (page_steps base_path ext))) mx)"
proof -
  have "attribute_rules base_path (NAMED_PROXY_ROOT @ ext @ ''/'')
      @ (if ext = KUBEKEY_NAME then [kubekey_legacy_root_rule base_path] else []) = page_steps base_path ext"
    by (simp add: page_steps_def NAMED_PROXY_ROOT_def KUBEKEY_NAME_def kubekey_legacy_root_rule_def)
  moreover have "page_steps base_path ext \<noteq> []" by (simp add: page_steps_def attribute_rules_def)
  note exact_pipeline_Ok [OF sources_nonempty(5) this, of mx]
  ultimately show ?thesis by (simp only:)
qed

lemma build_selected_Ok:
  "build_selected_response_rewriter M C profile base_path ext mx = Ok (profile_pipeline M C profile base_path ext mx)"
proof (cases profile)
  case ConsoleV3
  have "''/extensions-static/'' @ ext @ ''/dist/v3dist/'' \<noteq> []" by simp
  from console_pipeline_Ok [OF this, of base_path mx] show ?thesis
    by (simp add: ConsoleV3 build_selected_response_rewriter_def profile_pipeline_def fresh_pipeline_def
        page_rewriters_def Let_def del: profile_patterns.simps)
next
  case KubekeyAssetJs
  then show ?thesis
    by (simp add: build_selected_response_rewriter_def profile_pipeline_def fresh_pipeline_def page_rewriters_def
        exact_pipeline_Ok kubekey_legacy_root_rule_def KUBEKEY_LEGACY_ROOT_def)
next
  case Ys1000FrontendIndexJsBundle
  let ?rules = "map (\<lambda>q. ([q] @ ''/proxy/ys1000/'' @ [q], [q] @ base_path @ ''/proxy/ys1000/'' @ [q])) [QUO, APO]"
  have "exact_literal_rewriters ?rules = Ok (map literal_start (exact_steps ?rules))"
    by (rule exact_literal_rewriters_Ok) simp
  with Ys1000FrontendIndexJsBundle show ?thesis
    by (simp add: build_selected_response_rewriter_def profile_pipeline_def fresh_pipeline_def page_rewriters_def
        host_pipeline_Ok with_exact_rules_def extend_rewriters_def NAMED_PROXY_ROOT_def YS1000_NAME_def Let_def)
next
  case NamedProxyHtml
  then show ?thesis
    unfolding build_selected_response_rewriter_def Let_def rewrite_profile.case NamedProxyHtml page_pipeline_Ok
    by (simp add: profile_pipeline_def fresh_pipeline_def page_rewriters_def)
next
  case Ys1000Html
  then show ?thesis
    unfolding build_selected_response_rewriter_def Let_def rewrite_profile.case Ys1000Html page_pipeline_Ok
    by (simp add: profile_pipeline_def fresh_pipeline_def page_rewriters_def with_buffered_transform_def
        extend_rewriters_def NAMED_PROXY_ROOT_def)
qed (simp_all add: build_selected_response_rewriter_def profile_pipeline_def fresh_pipeline_def page_rewriters_def
      host_pipeline_Ok)

section \<open>What a profile computes\<close>

lemma profile_literals_nonempty: "(m, src) \<in> set (profile_literals profile base_path ext) \<Longrightarrow> src \<noteq> []"
  using sources_nonempty(1) [of base_path] sources_nonempty(5) [of base_path ext]
  by (cases profile)
    (auto simp: exact_steps_def host_step_def location_host_def KUBEKEY_LEGACY_ROOT_def Let_def)

lemma profile_pipeline_fresh:
  assumes "memchr_ok M"
  shows "pipeline_fresh (profile_pipeline M C profile base_path ext mx)"
proof -
  have "literal_start step = Literal lr \<Longrightarrow> step \<in> set (profile_literals profile base_path ext) \<Longrightarrow> literal_fresh lr" for step lr
    using profile_literals_nonempty [of "fst step" "snd step"]
    by (cases step) (auto simp: literal_start_def literal_fresh_def)
  then have lit: "\<forall>r \<in> set (map literal_start (profile_literals profile base_path ext)). rewriter_fresh r"
    by (auto simp: literal_start_def split: prod.splits)
  have pat: "\<forall>r \<in> set (map ExpressionPattern (profile_patterns profile base_path)). rewriter_fresh r"
    using sources_nonempty(2,3) [of base_path]
    by (cases profile) (auto simp: pattern_start_def pattern_fresh_def pattern_wf_def)
  have page: "\<forall>r \<in> set (page_rewriters M C profile base_path ext). rewriter_fresh r"
    by (simp add: page_rewriters_def rewrite_mig_meta_base_uri_ok [OF assms])
  have "profile_literals profile base_path ext \<noteq> []"
    by (cases profile) (auto simp: exact_steps_def page_steps_def attribute_rules_def Let_def)
  with lit pat page show ?thesis by (auto simp: profile_pipeline_def pipeline_fresh_def)
qed

lemma literal_chain:
  "chain_transform rewriter_transform (map literal_start steps) x = literal_steps steps x"
  by (induction steps arbitrary: x) (auto simp: literal_steps_def literal_start_def literal_transform_def split: prod.split)

lemma pattern_chain:
  "chain_transform rewriter_transform (map ExpressionPattern prs) x = pattern_steps prs x"
  by (induction prs arbitrary: x) (auto simp: pattern_steps_def pattern_transform_def)

lemma profile_transform:
  "memchr_ok M \<Longrightarrow> pipeline_transform (profile_pipeline M C profile base_path ext mx) x = profile_spec C profile base_path ext x"
  by (simp add: pipeline_transform_def profile_pipeline_def chain_transform_append literal_chain pattern_chain
      page_rewriters_def profile_spec_def buffered_transform_def rewrite_mig_meta_base_uri_ok Let_def)

section \<open>UTF-8 is preserved\<close>

lemma literal_spec_utf8:
  "utf8_valid src \<Longrightarrow> src \<noteq> [] \<Longrightarrow> utf8_valid (mode_replacement m) \<Longrightarrow> utf8_valid xs \<Longrightarrow>
     utf8_valid (literal_spec m src seen xs)"
proof (induction "length xs" arbitrary: xs seen rule: less_induct)
  case less
  show ?case
  proof (cases "first_occ src xs")
    case None
    with less.prems(4) show ?thesis by (simp add: literal_spec_none)
  next
    case (Some i)
    have bound: "i + length src \<le> length xs" by (rule first_occ_bound [OF Some])
    have "xs = take i xs @ src @ drop (i + length src) xs"
      using first_occ_take_drop [OF Some] by (metis append.assoc append_take_drop_id)
    with less.prems(4) have "utf8_valid (take i xs @ src @ drop (i + length src) xs)" by simp
    from utf8_valid_needle [OF this less.prems(1,2)]
    have a: "utf8_valid (take i xs)" and b: "utf8_valid (drop (i + length src) xs)" by auto
    have "length (drop (i + length src) xs) < length xs"
      using bound less.prems(2) by (simp flip: length_greater_0_conv)
    from less.hyps [OF this less.prems(1,2,3) b]
    have rest: "utf8_valid (literal_spec m src (seen @ take i xs @ src) (drop (i + length src) xs))" .
    have "utf8_valid (literal_emit m src s z)" for s z
      using less.prems(1,3) by (cases m) auto
    then show ?thesis
      unfolding literal_spec_first [OF less.prems(2) Some] by (simp add: utf8_valid_append a rest)
  qed
qed

definition ascii :: "bytes \<Rightarrow> bool" where
  "ascii s \<longleftrightarrow> (\<forall>b \<in> set s. byte_val b < (128 :: nat))"

lemma ascii_valid: "ascii s \<Longrightarrow> utf8_valid s"
  unfolding ascii_def by (rule utf8_valid_ascii)

lemma utf8_valid_ascii_append: "ascii s \<Longrightarrow> utf8_valid (s @ t) \<longleftrightarrow> utf8_valid t"
  by (simp add: utf8_valid_append ascii_valid)

lemma utf8_valid_ascii_Cons: "byte_val b < (128 :: nat) \<Longrightarrow> utf8_valid (b # t) \<longleftrightarrow> utf8_valid t"
  using utf8_valid_ascii_append [of "[b]" t] by (simp add: ascii_def)

text \<open>Every literal of a profile and its replacement are valid when the configured names are.\<close>

definition steps_utf8 :: "(literal_rewrite_mode \<times> bytes) list \<Rightarrow> bool" where
  "steps_utf8 steps \<longleftrightarrow> (\<forall>(m, src) \<in> set steps. src \<noteq> [] \<and> utf8_valid src \<and> utf8_valid (mode_replacement m))"

lemma literal_steps_utf8: "steps_utf8 steps \<Longrightarrow> utf8_valid x \<Longrightarrow> utf8_valid (literal_steps steps x)"
  by (induction steps arbitrary: x) (auto simp: steps_utf8_def literal_steps_def literal_spec_utf8)

definition rules_utf8 :: "(bytes \<times> bytes) list \<Rightarrow> bool" where
  "rules_utf8 rules \<longleftrightarrow> (\<forall>(src, rep) \<in> set rules. src \<noteq> [] \<and> utf8_valid src \<and> utf8_valid rep)"

lemma exact_steps_utf8: "steps_utf8 (exact_steps rules) \<longleftrightarrow> rules_utf8 rules"
  by (auto simp: steps_utf8_def rules_utf8_def exact_steps_def)

lemma utf8_valid_trim: "utf8_valid s \<Longrightarrow> utf8_valid (trim_start_matches CHR ''/'' s)"
proof (induction s)
  case (Cons b s)
  then show ?case
    using utf8_valid_ascii_append [of "[CHR ''/'']" s] by (auto simp: trim_start_matches_def ascii_def)
qed (simp add: trim_start_matches_def)

lemma response_exact_rules_utf8: "utf8_valid base_path \<Longrightarrow> rules_utf8 (response_exact_rules base_path)"
  unfolding rules_utf8_def response_exact_rules_def
  by (simp add: utf8_valid_append utf8_valid_ascii_Cons)

lemma page_steps_utf8: "utf8_valid base_path \<Longrightarrow> utf8_valid ext \<Longrightarrow> rules_utf8 (page_steps base_path ext)"
  unfolding rules_utf8_def page_steps_def attribute_rules_def KUBEKEY_LEGACY_ROOT_def
  by (simp add: utf8_valid_append utf8_valid_ascii_Cons)

lemma profile_literals_utf8:
  assumes "utf8_valid base_path" "utf8_valid ext"
  shows "steps_utf8 (profile_literals profile base_path ext)"
proof -
  have trim: "utf8_valid (trim_start_matches CHR ''/'' base_path @ ''/'')"
    using utf8_valid_trim [OF assms(1)] by (simp add: utf8_valid_append utf8_valid_ascii_Cons)
  have host: "steps_utf8 [host_step base_path]"
    using trim by (simp add: steps_utf8_def host_step_def location_host_def utf8_valid_ascii_Cons utf8_valid_append Let_def)
  have Cons: "steps_utf8 (a # b) \<longleftrightarrow> steps_utf8 [a] \<and> steps_utf8 b"
    and append: "steps_utf8 (a' @ b) \<longleftrightarrow> steps_utf8 a' \<and> steps_utf8 b" for a a' b
    by (auto simp: steps_utf8_def)
  show ?thesis
  proof (cases profile)
    case ConsoleV3
    have "steps_utf8 (exact_steps (response_exact_rules base_path))"
      using response_exact_rules_utf8 [OF assms(1)] by (simp only: exact_steps_utf8)
    moreover have two: "steps_utf8 [(Prepend (base_path @ root) base_path, root),
        (Prepend (base_path @ ''/extensions-static/'') base_path, ''/extensions-static/'')]"
      if "root = ''/extensions-static/'' @ ext @ ''/dist/v3dist/''" for root
      using assms by (simp add: steps_utf8_def that utf8_valid_append utf8_valid_ascii_Cons)
    note two [OF refl]
    ultimately show ?thesis by (simp only: ConsoleV3 profile_literals.simps Let_def append simp_thms)
  next
    case Ys1000FrontendIndexJsBundle
    let ?rules = "map (\<lambda>q. ([q] @ ''/proxy/ys1000/'' @ [q], [q] @ base_path @ ''/proxy/ys1000/'' @ [q])) [QUO, APO]"
    have "rules_utf8 ?rules"
      using assms(1) by (simp add: rules_utf8_def utf8_valid_append utf8_valid_ascii_Cons)
    with host show ?thesis
      by (simp only: Ys1000FrontendIndexJsBundle profile_literals.simps exact_steps_utf8 simp_thms
          Cons [of "host_step base_path" "exact_steps ?rules"])
  next
    case KubekeyAssetJs
    then show ?thesis
      using assms(1)
      by (simp add: exact_steps_utf8 rules_utf8_def KUBEKEY_LEGACY_ROOT_def utf8_valid_ascii_Cons)
  qed (use host page_steps_utf8 [OF assms] in \<open>simp_all add: exact_steps_utf8\<close>)
qed

section \<open>Which bodies are accepted\<close>

lemma chain_complete_append:
  "chain_complete ok f (ss @ ts) x \<longleftrightarrow> chain_complete ok f ss x \<and> chain_complete ok f ts (chain_transform f ss x)"
  by (induction ss arbitrary: x) auto

definition texts_fit :: "(literal_rewrite_mode \<times> bytes) list \<Rightarrow> bytes \<Rightarrow> bool" where
  "texts_fit steps x \<longleftrightarrow> (\<forall>k < length steps. length (literal_steps (take k steps) x) \<le> usize_max)"

lemma texts_fit_Cons:
  "texts_fit ((m, src) # steps) x \<longleftrightarrow> length x \<le> usize_max \<and> texts_fit steps (literal_spec m src [] x)"
  by (auto simp: texts_fit_def literal_steps_def All_less_Suc2)

lemma literal_chain_complete:
  "steps_utf8 steps \<Longrightarrow> utf8_valid x \<Longrightarrow>
     chain_complete rewriter_complete rewriter_transform (map literal_start steps) x \<longleftrightarrow> texts_fit steps x"
proof (induction steps arbitrary: x)
  case Nil
  then show ?case by (simp add: texts_fit_def)
next
  case (Cons step steps)
  obtain m src where step: "step = (m, src)" by (cases step)
  from Cons.prems(1) have ok: "steps_utf8 steps" "src \<noteq> []" "utf8_valid src" "utf8_valid (mode_replacement m)"
    by (simp_all add: steps_utf8_def step)
  have "utf8_valid (literal_spec m src [] x)"
    using literal_spec_utf8 [OF ok(3,2,4) Cons.prems(2)] .
  from Cons.IH [OF ok(1) this] Cons.prems(2) show ?case
    by (simp add: step texts_fit_Cons literal_start_def literal_complete_def literal_transform_def)
qed

lemma trivial_chain_complete:
  "chain_complete rewriter_complete rewriter_transform
     (map ExpressionPattern prs @ page_rewriters M C profile base_path ext) x"
  by (induction prs arbitrary: x)
    (simp_all add: page_rewriters_def buffered_complete_def pattern_complete_def)

lemma profile_complete:
  assumes "utf8_valid base_path" "utf8_valid ext"
  shows "pipeline_complete (profile_pipeline M C profile base_path ext mx) x \<longleftrightarrow>
    length x \<le> mx \<and> utf8_valid x \<and> texts_fit (profile_literals profile base_path ext) x"
proof -
  let ?steps = "profile_literals profile base_path ext"
  have first: "utf8_valid x" if "chain_complete rewriter_complete rewriter_transform (map literal_start ?steps) x"
  proof -
    have "?steps \<noteq> []"
      by (cases profile) (auto simp: exact_steps_def page_steps_def attribute_rules_def Let_def)
    with that show ?thesis by (cases ?steps) (auto simp: literal_start_def literal_complete_def split: prod.splits)
  qed
  have "texts_fit ?steps x \<Longrightarrow> length x \<le> usize_max"
    by (cases profile) (auto simp: texts_fit_Cons exact_steps_def page_steps_def attribute_rules_def host_step_def Let_def)
  with first literal_chain_complete [OF profile_literals_utf8 [OF assms], of x profile]
  show ?thesis
    unfolding pipeline_complete_def profile_pipeline_def pipeline.simps chain_complete_append
    using trivial_chain_complete by (metis append_assoc chain_complete_append)
qed

section \<open>Properties\<close>

text \<open>
  Building the rewriter of a profile never fails: for every profile, base path, extension and
  limit there is a pipeline, ready for the first chunk and with that limit. The error branch of
  the response filter that reports a failed build is never taken.
\<close>

theorem profile_rewriter_total:
  assumes "memchr_ok M"
  shows "\<exists>p. build_selected_response_rewriter M C profile base_path extension max_bytes = Ok p
    \<and> pipeline_fresh p \<and> pl_max_bytes p = max_bytes"
  using profile_pipeline_fresh [OF assms, of C profile base_path extension max_bytes]
  by (simp add: build_selected_Ok) (simp add: profile_pipeline_def)

theorem profile_rewriter_total_witness:
  "\<exists>p. build_selected_response_rewriter std_memchr sample_codec ConsoleV3 ''/b'' ''x'' 10 = Ok p
    \<and> pipeline_fresh p \<and> pl_max_bytes p = 10"
  by (rule profile_rewriter_total [OF std_memchr_ok])

lemma profile_run:
  assumes "memchr_ok M" "utf8_valid base_path" "utf8_valid extension"
    and "build_selected_response_rewriter M C profile base_path extension max_bytes = Ok p"
  shows "chunked_run (pipeline_push M) (pipeline_finish M) p cs = Ok v \<longleftrightarrow>
    utf8_valid (concat cs) \<and> length (concat cs) \<le> max_bytes
    \<and> texts_fit (profile_literals profile base_path extension) (concat cs)
    \<and> v = profile_spec C profile base_path extension (concat cs)"
proof -
  let ?p = "profile_pipeline M C profile base_path extension max_bytes"
  have p: "p = ?p" using assms(4) by (simp add: build_selected_Ok)
  have "pipeline_tracks M ?p ?p [] []"
    by (rule pipeline_fresh_tracks [OF assms(1) profile_pipeline_fresh [OF assms(1)]])
  from pipeline_stage.run_iff [OF this, of cs v] show ?thesis
    unfolding p profile_complete [OF assms(2,3)] profile_transform [OF assms(1)] by auto
qed

lemma profile_run_not_Panic:
  assumes "memchr_ok M" "build_selected_response_rewriter M C profile base_path extension max_bytes = Ok p"
  shows "chunked_run (pipeline_push M) (pipeline_finish M) p cs \<noteq> Panic"
proof -
  let ?p = "profile_pipeline M C profile base_path extension max_bytes"
  have p: "p = ?p" using assms(2) by (simp add: build_selected_Ok)
  have tr: "pipeline_tracks M ?p ?p [] []"
    by (rule pipeline_fresh_tracks [OF assms(1) profile_pipeline_fresh [OF assms(1)]])
  show ?thesis
    using pipeline_stage.run_complete [OF tr, of cs] pipeline_stage.run_incomplete [OF tr, of cs]
    unfolding p by (cases "pipeline_complete ?p (concat cs)") auto
qed

text \<open>
  C2. The rewriter of a profile, fed a body in any chunks, succeeds exactly when the body is valid
  UTF-8 within the size limit (and no intermediate text exceeds the address space), and returns
  the literal rules, the expression patterns and the metadata rewriting of the profile applied
  to the whole body in this order.
\<close>

theorem profile_streaming:
  assumes "memchr_ok M" "utf8_valid base_path" "utf8_valid extension"
    and "build_selected_response_rewriter M C profile base_path extension max_bytes = Ok p"
  shows "chunked_run (pipeline_push M) (pipeline_finish M) p cs = Ok v \<longleftrightarrow>
    utf8_valid (concat cs) \<and> length (concat cs) \<le> max_bytes
    \<and> texts_fit (profile_literals profile base_path extension) (concat cs)
    \<and> v = profile_spec C profile base_path extension (concat cs)"
  by (rule profile_run [OF assms])

theorem profile_streaming_witness:
  "chunked_run (pipeline_push std_memchr) (pipeline_finish std_memchr)
     (profile_pipeline std_memchr sample_codec JsBundle ''/b'' ''x'' 80)
     [''a`//${window.'', ''location.host}/b/c`//${window.location.host}'', ''/c''] =
   Ok ''a`//${window.location.host}/b/c`//${window.location.host}/b/c''"
proof -
  let ?cs = "[''a`//${window.'', ''location.host}/b/c`//${window.location.host}'', ''/c'']"
  let ?v = "''a`//${window.location.host}/b/c`//${window.location.host}/b/c''"
  have build: "build_selected_response_rewriter std_memchr sample_codec JsBundle ''/b'' ''x'' 80 =
      Ok (profile_pipeline std_memchr sample_codec JsBundle ''/b'' ''x'' 80)"
    by (rule build_selected_Ok)
  have names: "utf8_valid ''/b''" "utf8_valid ''x''" by code_simp+
  have "utf8_valid (concat ?cs)" "length (concat ?cs) \<le> 80" by code_simp+
  moreover have "texts_fit (profile_literals JsBundle ''/b'' ''x'') (concat ?cs)"
    by (simp add: texts_fit_def literal_steps_def usize_max_def host_step_def Let_def)
  moreover have "profile_spec sample_codec JsBundle ''/b'' ''x'' (concat ?cs) = ?v" by code_simp
  ultimately show ?thesis
    by (subst profile_streaming [OF std_memchr_ok names build]) simp
qed

lemma literal_steps_identity:
  "\<forall>(m, src) \<in> set steps. first_occ src x = None \<Longrightarrow> literal_steps steps x = x"
  by (induction steps) (auto simp: literal_steps_def literal_spec_none)

lemma texts_fit_identity:
  assumes "\<forall>(m, src) \<in> set steps. first_occ src x = None" "length x \<le> usize_max"
  shows "texts_fit steps x"
  unfolding texts_fit_def
proof (intro allI impI)
  fix k
  have "\<forall>(m, src) \<in> set (take k steps). first_occ src x = None"
    using assms(1) by (auto dest: in_set_takeD)
  then show "length (literal_steps (take k steps) x) \<le> usize_max"
    using assms(2) by (simp only: literal_steps_identity)
qed

lemma pattern_steps_identity:
  "\<forall>pr \<in> set prs. first_occ (pr_prefix pr) x = None \<Longrightarrow> pattern_steps prs x = x"
proof (induction prs)
  case (Cons pr prs)
  then have "pattern_spec pr None x = x"
    using pattern_spec_skip [of "length x" pr x None] by (simp add: first_occ_None_iff)
  with Cons show ?case by (simp add: pattern_steps_def)
qed (simp add: pattern_steps_def)

text \<open>
  A body in which none of the profile's literals, pattern prefixes and metadata assignments
  occurs comes out byte for byte as it came in, whatever its chunks.
\<close>

theorem profile_identity:
  assumes "memchr_ok M" "utf8_valid base_path" "utf8_valid extension"
    and "build_selected_response_rewriter M C profile base_path extension max_bytes = Ok p"
    and "utf8_valid (concat cs)" "length (concat cs) \<le> max_bytes" "length (concat cs) \<le> usize_max"
    and "\<forall>(m, src) \<in> set (profile_literals profile base_path extension). \<not> str_contains src (concat cs)"
    and "\<forall>pr \<in> set (profile_patterns profile base_path). \<not> str_contains (pr_prefix pr) (concat cs)"
    and "\<not> str_contains ASSIGNMENT (concat cs)"
  shows "chunked_run (pipeline_push M) (pipeline_finish M) p cs = Ok (concat cs)"
proof -
  let ?x = "concat cs"
  have lit: "\<forall>(m, src) \<in> set (profile_literals profile base_path extension). first_occ src ?x = None"
    using assms(8) by (auto simp: str_contains_def)
  have "texts_fit (profile_literals profile base_path extension) ?x"
    by (rule texts_fit_identity [OF lit assms(7)])
  moreover have "profile_spec C profile base_path extension ?x = ?x"
    using assms(9,10) lit
    by (auto simp: profile_spec_def literal_steps_identity pattern_steps_identity str_contains_def Let_def
        mig_spec.simps [of _ _ ?x])
  moreover have "p = profile_pipeline M C profile base_path extension max_bytes"
    using assms(4) by (simp add: build_selected_Ok)
  moreover have "pipeline_tracks M p p [] []"
    unfolding calculation(3) by (rule pipeline_fresh_tracks [OF assms(1) profile_pipeline_fresh [OF assms(1)]])
  ultimately show ?thesis
    using pipeline_stage.run_complete [of M p p cs] assms(5,6)
    by (simp add: profile_complete [OF assms(2,3)] profile_transform [OF assms(1)])
qed

theorem profile_identity_witness:
  "chunked_run (pipeline_push std_memchr) (pipeline_finish std_memchr)
     (profile_pipeline std_memchr sample_codec JsBundle ''/b'' ''x'' 80) [''`//${window.lo'', ''cation.host}''] =
   Ok ''`//${window.location.host}''"
proof -
  let ?cs = "[''`//${window.lo'', ''cation.host}'']"
  have "utf8_valid ''/b''" "utf8_valid ''x''" "utf8_valid (concat ?cs)" "length (concat ?cs) \<le> 80" by code_simp+
  moreover have "length (concat ?cs) \<le> usize_max" by (simp add: usize_max_def)
  moreover have "\<forall>(m, src) \<in> set (profile_literals JsBundle ''/b'' ''x''). \<not> str_contains src (concat ?cs)"
    by code_simp
  moreover have "\<forall>pr \<in> set (profile_patterns JsBundle ''/b''). \<not> str_contains (pr_prefix pr) (concat ?cs)" by simp
  moreover have "\<not> str_contains ASSIGNMENT (concat ?cs)" by code_simp
  ultimately show ?thesis
    using profile_identity [OF std_memchr_ok _ _ build_selected_Ok, of "''/b''" "''x''" ?cs 80 JsBundle sample_codec]
    by simp
qed

end
