(* ===== verification/Headers.thy ===== *)
theory Headers
  imports Policy
begin

text \<open>
  The decisions on HTTP headers in \<open>src/proxy.rs\<close>: which content types are rewritten, which
  content encodings are identity, the derived entity tag and its comparison with
  \<open>If-None-Match\<close>, the \<open>Vary\<close> header, and the request URI. The crate \<open>http\<close> is a parameter: a
  header map is known by its \<open>get_all\<close>, \<open>insert\<close> and \<open>remove\<close>, with the laws of the locale
  \<open>header_map\<close>.
\<close>

section \<open>Header maps\<close>

locale header_map =
  fixes get_all :: "bytes \<Rightarrow> 'h \<Rightarrow> bytes list"
    and put :: "bytes \<Rightarrow> bytes \<Rightarrow> 'h \<Rightarrow> 'h option"
    and delete :: "bytes \<Rightarrow> 'h \<Rightarrow> 'h"
  assumes put_same: "put n v h = Some h' \<Longrightarrow> get_all n h' = [v]"
    and put_other: "put n v h = Some h' \<Longrightarrow> m \<noteq> n \<Longrightarrow> get_all m h' = get_all m h"
    and delete_same: "get_all n (delete n h) = []"
    and delete_other: "m \<noteq> n \<Longrightarrow> get_all m (delete n h) = get_all m h"
begin

lemma get_all_put: "put n v h = Some h' \<Longrightarrow> get_all m h' = (if m = n then [v] else get_all m h)"
  using put_same [of n v h h'] put_other [of n v h h' m] by simp

lemma get_all_delete: "get_all m (delete n h) = (if m = n then [] else get_all m h)"
  by (simp add: delete_same delete_other)

lemma get_all_deletes: "get_all m (fold delete ns h) = (if m \<in> set ns then [] else get_all m h)"
  by (induction ns arbitrary: h) (auto simp: get_all_delete)

end

record 'h header_lib =
  hv_to_str :: "bytes \<Rightarrow> bytes option" \<comment> \<open>\<open>HeaderValue::to_str\<close>\<close>
  hm_get_all :: "bytes \<Rightarrow> 'h \<Rightarrow> bytes list"
  hm_insert :: "bytes \<Rightarrow> bytes \<Rightarrow> 'h \<Rightarrow> 'h option" \<comment> \<open>\<open>None\<close>: not a header value\<close>
  hm_remove :: "bytes \<Rightarrow> 'h \<Rightarrow> 'h"

definition hm_get :: "'h header_lib \<Rightarrow> bytes \<Rightarrow> 'h \<Rightarrow> bytes option" where
  "hm_get H name h = (case hm_get_all H name h of [] \<Rightarrow> None | v # _ \<Rightarrow> Some v)"

definition visible_ascii :: "bytes \<Rightarrow> bool" where
  "visible_ascii v \<longleftrightarrow> (\<forall>b \<in> set v. let n = byte_val b :: nat in (32 \<le> n \<and> n < 127) \<or> n = 9)"

definition header_ok :: "'h header_lib \<Rightarrow> bool" where
  [wf_simps]: "header_ok H \<longleftrightarrow>
     header_map (hm_get_all H) (hm_insert H) (hm_remove H)
     \<and> (\<forall>v. hv_to_str H v = (if visible_ascii v then Some v else None))
     \<and> (\<forall>n v h. visible_ascii v \<longrightarrow> hm_insert H n v h \<noteq> None)"

text \<open>An instance: a list of names and values, in which an insertion replaces all values of the name.\<close>

definition al_get_all :: "bytes \<Rightarrow> (bytes \<times> bytes) list \<Rightarrow> bytes list" where
  "al_get_all n h = map snd (filter (\<lambda>(m, v). m = n) h)"

definition al_remove :: "bytes \<Rightarrow> (bytes \<times> bytes) list \<Rightarrow> (bytes \<times> bytes) list" where
  "al_remove n h = filter (\<lambda>(m, v). m \<noteq> n) h"

definition al_insert :: "bytes \<Rightarrow> bytes \<Rightarrow> (bytes \<times> bytes) list \<Rightarrow> (bytes \<times> bytes) list option" where
  "al_insert n v h = (if visible_ascii v then Some (al_remove n h @ [(n, v)]) else None)"

lemma al_get_all_remove: "al_get_all m (al_remove n h) = (if m = n then [] else al_get_all m h)"
  by (induction h) (auto simp: al_get_all_def al_remove_def)

lemma al_get_all_append: "al_get_all m (g @ h) = al_get_all m g @ al_get_all m h"
  by (simp add: al_get_all_def)

interpretation list_headers: header_map al_get_all al_insert al_remove
  by unfold_locales
    (auto simp: al_get_all_remove al_insert_def al_get_all_append split: if_splits,
      simp_all add: al_get_all_def)

definition list_header_lib :: "(bytes \<times> bytes) list header_lib" where
  "list_header_lib =
     \<lparr>hv_to_str = (\<lambda>v. if visible_ascii v then Some v else None),
      hm_get_all = al_get_all, hm_insert = al_insert, hm_remove = al_remove\<rparr>"

lemma list_header_lib_ok: "header_ok list_header_lib"
  using list_headers.header_map_axioms by (simp add: header_ok_def list_header_lib_def al_insert_def)

section \<open>Content type and encoding\<close>

definition selects_html_by_response_content_type :: "rewrite_profile \<Rightarrow> bool" where
  "selects_html_by_response_content_type profile \<longleftrightarrow> profile = NamedProxyHtml \<or> profile = Ys1000Html"

definition should_force_unconditional_full_response :: "rewrite_profile \<Rightarrow> bool" where
  "should_force_unconditional_full_response profile \<longleftrightarrow> \<not> selects_html_by_response_content_type profile"

definition is_rewritable_content_type :: "'h header_lib \<Rightarrow> rewrite_profile \<Rightarrow> bytes option \<Rightarrow> bool" where
  "is_rewritable_content_type H profile header =
     (case Option.bind header (hv_to_str H) of
        None \<Rightarrow> False
      | Some header_value \<Rightarrow>
          let parts = map str_trim (split_byte CHR '';'' header_value);
              media_type = to_ascii_lowercase (hd parts);
              media_type_allowed =
                (profile = FrontendIndexJsBundle \<or> profile = Ys1000FrontendIndexJsBundle)
                  \<and> media_type = ''text/plain''
                \<or> (if selects_html_by_response_content_type profile
                   then media_type \<in> set [''text/html'', ''application/xhtml+xml'']
                   else media_type \<in> set
                     [''text/javascript'', ''application/javascript'', ''application/x-javascript'',
                      ''text/css'', ''application/json'', ''text/json'', ''text/html'', ''application/xhtml+xml''])
          in media_type_allowed
             \<and> list_all (\<lambda>parameter.
                  case split_once ''='' parameter of
                    None \<Rightarrow> True
                  | Some (name, parameter_value) \<Rightarrow>
                      \<not> eq_ignore_ascii_case (str_trim name) ''charset''
                      \<or> to_ascii_lowercase (trim_matches QUO (str_trim parameter_value)) \<in> set [''utf-8'', ''utf8''])
                (tl parts))"

definition is_identity_encoding :: "'h header_lib \<Rightarrow> bytes option \<Rightarrow> bool" where
  "is_identity_encoding H header =
     (case Option.bind header (hv_to_str H) of
        None \<Rightarrow> True
      | Some encoding \<Rightarrow> str_trim encoding = [] \<or> eq_ignore_ascii_case encoding ''identity'')"

section \<open>Entity tags\<close>

definition REWRITE_RULE_VERSION :: bytes where
  "REWRITE_RULE_VERSION = ''v34''"

record digest_lib =
  blake3 :: "bytes \<Rightarrow> bytes"
  b64_url_safe_no_pad :: "bytes \<Rightarrow> bytes"

text \<open>What the hasher is fed: each component and a zero byte.\<close>

definition etag_preimage :: "bytes \<Rightarrow> bytes \<Rightarrow> bytes \<Rightarrow> bytes" where
  "etag_preimage upstream_etag base_path extension =
     concat (map (\<lambda>component. component @ [CHR 0x00])
       [upstream_etag, base_path, extension, REWRITE_RULE_VERSION])"

definition derive_etag :: "digest_lib \<Rightarrow> bytes \<Rightarrow> bytes \<Rightarrow> bytes \<Rightarrow> bytes" where
  "derive_etag D upstream_etag base_path extension =
     (let digest = b64_url_safe_no_pad D (blake3 D (etag_preimage upstream_etag base_path extension))
      in ''W/'' @ [QUO] @ ''kserw-'' @ REWRITE_RULE_VERSION @ ''-'' @ digest @ [QUO])"

definition reliable_etag :: "bytes \<Rightarrow> bytes option" where
  "reliable_etag bytes =
     (let opaque = (case strip_prefix ''W/'' bytes of Some rest \<Rightarrow> rest | None \<Rightarrow> bytes)
      in if length opaque < 2 \<or> hd opaque \<noteq> QUO \<or> last opaque \<noteq> QUO then None
         else if list_all (\<lambda>b. let n = byte_val b :: nat in n = 0x21 \<or> (0x23 \<le> n \<and> n \<le> 0x7E) \<or> 0x80 \<le> n)
                   (take (length opaque - 2) (drop 1 opaque))
         then Some bytes else None)"

definition if_none_match_matches :: "'h header_lib \<Rightarrow> bytes option \<Rightarrow> bytes \<Rightarrow> bool" where
  "if_none_match_matches H header derived_etag =
     (case Option.bind header (hv_to_str H) of
        None \<Rightarrow> False
      | Some v \<Rightarrow>
          list_ex (\<lambda>candidate. candidate = ''*'' \<or> candidate = derived_etag)
            (map str_trim (split_byte CHR '','' v)))"

section \<open>Vary\<close>

definition vary_values :: "'h header_lib \<Rightarrow> 'h \<Rightarrow> bytes list" where
  "vary_values H headers =
     filter (\<lambda>v. v \<noteq> [])
       (map str_trim (concat (map (split_byte CHR '','') (List.map_filter (hv_to_str H) (hm_get_all H ''vary'' headers)))))"

definition ensure_vary_accept_encoding :: "'h header_lib \<Rightarrow> 'h \<Rightarrow> 'h option" where
  "ensure_vary_accept_encoding H headers =
     (let vary = vary_values H headers
      in if list_ex (\<lambda>v. v = ''*'' \<or> eq_ignore_ascii_case v ''accept-encoding'') vary then Some headers
         else hm_insert H ''vary'' (join_bytes '', '' (vary @ [''Accept-Encoding''])) headers)"

section \<open>The upstream URI\<close>

text \<open>
  A \<open>http::Uri\<close> is known by its path and its \<open>path_and_query\<close>; parsing the new URI is a
  parameter, whose failure is the error of the function.
\<close>

record uri =
  uri_path :: bytes
  uri_path_and_query :: "bytes option"

definition API_PATH_MARKERS :: "bytes list" where
  "API_PATH_MARKERS = [''/api/'', ''/apis/'', ''/kapi/'', ''/kapis/'']"

definition api_uri_with_base_path ::
  "(bytes \<Rightarrow> uri option) \<Rightarrow> uri \<Rightarrow> bytes \<Rightarrow> (unit, uri option) outcome" where
  "api_uri_with_base_path parse_uri u base_path =
     (let path = uri_path u;
          already_scoped =
            (path = base_path
             \<or> (case strip_prefix base_path path of Some suf \<Rightarrow> prefix ''/'' suf | None \<Rightarrow> False))
      in if base_path = [] \<or> already_scoped \<or> \<not> list_ex (\<lambda>marker. str_contains marker path) API_PATH_MARKERS
         then Ok None
         else
           let path_and_query = (case uri_path_and_query u of Some pq \<Rightarrow> pq | None \<Rightarrow> path)
           in case parse_uri (base_path @ path_and_query) of
                Some u' \<Rightarrow> Ok (Some u')
              | None \<Rightarrow> Err ())"

end
