(* ===== verification/Headers_Correct.thy ===== *)
theory Headers_Correct
  imports Headers
begin

text \<open>
  Properties of the header decisions: the grammar of reliable entity tags, what identifies a
  derived tag, revalidation, the \<open>Vary\<close> header, content types and the upstream URI.
\<close>

section \<open>Trimming of visible ASCII\<close>

definition ws :: "byte \<Rightarrow> bool" where
  "ws b \<longleftrightarrow> is_whitespace [b]"

lemma ws_comma [simp]: "ws (CHR '' '')" "\<not> ws (CHR '','')" "\<not> ws (CHR ''*'')" "\<not> ws QUO" "\<not> ws (CHR ''W'')"
  by (simp_all add: ws_def is_whitespace_def code_point_def Let_def)

definition ascii_text :: "bytes \<Rightarrow> bool" where
  "ascii_text s \<longleftrightarrow> (\<forall>b \<in> set s. byte_val b < (128 :: nat))"

lemma visible_ascii_text: "visible_ascii v \<Longrightarrow> ascii_text v"
  by (auto simp: visible_ascii_def ascii_text_def Let_def)

lemma str_chars_ascii: "ascii_text s \<Longrightarrow> str_chars s = map (\<lambda>b. [b]) s"
proof (induction s)
  case (Cons b s)
  then have "utf8_seq b s = Seq 1" by (simp add: ascii_text_def utf8_seq_ascii)
  then have "str_chars (b # s) = [b] # str_chars s" by (subst str_chars.simps) (simp add: Let_def)
  with Cons show ?case by (simp add: ascii_text_def del: str_chars.simps)
qed simp

lemma concat_singletons [simp]: "concat (map (\<lambda>b. [b]) s) = s"
  by (induction s) auto

lemma str_trim_ascii:
  assumes "ascii_text s"
  shows "str_trim s = rev (dropWhile ws (rev (dropWhile ws s)))"
proof -
  have w: "is_whitespace \<circ> (\<lambda>b. [b]) = ws" by (simp add: fun_eq_iff ws_def)
  have "dropWhile is_whitespace (str_chars s) = map (\<lambda>b. [b]) (dropWhile ws s)"
    by (simp add: str_chars_ascii [OF assms] dropWhile_map w)
  then have "str_trim s = concat (rev (map (\<lambda>b. [b]) (dropWhile ws (rev (dropWhile ws s)))))"
    unfolding str_trim_def by (simp add: dropWhile_map w rev_map)
  then show ?thesis by (simp add: rev_map)
qed

definition trimmed :: "bytes \<Rightarrow> bool" where
  "trimmed s \<longleftrightarrow> s = [] \<or> (\<not> ws (hd s) \<and> \<not> ws (last s))"

lemma str_trim_trimmed:
  assumes "ascii_text s" "trimmed s"
  shows "str_trim s = s"
proof (cases s)
  case (Cons b t)
  with assms(2) have "dropWhile ws s = s" by (simp add: trimmed_def)
  moreover have "rev s = last s # rev (butlast s)" using Cons by (cases s rule: rev_cases) auto
  then have "dropWhile ws (rev s) = rev s" using assms(2) Cons by (simp add: trimmed_def)
  ultimately show ?thesis by (simp add: str_trim_ascii [OF assms(1)])
qed (simp add: str_trim_def)

lemma str_trim_space:
  "ascii_text s \<Longrightarrow> str_trim (CHR '' '' # s) = str_trim s"
  by (simp add: str_trim_ascii ascii_text_def)

lemma set_str_trim: "ascii_text s \<Longrightarrow> set (str_trim s) \<subseteq> set s"
  by (auto simp: str_trim_ascii dest!: set_dropWhileD)

lemma trimmed_str_trim:
  assumes "ascii_text s"
  shows "trimmed (str_trim s)"
proof (cases "dropWhile ws s")
  case Nil
  show ?thesis unfolding str_trim_ascii [OF assms] Nil by (simp add: trimmed_def)
next
  case (Cons b t)
  have b: "\<not> ws b" using Cons by (metis hd_dropWhile list.sel(1) list.simps(3))
  let ?u = "dropWhile ws (rev (b # t))"
  have "\<exists>x \<in> set (rev (b # t)). \<not> ws x" using b by auto
  then have ne: "?u \<noteq> []" by (simp only: dropWhile_eq_Nil_conv) blast
  then have hd: "\<not> ws (hd ?u)" by (rule hd_dropWhile)
  have "\<exists>p. rev (b # t) = p @ ?u" by (metis takeWhile_dropWhile_id)
  then have "last ?u = b" using ne by (metis last_append last_rev list.sel(1) list.simps(3))
  with hd ne b show ?thesis
    by (simp add: str_trim_ascii [OF assms] Cons trimmed_def hd_rev last_rev del: rev.simps dropWhile.simps)
qed

section \<open>Lists in header values\<close>

lemma set_split_byte: "x \<in> set (split_byte c s) \<Longrightarrow> set x \<subseteq> set s"
proof (induction s arbitrary: x)
  case (Cons b s)
  obtain y ys where y: "split_byte c s = y # ys" by (meson list.exhaust split_byte_nonempty)
  with Cons.IH [of y] Cons.IH [of x] Cons.prems show ?case by (auto split: if_splits)
qed simp

lemma split_space:
  assumes "ascii_text s"
  shows "map str_trim (split_byte CHR '','' (CHR '' '' # s)) = map str_trim (split_byte CHR '','' s)"
proof -
  obtain y ys where y: "split_byte CHR '','' s = y # ys" by (meson list.exhaust split_byte_nonempty)
  then have "set y \<subseteq> set s" using set_split_byte [of y "CHR '',''" s] by simp
  then have "ascii_text y" using assms by (auto simp: ascii_text_def)
  then show ?thesis by (simp add: y str_trim_space)
qed

lemma set_join_bytes: "set (join_bytes sep xs) \<subseteq> set sep \<union> (\<Union>x \<in> set xs. set x)"
  by (induction sep xs rule: join_bytes.induct) auto

lemma ascii_join: "\<forall>x \<in> set xs. ascii_text x \<Longrightarrow> ascii_text (join_bytes '', '' xs)"
  using set_join_bytes [of "'', ''" xs] by (fastforce simp: ascii_text_def)

text \<open>Joining values with commas and splitting them again is the identity on trimmed values.\<close>

lemma split_join:
  "xs \<noteq> [] \<Longrightarrow> \<forall>x \<in> set xs. ascii_text x \<and> CHR '','' \<notin> set x \<and> trimmed x \<Longrightarrow>
     map str_trim (split_byte CHR '','' (join_bytes '', '' xs)) = xs"
proof (induction xs rule: induct_list012)
  case (2 x)
  then show ?case by (simp add: split_byte_single str_trim_trimmed)
next
  case (3 x y ys)
  have "ascii_text (join_bytes '', '' (y # ys))" by (rule ascii_join) (use "3.prems" in auto)
  from split_space [OF this] "3.IH"(2) "3.prems" show ?case
    by (simp add: split_byte_append str_trim_trimmed)
qed simp

lemma vary_value_ok:
  assumes H: "header_ok H" and v: "v \<in> set (vary_values H h)"
  shows "visible_ascii v \<and> CHR '','' \<notin> set v \<and> trimmed v \<and> v \<noteq> []"
proof -
  from v obtain raw w z where raw: "hv_to_str H raw = Some w"
    and z: "z \<in> set (split_byte CHR '','' w)" "v = str_trim z" and ne: "v \<noteq> []"
    by (auto simp: vary_values_def List.map_filter_def)
  from H raw have w: "visible_ascii w" by (auto simp: header_ok_def split: if_splits)
  have "set z \<subseteq> set w" by (rule set_split_byte [OF z(1)])
  with w have za: "visible_ascii z" by (auto simp: visible_ascii_def)
  then have zt: "ascii_text z" by (rule visible_ascii_text)
  from set_str_trim [OF zt] za z(2) have "visible_ascii v" by (auto simp: visible_ascii_def)
  moreover have "CHR '','' \<notin> set v"
    using split_byte_no_sep [OF z(1)] set_str_trim [OF zt] z(2) by auto
  ultimately show ?thesis using trimmed_str_trim [OF zt] z(2) ne by simp
qed

definition vary_covers :: "bytes list \<Rightarrow> bool" where
  "vary_covers vary \<longleftrightarrow> (\<exists>v \<in> set vary. v = ''*'' \<or> eq_ignore_ascii_case v ''accept-encoding'')"

lemma header_okD:
  assumes "header_ok H"
  shows "hm_insert H n v h = Some h' \<Longrightarrow> hm_get_all H m h' = (if m = n then [v] else hm_get_all H m h)"
    and "hm_get_all H m (hm_remove H n h) = (if m = n then [] else hm_get_all H m h)"
    and "visible_ascii v \<Longrightarrow> \<exists>h'. hm_insert H n v h = Some h'"
    and "hv_to_str H v = (if visible_ascii v then Some v else None)"
  using assms header_map.get_all_put [of "hm_get_all H" "hm_insert H" "hm_remove H"]
    header_map.get_all_delete [of "hm_get_all H" "hm_insert H" "hm_remove H"]
  by (auto simp: header_ok_def)

lemma visible_join: "\<forall>x \<in> set xs. visible_ascii x \<Longrightarrow> visible_ascii (join_bytes '', '' xs)"
  using set_join_bytes [of "'', ''" xs] by (fastforce simp: visible_ascii_def)

section \<open>Properties of the Vary header\<close>

lemma vary_values_single:
  assumes "header_ok H" "hm_get_all H ''vary'' h = [v]" "visible_ascii v"
  shows "vary_values H h = filter (\<lambda>v. v \<noteq> []) (map str_trim (split_byte CHR '','' v))"
  using assms by (simp add: vary_values_def header_okD(4) List.map_filter_def)

lemma ensure_vary_adds:
  assumes H: "header_ok H" and no: "\<not> vary_covers (vary_values H h)"
  shows "\<exists>h'. ensure_vary_accept_encoding H h = Some h'
    \<and> vary_values H h' = vary_values H h @ [''Accept-Encoding'']
    \<and> (\<forall>n. n \<noteq> ''vary'' \<longrightarrow> hm_get_all H n h' = hm_get_all H n h)"
proof -
  let ?vs = "vary_values H h @ [''Accept-Encoding'']"
  have vs: "visible_ascii v \<and> CHR '','' \<notin> set v \<and> trimmed v \<and> v \<noteq> []" if "v \<in> set ?vs" for v
  proof (cases "v \<in> set (vary_values H h)")
    case False
    with that have "v = ''Accept-Encoding''" by simp
    then show ?thesis by (simp add: visible_ascii_def trimmed_def ws_def is_whitespace_def code_point_def Let_def)
  qed (rule vary_value_ok [OF H])
  have vis: "visible_ascii (join_bytes '', '' ?vs)" by (rule visible_join) (use vs in blast)
  obtain h' where h': "hm_insert H ''vary'' (join_bytes '', '' ?vs) h = Some h'"
    using header_okD(3) [OF H vis] by blast
  have "map str_trim (split_byte CHR '','' (join_bytes '', '' ?vs)) = ?vs"
    by (rule split_join) (use vs visible_ascii_text in auto)
  moreover have "filter (\<lambda>v. v \<noteq> []) ?vs = ?vs" using vs by (simp add: filter_id_conv)
  ultimately have "vary_values H h' = ?vs"
    using vary_values_single [OF H _ vis, of h'] header_okD(1) [OF H h', of "''vary''"] by simp
  moreover have "ensure_vary_accept_encoding H h = Some h'"
    using no h' by (simp add: ensure_vary_accept_encoding_def vary_covers_def list_ex_iff Let_def)
  ultimately show ?thesis using header_okD(1) [OF H h'] by auto
qed

lemma accept_encoding_covers: "vary_covers (vs @ [''Accept-Encoding''])"
  unfolding vary_covers_def by (intro bexI [of _ "''Accept-Encoding''"]) (simp_all, code_simp)

lemma ensure_vary_ok:
  assumes "header_ok H"
  shows "\<exists>h'. ensure_vary_accept_encoding H h = Some h' \<and> vary_covers (vary_values H h')
    \<and> prefix (vary_values H h) (vary_values H h') \<and> ensure_vary_accept_encoding H h' = Some h'
    \<and> (\<forall>n. n \<noteq> ''vary'' \<longrightarrow> hm_get_all H n h' = hm_get_all H n h)"
proof (cases "vary_covers (vary_values H h)")
  case True
  then have "ensure_vary_accept_encoding H h = Some h"
    by (auto simp: ensure_vary_accept_encoding_def vary_covers_def list_ex_iff Let_def)
  with True show ?thesis by simp
next
  case False
  from ensure_vary_adds [OF assms False] obtain h' where h': "ensure_vary_accept_encoding H h = Some h'"
    "vary_values H h' = vary_values H h @ [''Accept-Encoding'']"
    "\<forall>n. n \<noteq> ''vary'' \<longrightarrow> hm_get_all H n h' = hm_get_all H n h"
    by blast
  have covers: "vary_covers (vary_values H h')" by (simp only: h'(2) accept_encoding_covers)
  then have "ensure_vary_accept_encoding H h' = Some h'"
    by (auto simp: ensure_vary_accept_encoding_def vary_covers_def list_ex_iff Let_def)
  with h' covers show ?thesis by auto
qed

text \<open>
  \<open>ensure_vary_accept_encoding\<close> never fails; afterwards \<open>Vary\<close> lists the accepted encodings (or
  is a star), all values it had are kept in their order, no other header changes, and doing it
  again changes nothing.
\<close>

theorem vary_ensured:
  assumes "header_ok H"
  shows "\<exists>h'. ensure_vary_accept_encoding H h = Some h' \<and> vary_covers (vary_values H h')
    \<and> prefix (vary_values H h) (vary_values H h') \<and> ensure_vary_accept_encoding H h' = Some h'
    \<and> (\<forall>n. n \<noteq> ''vary'' \<longrightarrow> hm_get_all H n h' = hm_get_all H n h)"
  by (rule ensure_vary_ok [OF assms])

theorem vary_ensured_witness:
  "vary_covers (vary_values list_header_lib [(''etag'', ''v''), (''vary'', ''Origin, X-A, Accept-Encoding'')])"
proof -
  let ?h = "[(''vary'', ''Origin,  X-A''), (''etag'', ''v'')]"
  have "ensure_vary_accept_encoding list_header_lib ?h
      = Some [(''etag'', ''v''), (''vary'', ''Origin, X-A, Accept-Encoding'')]" by code_simp
  with vary_ensured [OF list_header_lib_ok, of ?h] show ?thesis by simp
qed

section \<open>Properties of entity tags\<close>

definition etagc :: "byte \<Rightarrow> bool" where
  "etagc b \<longleftrightarrow> (let n = byte_val b :: nat in n = 0x21 \<or> (0x23 \<le> n \<and> n \<le> 0x7E) \<or> 0x80 \<le> n)"

lemma quoted_cases:
  "(2 \<le> length s \<and> hd s = q \<and> last s = q) \<longleftrightarrow> (\<exists>m. s = q # m @ [q])"
  by (cases s; cases "tl s" rule: rev_cases) (auto simp: numeral_2_eq_2)

lemma reliable_etag_iff:
  "reliable_etag v = Some w \<longleftrightarrow>
     w = v \<and> (\<exists>weak opaque. weak \<in> {[], ''W/''} \<and> v = weak @ [QUO] @ opaque @ [QUO] \<and> list_all etagc opaque)"
proof -
  have quoted: "(length s < 2 \<or> hd s \<noteq> QUO \<or> last s \<noteq> QUO) \<longleftrightarrow> \<not> (\<exists>m. s = QUO # m @ [QUO])" for s
    using quoted_cases [of s QUO] by (auto simp: not_less)
  have middle: "take (length s - 2) (drop 1 s) = m" if "s = QUO # m @ [QUO]" for s m
    using that by simp
  have body: "reliable_etag v = Some w \<longleftrightarrow> w = v \<and> (\<exists>m. s = QUO # m @ [QUO] \<and> list_all etagc m)"
    if "s = (case strip_prefix ''W/'' v of Some rest \<Rightarrow> rest | None \<Rightarrow> v)" for s
    unfolding reliable_etag_def that [symmetric] Let_def quoted etagc_def [abs_def]
    by (auto simp: list_all_iff)
  show ?thesis
  proof (cases "strip_prefix ''W/'' v")
    case None
    then have "v \<noteq> ''W/'' @ r" for r by (auto simp: strip_prefix_None_iff)
    then have "\<not> (w = v \<and> (\<exists>m. v = ''W/'' @ [QUO] @ m @ [QUO] \<and> list_all etagc m))" by blast
    with body [of v] None show ?thesis by auto
  next
    case (Some rest)
    then have "v = ''W/'' @ rest" by (simp add: strip_prefix_Some_iff)
    with body [of rest] Some show ?thesis by auto
  qed
qed

text \<open>
  An upstream entity tag is reliable exactly when it has the form of RFC 9110: optionally
  \<open>W/\<close>, then a quoted string of tag characters; and then it is used unchanged.
\<close>

theorem reliable_etag_grammar:
  "reliable_etag v = Some w \<longleftrightarrow>
     w = v \<and> (\<exists>weak opaque. weak \<in> {[], ''W/''} \<and> v = weak @ [QUO] @ opaque @ [QUO] \<and> list_all etagc opaque)"
  by (rule reliable_etag_iff)

text \<open>
  What is asked of the digest crates: the encoded digest has no other characters than those of
  the URL-safe alphabet.
\<close>

definition digest_ok :: "digest_lib \<Rightarrow> bool" where
  [wf_simps]: "digest_ok D \<longleftrightarrow>
     (\<forall>x. \<forall>b \<in> set (b64_url_safe_no_pad D x). is_ascii_alphanumeric b \<or> b = CHR ''-'' \<or> b = CHR ''_'')"

lemma nul_split:
  assumes "CHR 0x00 \<notin> set a" "CHR 0x00 \<notin> set a'"
  shows "a @ CHR 0x00 # r = a' @ CHR 0x00 # r' \<longleftrightarrow> a = a' \<and> r = r'"
  using split_once_byte_iff [of "CHR 0x00" "a @ CHR 0x00 # r" a r]
    split_once_byte_iff [of "CHR 0x00" "a @ CHR 0x00 # r" a' r'] assms
  by auto

lemma reliable_no_nul: "reliable_etag e = Some e \<Longrightarrow> CHR 0x00 \<notin> set e"
  by (force simp: reliable_etag_iff list_all_iff etagc_def Let_def)

text \<open>
  What a derived tag is a digest of identifies its three components: two bodies have the same
  preimage only when the upstream tag, the base path and the extension are all the same, as none
  of them holds a zero byte (an upstream tag never does once it is reliable).
\<close>

theorem etag_preimage_injective:
  assumes "CHR 0x00 \<notin> set b" "CHR 0x00 \<notin> set b'" "CHR 0x00 \<notin> set x" "CHR 0x00 \<notin> set x'"
    and "reliable_etag e = Some e" "reliable_etag e' = Some e'"
  shows "etag_preimage e b x = etag_preimage e' b' x' \<longleftrightarrow> e = e' \<and> b = b' \<and> x = x'"
  using assms(1-4) reliable_no_nul [OF assms(5)] reliable_no_nul [OF assms(6)]
  by (auto simp: etag_preimage_def nul_split)

theorem etag_preimage_injective_witness:
  "etag_preimage [QUO, CHR ''v'', QUO] ''/b'' ''xy'' \<noteq> etag_preimage [QUO, CHR ''v'', QUO] ''/bx'' ''y''"
proof -
  have "reliable_etag [QUO, CHR ''v'', QUO] = Some [QUO, CHR ''v'', QUO]" by code_simp
  from etag_preimage_injective [OF _ _ _ _ this this, of "''/b''" "''/bx''" "''xy''" "''y''"]
  show ?thesis by simp
qed

lemma token_byte:
  "is_ascii_alphanumeric b \<or> b = CHR ''-'' \<or> b = CHR ''_'' \<Longrightarrow>
     etagc b \<and> visible_ascii [b] \<and> b \<noteq> CHR '',''"
  by (auto simp: is_ascii_alphanumeric_def is_ascii_alphabetic_def is_ascii_digit_def etagc_def
      visible_ascii_def Let_def)

lemma visible_ascii_append [simp]: "visible_ascii (a @ b) \<longleftrightarrow> visible_ascii a \<and> visible_ascii b"
  by (auto simp: visible_ascii_def)

lemma derived_etag_form:
  assumes "digest_ok D"
  obtains opaque where "derive_etag D e b x = ''W/'' @ [QUO] @ opaque @ [QUO]" "list_all etagc opaque"
    "visible_ascii (derive_etag D e b x)" "CHR '','' \<notin> set (derive_etag D e b x)" "trimmed (derive_etag D e b x)"
proof -
  let ?d = "b64_url_safe_no_pad D (blake3 D (etag_preimage e b x))"
  have d: "etagc c \<and> visible_ascii [c] \<and> c \<noteq> CHR '',''" if "c \<in> set ?d" for c
    using assms that by (intro token_byte) (auto simp: digest_ok_def)
  then have "visible_ascii ?d" by (auto simp: visible_ascii_def)
  with d show thesis
    by (intro that [of "''kserw-v34-'' @ ?d"])
      (auto simp: derive_etag_def REWRITE_RULE_VERSION_def Let_def list_all_iff etagc_def visible_ascii_def trimmed_def)
qed

text \<open>
  C34. Revalidation works: the derived tag is itself a reliable tag and visible ASCII, and a client
  that sends it back, alone or in a list after other tags, gets a match.
\<close>

theorem derived_etag_revalidates:
  assumes "header_ok H" "digest_ok D" "visible_ascii others"
  shows "reliable_etag (derive_etag D e b x) = Some (derive_etag D e b x)
    \<and> visible_ascii (derive_etag D e b x)
    \<and> if_none_match_matches H (Some (derive_etag D e b x)) (derive_etag D e b x)
    \<and> if_none_match_matches H (Some (others @ '', '' @ derive_etag D e b x)) (derive_etag D e b x)"
proof -
  let ?t = "derive_etag D e b x"
  obtain opaque where t: "?t = ''W/'' @ [QUO] @ opaque @ [QUO]" "list_all etagc opaque"
    "visible_ascii ?t" "CHR '','' \<notin> set ?t" "trimmed ?t"
    by (rule derived_etag_form [OF assms(2)])
  have trim: "str_trim ?t = ?t" "str_trim (CHR '' '' # ?t) = ?t"
    using t(3,5) by (simp_all add: visible_ascii_text str_trim_trimmed str_trim_space)
  have "reliable_etag ?t = Some ?t" unfolding reliable_etag_iff using t(1,2) by blast
  moreover have "if_none_match_matches H (Some ?t) ?t"
    using t(3,4) trim by (simp add: if_none_match_matches_def header_okD(4) [OF assms(1)] split_byte_single)
  moreover have "split_byte CHR '','' (others @ '', '' @ ?t) = split_byte CHR '','' others @ [CHR '' '' # ?t]"
    using t(4) by (simp add: split_byte_at split_byte_single)
  then have "if_none_match_matches H (Some (others @ '', '' @ ?t)) ?t"
    using t(3) trim assms(3)
    by (auto simp: if_none_match_matches_def header_okD(4) [OF assms(1)] visible_ascii_def)
  ultimately show ?thesis using t(3) by blast
qed

definition sample_digest :: digest_lib where
  "sample_digest = \<lparr>blake3 = (\<lambda>x. [char_of (65 + length x mod 16)]), b64_url_safe_no_pad = map (\<lambda>b. CHR ''x'')\<rparr>"

lemma sample_digest_ok: "digest_ok sample_digest"
  by (simp add: digest_ok_def sample_digest_def is_ascii_alphanumeric_def is_ascii_alphabetic_def)

theorem derived_etag_revalidates_witness:
  "if_none_match_matches list_header_lib
     (Some (''a, '' @ ''W/'' @ [QUO] @ ''kserw-v34-x'' @ [QUO])) (''W/'' @ [QUO] @ ''kserw-v34-x'' @ [QUO])"
proof -
  have "visible_ascii ''a''" "derive_etag sample_digest ''e'' ''b'' ''x'' = ''W/'' @ [QUO] @ ''kserw-v34-x'' @ [QUO]"
    by code_simp+
  with derived_etag_revalidates [OF list_header_lib_ok sample_digest_ok this(1), of "''e''" "''b''" "''x''"]
  show ?thesis by simp
qed

section \<open>Properties of content headers\<close>

lemma all_dropWhile: "(\<forall>x \<in> set (dropWhile P v). P x) \<longleftrightarrow> (\<forall>x \<in> set v. P x)"
  by (induction v) auto

text \<open>The two halves of the content type test: the media type and its parameters.\<close>

definition media_allowed :: "rewrite_profile \<Rightarrow> bytes \<Rightarrow> bool" where
  "media_allowed profile media_type \<longleftrightarrow>
     ((profile = FrontendIndexJsBundle \<or> profile = Ys1000FrontendIndexJsBundle) \<and> media_type = ''text/plain'')
     \<or> (if selects_html_by_response_content_type profile
        then media_type \<in> set [''text/html'', ''application/xhtml+xml'']
        else media_type \<in> set
          [''text/javascript'', ''application/javascript'', ''application/x-javascript'',
           ''text/css'', ''application/json'', ''text/json'', ''text/html'', ''application/xhtml+xml''])"

definition parameter_ok :: "bytes \<Rightarrow> bool" where
  "parameter_ok parameter \<longleftrightarrow>
     (case split_once ''='' parameter of
        None \<Rightarrow> True
      | Some (name, parameter_value) \<Rightarrow>
          \<not> eq_ignore_ascii_case (str_trim name) ''charset''
          \<or> to_ascii_lowercase (trim_matches QUO (str_trim parameter_value)) \<in> set [''utf-8'', ''utf8''])"

lemma content_type_parts:
  assumes "header_ok H" "visible_ascii v" "map str_trim (split_byte CHR '';'' v) = media # params"
  shows "is_rewritable_content_type H profile (Some v) \<longleftrightarrow>
    media_allowed profile (to_ascii_lowercase media) \<and> list_all parameter_ok params"
  unfolding is_rewritable_content_type_def media_allowed_def parameter_ok_def
  by (simp only: bind.bind_lunit header_okD(4) [OF assms(1)] assms(2,3) if_True option.case Let_def list.sel)

text \<open>
  A \<open>charset\<close> parameter restricts what the media type alone allows: the body is rewritten only
  for UTF-8, in any case and with either spelling.
\<close>

theorem content_type_charset:
  assumes "header_ok H" "visible_ascii media" "trimmed media" "visible_ascii charset" "trimmed charset"
    and "CHR '';'' \<notin> set media" "CHR '';'' \<notin> set charset" "QUO \<notin> set charset"
  shows "is_rewritable_content_type H profile (Some (media @ ''; charset='' @ charset)) \<longleftrightarrow>
    is_rewritable_content_type H profile (Some media) \<and> to_ascii_lowercase charset \<in> {''utf-8'', ''utf8''}"
proof -
  let ?param = "''charset='' @ charset"
  have va: "visible_ascii ?param" "visible_ascii (media @ ''; charset='' @ charset)"
    using assms(2,4) by (auto simp: visible_ascii_def)
  have "trimmed ?param"
    using assms(5) by (auto simp: trimmed_def ws_def is_whitespace_def code_point_def Let_def)
  with va have "str_trim (CHR '' '' # ?param) = ?param"
    using str_trim_space [of ?param] str_trim_trimmed [of ?param] by (simp add: visible_ascii_text)
  moreover have "split_byte CHR '';'' (media @ ''; charset='' @ charset) = [media, CHR '' '' # ?param]"
    using assms(6,7) split_byte_append [of "CHR '';''" media "'' charset='' @ charset"]
    by (simp add: split_byte_single)
  moreover have "split_once ''='' ?param = Some (''charset'', charset)"
    by (simp add: split_once_byte_iff)
  moreover have "str_trim ''charset'' = ''charset''" "eq_ignore_ascii_case ''charset'' ''charset''" by code_simp+
  moreover have "trim_matches QUO charset = charset"
    using assms(8) by (simp add: trim_matches_def trim_matches_none)
  moreover have charset: "str_trim charset = charset" and media: "str_trim media = media"
    using assms(2-5) by (simp_all add: visible_ascii_text str_trim_trimmed)
  ultimately have split: "map str_trim (split_byte CHR '';'' (media @ ''; charset='' @ charset)) = [media, ?param]"
    and param: "parameter_ok ?param \<longleftrightarrow> to_ascii_lowercase charset \<in> {''utf-8'', ''utf8''}"
    unfolding parameter_ok_def by (simp_all only: option.case prod.case) simp_all
  have "map str_trim (split_byte CHR '';'' media) = [media]" using assms(6) media by (simp add: split_byte_single)
  from content_type_parts [OF assms(1,2) this] content_type_parts [OF assms(1) va(2) split]
  show ?thesis unfolding list_all_iff using param by simp
qed

theorem content_type_charset_witness:
  "is_rewritable_content_type list_header_lib JsBundle (Some (''text/css'' @ ''; charset='' @ ''UTF-8''))
   \<and> \<not> is_rewritable_content_type list_header_lib JsBundle (Some (''text/css'' @ ''; charset='' @ ''gbk''))"
proof -
  have "visible_ascii ''text/css''" "trimmed ''text/css''" "visible_ascii ''UTF-8''" "trimmed ''UTF-8''"
    "visible_ascii ''gbk''" "trimmed ''gbk''" by code_simp+
  moreover have "is_rewritable_content_type list_header_lib JsBundle (Some ''text/css'')" by code_simp
  moreover have "to_ascii_lowercase ''UTF-8'' = ''utf-8''" "to_ascii_lowercase ''gbk'' = ''gbk''" by code_simp+
  ultimately show ?thesis
    using content_type_charset [OF list_header_lib_ok, of "''text/css''" "''UTF-8''" JsBundle]
      content_type_charset [OF list_header_lib_ok, of "''text/css''" "''gbk''" JsBundle]
    by simp
qed

section \<open>The upstream URI\<close>

text \<open>
  What is asked of \<open>http::Uri\<close>: parsing a target that starts with a slash and has no fragment keeps
  it as path and query, and the path is what stands before the question mark.
\<close>

definition parse_ok :: "(bytes \<Rightarrow> uri option) \<Rightarrow> bool" where
  [wf_simps]: "parse_ok P \<longleftrightarrow>
     (\<forall>s u. P s = Some u \<and> prefix ''/'' s \<and> CHR ''#'' \<notin> set s \<longrightarrow>
        uri_path_and_query u = Some s \<and> uri_path u = takeWhile (\<lambda>c. c \<noteq> CHR ''?'') s)"

definition uri_wf :: "uri \<Rightarrow> bool" where
  [wf_simps]: "uri_wf u \<longleftrightarrow>
     prefix ''/'' (uri_path u)
     \<and> (case uri_path_and_query u of
          None \<Rightarrow> CHR ''?'' \<notin> set (uri_path u) \<and> CHR ''#'' \<notin> set (uri_path u)
        | Some pq \<Rightarrow> uri_path u = takeWhile (\<lambda>c. c \<noteq> CHR ''?'') pq \<and> CHR ''#'' \<notin> set pq)"

definition sample_parse :: "bytes \<Rightarrow> uri option" where
  "sample_parse s = Some \<lparr>uri_path = takeWhile (\<lambda>c. c \<noteq> CHR ''?'') s, uri_path_and_query = Some s\<rparr>"

lemma sample_parse_ok: "parse_ok sample_parse"
  by (simp add: parse_ok_def sample_parse_def)

end
