(* ===== verification/Socket_Addr.thy ===== *)
theory Socket_Addr
  imports Rust_Str
begin

text \<open>
  Socket addresses of the standard library: the parser behind \<open>str::parse::<SocketAddr>()\<close>
  (\<open>core::net::parser\<close>), which reads \<open>a.b.c.d:port\<close> or \<open>[v6]:port\<close> and must consume its whole
  input, the queries \<open>ip\<close>, \<open>port\<close> and \<open>is_unspecified\<close>, and \<open>to_string\<close>. A reader takes the text
  and returns what it read and the rest, or \<open>None\<close>.
\<close>

datatype ip_addr = V4 "nat list" | V6 "nat list"

record socket_addr =
  sa_ip :: ip_addr
  sa_scope :: nat
  sa_port :: nat

definition is_unspecified :: "ip_addr \<Rightarrow> bool" where
  "is_unspecified ip = (case ip of V4 octets \<Rightarrow> octets = [0, 0, 0, 0] | V6 groups \<Rightarrow> groups = replicate 8 0)"

section \<open>Numbers\<close>

definition digit_value :: "nat \<Rightarrow> byte \<Rightarrow> nat option" where
  "digit_value radix b =
     (let n = byte_val b;
          d = (if 48 \<le> n \<and> n \<le> 57 then Some (n - 48)
               else if 97 \<le> n \<and> n \<le> 122 then Some (n - 87)
               else if 65 \<le> n \<and> n \<le> 90 then Some (n - 55)
               else None)
      in case d of Some v \<Rightarrow> if v < radix then Some v else None | None \<Rightarrow> None)"

text \<open>The loop of \<open>read_number\<close>: \<open>limit\<close> is the largest value of the integer type.\<close>

fun read_digits :: "nat \<Rightarrow> nat option \<Rightarrow> nat \<Rightarrow> nat \<Rightarrow> nat \<Rightarrow> bytes \<Rightarrow> (nat \<times> nat \<times> bytes) option" where
  "read_digits radix max_digits limit acc count [] = Some (acc, count, [])"
| "read_digits radix max_digits limit acc count (b # r) =
     (case digit_value radix b of
        None \<Rightarrow> Some (acc, count, b # r)
      | Some d \<Rightarrow>
          let acc' = acc * radix + d; count' = count + 1
          in if limit < acc' then None
             else if (case max_digits of Some m \<Rightarrow> m < count' | None \<Rightarrow> False) then None
             else read_digits radix max_digits limit acc' count' r)"

definition read_number :: "nat \<Rightarrow> nat option \<Rightarrow> bool \<Rightarrow> nat \<Rightarrow> bytes \<Rightarrow> (nat \<times> bytes) option" where
  "read_number radix max_digits allow_zero_prefix limit s =
     (case read_digits radix max_digits limit 0 0 s of
        None \<Rightarrow> None
      | Some (v, count, r) \<Rightarrow>
          if count = 0 then None
          else if \<not> allow_zero_prefix \<and> hd s = CHR ''0'' \<and> 1 < count then None
          else Some (v, r))"

definition read_given_char :: "byte \<Rightarrow> bytes \<Rightarrow> bytes option" where
  "read_given_char c s = (case s of b # r \<Rightarrow> if b = c then Some r else None | [] \<Rightarrow> None)"

definition read_separator :: "byte \<Rightarrow> nat \<Rightarrow> (bytes \<Rightarrow> ('a \<times> bytes) option) \<Rightarrow> bytes \<Rightarrow> ('a \<times> bytes) option" where
  "read_separator sep index inner s =
     (if 0 < index then Option.bind (read_given_char sep s) inner else inner s)"

section \<open>Addresses\<close>

fun read_octets :: "nat \<Rightarrow> nat \<Rightarrow> bytes \<Rightarrow> (nat list \<times> bytes) option" where
  "read_octets i 0 s = Some ([], s)"
| "read_octets i (Suc k) s =
     Option.bind (read_separator CHR ''.'' i (read_number 10 (Some 3) False 255) s) (\<lambda>(v, r).
     Option.bind (read_octets (Suc i) k r) (\<lambda>(vs, r'). Some (v # vs, r')))"

definition read_ipv4_addr :: "bytes \<Rightarrow> (nat list \<times> bytes) option" where
  "read_ipv4_addr s = read_octets 0 4 s"

text \<open>
  \<open>read_groups\<close>: up to \<open>limit\<close> groups of hexadecimal digits, the last two of which may be an
  embedded IPv4 address; the flag says that it was.
\<close>

function read_groups :: "nat \<Rightarrow> nat \<Rightarrow> bytes \<Rightarrow> nat list \<times> bool \<times> bytes" where
  "read_groups limit i s =
     (if limit \<le> i then ([], False, s)
      else case (if i + 1 < limit then read_separator CHR '':'' i read_ipv4_addr s else None) of
             Some (octets, r) \<Rightarrow>
               ([octets ! 0 * 256 + octets ! 1, octets ! 2 * 256 + octets ! 3], True, r)
           | None \<Rightarrow>
               (case read_separator CHR '':'' i (read_number 16 (Some 4) True 65535) s of
                  None \<Rightarrow> ([], False, s)
                | Some (g, r) \<Rightarrow>
                    (case read_groups limit (i + 1) r of (gs, v4, r') \<Rightarrow> (g # gs, v4, r'))))"
  by pat_completeness auto
termination
  by (relation "measure (\<lambda>(limit, i, s). limit - i)") auto

declare read_groups.simps [simp del]

definition read_ipv6_addr :: "bytes \<Rightarrow> (nat list \<times> bytes) option" where
  "read_ipv6_addr s =
     (case read_groups 8 0 s of
        (head, head_ipv4, r) \<Rightarrow>
          if length head = 8 then Some (head, r)
          else if head_ipv4 then None
          else
            Option.bind (read_given_char CHR '':'' r) (\<lambda>r1.
            Option.bind (read_given_char CHR '':'' r1) (\<lambda>r2.
              case read_groups (8 - (length head + 1)) 0 r2 of
                (tail, _, r3) \<Rightarrow> Some (head @ replicate (8 - length head - length tail) 0 @ tail, r3))))"

definition read_port :: "bytes \<Rightarrow> (nat \<times> bytes) option" where
  "read_port s = Option.bind (read_given_char CHR '':'' s) (read_number 10 None True 65535)"

definition read_scope_id :: "bytes \<Rightarrow> (nat \<times> bytes) option" where
  "read_scope_id s = Option.bind (read_given_char CHR ''%'' s) (read_number 10 None True 4294967295)"

definition read_socket_addr_v4 :: "bytes \<Rightarrow> (socket_addr \<times> bytes) option" where
  "read_socket_addr_v4 s =
     Option.bind (read_ipv4_addr s) (\<lambda>(octets, r).
     Option.bind (read_port r) (\<lambda>(port, r').
       Some (\<lparr>sa_ip = V4 octets, sa_scope = 0, sa_port = port\<rparr>, r')))"

definition read_socket_addr_v6 :: "bytes \<Rightarrow> (socket_addr \<times> bytes) option" where
  "read_socket_addr_v6 s =
     Option.bind (read_given_char CHR ''['' s) (\<lambda>r.
     Option.bind (read_ipv6_addr r) (\<lambda>(groups, r1).
       let (scope, r2) = (case read_scope_id r1 of Some v \<Rightarrow> v | None \<Rightarrow> (0, r1))
       in Option.bind (read_given_char CHR '']'' r2) (\<lambda>r3.
          Option.bind (read_port r3) (\<lambda>(port, r4).
            Some (\<lparr>sa_ip = V6 groups, sa_scope = scope, sa_port = port\<rparr>, r4)))))"

definition parse_socket_addr :: "bytes \<Rightarrow> socket_addr option" where
  "parse_socket_addr s =
     (case (case read_socket_addr_v4 s of Some v \<Rightarrow> Some v | None \<Rightarrow> read_socket_addr_v6 s) of
        Some (addr, r) \<Rightarrow> if r = [] then Some addr else None
      | None \<Rightarrow> None)"

text \<open>Ports fit their type.\<close>

lemma read_digits_limit:
  "read_digits radix md limit acc count s = Some (v, c, r) \<Longrightarrow> acc \<le> limit \<Longrightarrow> v \<le> limit"
  by (induction radix md limit acc count s rule: read_digits.induct)
    (auto simp: Let_def split: option.splits if_splits)

lemma read_number_limit: "read_number radix md z limit s = Some (v, r) \<Longrightarrow> v \<le> limit"
  by (auto simp: read_number_def split: option.splits if_splits dest: read_digits_limit)

lemma parse_socket_addr_port: "parse_socket_addr s = Some a \<Longrightarrow> sa_port a \<le> 65535"
  by (auto simp: parse_socket_addr_def read_socket_addr_v4_def read_socket_addr_v6_def read_port_def
      bind_eq_Some_conv Let_def split: option.splits if_splits prod.splits dest!: read_number_limit)

section \<open>Printing\<close>

text \<open>
  \<open>Display\<close> of \<open>Ipv6Addr\<close>: an address that maps an IPv4 address ends in it; otherwise the first
  longest run of at least two zero groups is left out. A span is a start and a length; the loop
  goes over the groups from an index on.
\<close>

fun longest_span :: "nat \<Rightarrow> nat \<times> nat \<Rightarrow> nat \<times> nat \<Rightarrow> nat list \<Rightarrow> nat \<times> nat" where
  "longest_span i longest current [] = longest"
| "longest_span i longest current (g # gs) =
     (if g = 0
      then let current' = (if snd current = 0 then i else fst current, snd current + 1)
           in longest_span (i + 1) (if snd longest < snd current' then current' else longest) current' gs
      else longest_span (i + 1) longest (0, 0) gs)"

definition fmt_subslice :: "nat list \<Rightarrow> bytes" where
  "fmt_subslice gs = join_bytes '':'' (map lower_hex gs)"

definition display_ipv4 :: "nat list \<Rightarrow> bytes" where
  "display_ipv4 octets = join_bytes ''.'' (map decimal octets)"

definition display_ipv6 :: "nat list \<Rightarrow> bytes" where
  "display_ipv6 gs =
     (if take 6 gs = [0, 0, 0, 0, 0, 65535]
      then ''::ffff:'' @ display_ipv4 [gs ! 6 div 256, gs ! 6 mod 256, gs ! 7 div 256, gs ! 7 mod 256]
      else case longest_span 0 (0, 0) (0, 0) gs of
             (start, len) \<Rightarrow>
               if 1 < len
               then fmt_subslice (take start gs) @ ''::'' @ fmt_subslice (drop (start + len) gs)
               else fmt_subslice gs)"

definition display_socket_addr :: "socket_addr \<Rightarrow> bytes" where
  "display_socket_addr a =
     (case sa_ip a of
        V4 octets \<Rightarrow> display_ipv4 octets @ '':'' @ decimal (sa_port a)
      | V6 groups \<Rightarrow>
          ''['' @ display_ipv6 groups @ (if sa_scope a = 0 then [] else ''%'' @ decimal (sa_scope a))
          @ '']:'' @ decimal (sa_port a))"

end
