(* ===== verification/Config.thy ===== *)
theory Config
  imports Policy Socket_Addr
begin

text \<open>
  The configuration, \<open>src/config.rs\<close>: the YAML file is read into the raw structures, checked and
  turned into an \<open>EffectiveConfig\<close>. The crates \<open>yaml_serde\<close>, \<open>url\<close> and \<open>percent_encoding\<close> are
  parameters; what \<open>serde\<close>'s derived code does with absent fields is written out.
\<close>

section \<open>Constants and errors\<close>

definition MAX_BASE_PATH_LENGTH :: nat where "MAX_BASE_PATH_LENGTH = 1024"
definition DEFAULT_MAX_DECODED_BYTES :: nat where "DEFAULT_MAX_DECODED_BYTES = 20 * 1024 * 1024"
definition DEFAULT_MAX_CONCURRENT :: nat where "DEFAULT_MAX_CONCURRENT = 4"
definition DEFAULT_MAX_QUEUED :: nat where "DEFAULT_MAX_QUEUED = 32"

datatype 'y config_error =
    InvalidYaml 'y
  | InvalidBasePath bytes
  | InvalidListen bytes
  | InvalidAdminListen bytes
  | ConflictingListeners
  | ListenerOverlapsUpstream bytes
  | InvalidUpstream bytes
  | InvalidExtension bytes bytes \<comment> \<open>field, extension\<close>
  | WildcardWithExtensions
  | DuplicateExtension bytes bytes
  | UnknownRule nat
  | NonPositiveLimit bytes

type_synonym ('y, 'a) cresult = "('y config_error, 'a) outcome"

record effective_config =
  ec_base_path :: bytes
  ec_listen :: socket_addr
  ec_admin_listen :: socket_addr
  ec_upstream :: socket_addr
  ec_enabled_extensions :: "bytes list"
  ec_disabled_extensions :: "bytes list"
  ec_enabled_rules :: "rewrite_rule set"
  ec_max_decoded_bytes :: nat
  ec_max_concurrent :: nat
  ec_max_queued :: nat

section \<open>The raw configuration\<close>

text \<open>
  A \<open>HashMap<u8, bool>\<close> is the list of its entries in the order in which it is iterated, which
  is arbitrary.
\<close>

record raw_rewrite_config =
  rw_enabled_extensions :: "bytes list"
  rw_disabled_extensions :: "bytes list"
  rw_rules :: "(nat \<times> bool) list"
  rw_max_decoded_bytes :: nat
  rw_max_concurrent :: nat
  rw_max_queued :: nat

record raw_sidecar_config =
  rs_listen :: bytes
  rs_admin_listen :: bytes
  rs_upstream :: bytes
  rs_rewrite :: raw_rewrite_config

record raw_client_config =
  rc_base_path :: bytes

record raw_config =
  raw_client :: raw_client_config
  raw_sidecar :: raw_sidecar_config

definition raw_rewrite_default :: raw_rewrite_config where
  "raw_rewrite_default =
     \<lparr>rw_enabled_extensions = [], rw_disabled_extensions = [], rw_rules = [],
      rw_max_decoded_bytes = DEFAULT_MAX_DECODED_BYTES,
      rw_max_concurrent = DEFAULT_MAX_CONCURRENT, rw_max_queued = DEFAULT_MAX_QUEUED\<rparr>"

definition default_admin_listen :: bytes where
  "default_admin_listen = ''0.0.0.0:9090''"

text \<open>
  The parameter: a text that is YAML and has the expected types gives the fields that are
  present. The derived \<open>Deserialize\<close> instances fill in the defaults and report a missing field.
\<close>

record yaml_rewrite =
  yr_enabled_extensions :: "bytes list option"
  yr_disabled_extensions :: "bytes list option"
  yr_rules :: "(nat \<times> bool) list option"
  yr_max_decoded_bytes :: "nat option"
  yr_max_concurrent :: "nat option"
  yr_max_queued :: "nat option"

record yaml_sidecar =
  ys_listen :: "bytes option"
  ys_admin_listen :: "bytes option"
  ys_upstream :: "bytes option"
  ys_rewrite :: "yaml_rewrite option"

record yaml_doc =
  yd_base_path :: "bytes option option" \<comment> \<open>the section \<open>client\<close>, and \<open>basePath\<close> in it\<close>
  yd_sidecar :: "yaml_sidecar option"

record 'y yaml_lib =
  yaml_read :: "bytes \<Rightarrow> 'y + yaml_doc"
  yaml_missing_field :: "bytes \<Rightarrow> 'y"

definition or_default :: "'a option \<Rightarrow> 'a \<Rightarrow> 'a" where
  "or_default x d = (case x of Some v \<Rightarrow> v | None \<Rightarrow> d)"

definition required :: "'y yaml_lib \<Rightarrow> bytes \<Rightarrow> 'a option \<Rightarrow> ('y, 'a) outcome" where
  "required Y name x = (case x of Some v \<Rightarrow> Ok v | None \<Rightarrow> Err (yaml_missing_field Y name))"

definition deserialize_rewrite :: "yaml_rewrite \<Rightarrow> raw_rewrite_config" where
  "deserialize_rewrite y =
     \<lparr>rw_enabled_extensions = or_default (yr_enabled_extensions y) (rw_enabled_extensions raw_rewrite_default),
      rw_disabled_extensions = or_default (yr_disabled_extensions y) (rw_disabled_extensions raw_rewrite_default),
      rw_rules = or_default (yr_rules y) (rw_rules raw_rewrite_default),
      rw_max_decoded_bytes = or_default (yr_max_decoded_bytes y) (rw_max_decoded_bytes raw_rewrite_default),
      rw_max_concurrent = or_default (yr_max_concurrent y) (rw_max_concurrent raw_rewrite_default),
      rw_max_queued = or_default (yr_max_queued y) (rw_max_queued raw_rewrite_default)\<rparr>"

definition deserialize_sidecar :: "'y yaml_lib \<Rightarrow> yaml_sidecar \<Rightarrow> ('y, raw_sidecar_config) outcome" where
  "deserialize_sidecar Y y =
     bind_outcome (required Y ''listen'' (ys_listen y)) (\<lambda>listen.
     bind_outcome (required Y ''upstream'' (ys_upstream y)) (\<lambda>upstream.
       Ok \<lparr>rs_listen = listen, rs_admin_listen = or_default (ys_admin_listen y) default_admin_listen,
           rs_upstream = upstream,
           rs_rewrite = (case ys_rewrite y of Some r \<Rightarrow> deserialize_rewrite r | None \<Rightarrow> raw_rewrite_default)\<rparr>))"

definition yaml_from_str :: "'y yaml_lib \<Rightarrow> bytes \<Rightarrow> ('y, raw_config) outcome" where
  "yaml_from_str Y input =
     (case yaml_read Y input of
        Inl e \<Rightarrow> Err e
      | Inr doc \<Rightarrow>
          bind_outcome (required Y ''rewriteSidecar'' (yd_sidecar doc)) (\<lambda>sidecar.
          bind_outcome (deserialize_sidecar Y sidecar) (\<lambda>raw.
            Ok \<lparr>raw_client = \<lparr>rc_base_path = or_default (or_default (yd_base_path doc) None) []\<rparr>,
                raw_sidecar = raw\<rparr>)))"


section \<open>The base path\<close>

definition invalid_base_path :: "bytes \<Rightarrow> 'y config_error" where
  "invalid_base_path message = InvalidBasePath message"

definition is_control :: "bytes \<Rightarrow> bool" where
  "is_control ch \<longleftrightarrow> (let c = code_point ch in c \<le> 0x1F \<or> (0x7F \<le> c \<and> c \<le> 0x9F))"

definition contains_forbidden_character :: "bytes \<Rightarrow> bool" where
  "contains_forbidden_character s \<longleftrightarrow>
     list_ex (\<lambda>ch. ch \<in> set [''?'', ''#'', [APO], [QUO], [BSL]]
       \<or> code_point ch = 0x2028 \<or> code_point ch = 0x2029 \<or> is_control ch) (str_chars s)"

definition has_dot_segment :: "bytes \<Rightarrow> bool" where
  "has_dot_segment s \<longleftrightarrow> list_ex (\<lambda>segment. segment = ''.'' \<or> segment = ''..'') (split_byte CHR ''/'' s)"

definition is_ascii_hexdigit :: "byte \<Rightarrow> bool" where
  "is_ascii_hexdigit b \<longleftrightarrow>
     (let n = byte_val b :: nat
      in (48 \<le> n \<and> n \<le> 57) \<or> (65 \<le> n \<and> n \<le> 70) \<or> (97 \<le> n \<and> n \<le> 102))"

text \<open>The loop of \<open>validate_percent_encoding\<close> from an index on.\<close>

function validate_percent_from :: "bytes \<Rightarrow> nat \<Rightarrow> ('y, unit) cresult" where
  "validate_percent_from bs index =
     (if length bs \<le> index then Ok ()
      else if bs ! index = CHR ''%''
      then if length bs \<le> index + 2 \<or> \<not> is_ascii_hexdigit (bs ! (index + 1))
              \<or> \<not> is_ascii_hexdigit (bs ! (index + 2))
           then Err (invalid_base_path ''contains invalid percent encoding'')
           else validate_percent_from bs (index + 3)
      else validate_percent_from bs (index + 1))"
  by pat_completeness auto
termination
  by (relation "measure (\<lambda>(bs, index). length bs - index)") auto

declare validate_percent_from.simps [simp del]

definition validate_percent_encoding :: "bytes \<Rightarrow> ('y, unit) cresult" where
  "validate_percent_encoding s = validate_percent_from s 0"

text \<open>
  \<open>percent_decode_str(s).decode_utf8()\<close> is the parameter \<open>pct\<close>. The loop runs a number of times,
  and leaves early at a text that decodes to itself.
\<close>

fun decode_loop :: "(bytes \<Rightarrow> bytes option) \<Rightarrow> nat \<Rightarrow> bytes \<Rightarrow> ('y, bytes) cresult" where
  "decode_loop pct 0 decoded = Ok decoded"
| "decode_loop pct (Suc k) decoded =
     bind_outcome (validate_percent_encoding decoded) (\<lambda>_.
       case pct decoded of
         None \<Rightarrow> Err (invalid_base_path ''contains invalid percent encoding'')
       | Some following \<Rightarrow> if following = decoded then Ok decoded else decode_loop pct k following)"

lemma decode_loop_code [code]:
  "decode_loop pct k decoded =
     (if k = 0 then Ok decoded
      else bind_outcome (validate_percent_encoding decoded) (\<lambda>_.
        case pct decoded of
          None \<Rightarrow> Err (invalid_base_path ''contains invalid percent encoding'')
        | Some following \<Rightarrow> if following = decoded then Ok decoded else decode_loop pct (k - 1) following))"
proof (cases k)
  case (Suc n)
  show ?thesis unfolding Suc diff_Suc_1 by simp
qed simp

definition decode_repeatedly :: "(bytes \<Rightarrow> bytes option) \<Rightarrow> bytes \<Rightarrow> ('y, bytes) cresult" where
  "decode_repeatedly pct s = decode_loop pct MAX_BASE_PATH_LENGTH s"

text \<open>The crate \<open>url\<close>: the functions of \<open>Url\<close> that are called.\<close>

record ('u, 'o) url_lib =
  url_parse :: "bytes \<Rightarrow> 'u option"
  url_join :: "'u \<Rightarrow> bytes \<Rightarrow> 'u option"
  url_origin :: "'u \<Rightarrow> 'o"
  url_scheme :: "'u \<Rightarrow> bytes"
  url_username :: "'u \<Rightarrow> bytes"
  url_password :: "'u \<Rightarrow> bytes option"
  url_host_str :: "'u \<Rightarrow> bytes option"
  url_port :: "'u \<Rightarrow> nat option"
  url_path :: "'u \<Rightarrow> bytes"
  url_query :: "'u \<Rightarrow> bytes option"
  url_fragment :: "'u \<Rightarrow> bytes option"

definition normalize_base_path ::
  "('u, 'o) url_lib \<Rightarrow> (bytes \<Rightarrow> bytes option) \<Rightarrow> bytes \<Rightarrow> ('y, bytes) cresult" where
  "normalize_base_path U pct input =
     (if input = [] \<or> input = ''/'' then Ok []
      else if MAX_BASE_PATH_LENGTH < length (str_chars input)
      then Err (invalid_base_path ''must not exceed 1024 characters'')
      else if \<not> prefix ''/'' input \<or> prefix ''//'' input
      then Err (invalid_base_path ''must be an absolute same-origin path'')
      else if contains_forbidden_character input
      then Err (invalid_base_path
        ''must not contain query, hash, quotes, backslash, line separators, or control characters'')
      else
        bind_outcome (validate_percent_encoding input) (\<lambda>_.
        bind_outcome (decode_repeatedly pct input) (\<lambda>decoded.
          if contains_forbidden_character decoded \<or> str_contains ''//'' decoded
             \<or> has_dot_segment input \<or> has_dot_segment decoded
          then Err (invalid_base_path ''contains unsafe encoded characters or path segments'')
          else
            case url_parse U ''http://kubesphere.local'' of
              None \<Rightarrow> Panic
            | Some base \<Rightarrow>
                (case url_join U base input of
                   None \<Rightarrow> Err (invalid_base_path ''must be an absolute same-origin path'')
                 | Some parsed \<Rightarrow>
                     if url_origin U parsed \<noteq> url_origin U base \<or> url_path U parsed \<noteq> input
                     then Err (invalid_base_path ''must not change when URL-normalized'')
                     else Ok (trim_end_matches CHR ''/'' input)))))"

section \<open>Extensions and addresses\<close>

text \<open>The loop of \<open>validate_explicit_extensions\<close> with its set \<open>seen\<close>.\<close>

fun validate_extensions_loop :: "bytes \<Rightarrow> bytes list \<Rightarrow> bytes list \<Rightarrow> ('y, unit) cresult" where
  "validate_extensions_loop field seen [] = Ok ()"
| "validate_extensions_loop field seen (extension # rest) =
     (if \<not> is_safe_extension_name extension then Err (InvalidExtension field extension)
      else if extension \<in> set seen then Err (DuplicateExtension field extension)
      else validate_extensions_loop field (extension # seen) rest)"

definition validate_explicit_extensions :: "bytes \<Rightarrow> bytes list \<Rightarrow> ('y, unit) cresult" where
  "validate_explicit_extensions field extensions = validate_extensions_loop field [] extensions"

definition socket_addrs_overlap :: "socket_addr \<Rightarrow> socket_addr \<Rightarrow> bool" where
  "socket_addrs_overlap a b \<longleftrightarrow>
     sa_port a = sa_port b
     \<and> (is_unspecified (sa_ip a) \<or> is_unspecified (sa_ip b) \<or> sa_ip a = sa_ip b)"

definition parse_upstream :: "('u, 'o) url_lib \<Rightarrow> bytes \<Rightarrow> ('y, socket_addr) cresult" where
  "parse_upstream U s =
     (case url_parse U s of
        None \<Rightarrow> Err (InvalidUpstream ''must be an absolute HTTP URL'')
      | Some parsed \<Rightarrow>
          if url_scheme U parsed \<noteq> ''http'' then Err (InvalidUpstream ''must use http inside the Pod'')
          else if url_username U parsed \<noteq> [] \<or> url_password U parsed \<noteq> None
             \<or> url_query U parsed \<noteq> None \<or> url_fragment U parsed \<noteq> None \<or> url_path U parsed \<noteq> ''/''
          then Err (InvalidUpstream ''must contain only a loopback host and port'')
          else
            case url_host_str U parsed of
              None \<Rightarrow> Err (InvalidUpstream ''must include a host'')
            | Some host \<Rightarrow>
                if host \<noteq> ''127.0.0.1'' \<and> host \<noteq> ''::1'' \<and> host \<noteq> ''localhost''
                then Err (InvalidUpstream ''must use a loopback host'')
                else
                  (case url_port U parsed of
                     None \<Rightarrow> Err (InvalidUpstream ''must include an explicit port'')
                   | Some port \<Rightarrow>
                       if host = ''localhost''
                       then Ok \<lparr>sa_ip = V4 [127, 0, 0, 1], sa_scope = 0, sa_port = port\<rparr>
                       else
                         (case parse_socket_addr (host @ '':'' @ decimal port) of
                            Some addr \<Rightarrow> Ok addr
                          | None \<Rightarrow>
                              (case parse_socket_addr (''[::1]:'' @ decimal port) of
                                 Some addr \<Rightarrow> Ok addr
                               | None \<Rightarrow> Err (InvalidUpstream ''contains an invalid address'')))))"

section \<open>The effective configuration\<close>

fun apply_rule_switches :: "(nat \<times> bool) list \<Rightarrow> rewrite_rule set \<Rightarrow> ('y, rewrite_rule set) cresult" where
  "apply_rule_switches [] enabled_rules = Ok enabled_rules"
| "apply_rule_switches ((number, enabled) # rest) enabled_rules =
     bind_outcome (map_outcome_err UnknownRule (rule_try_from number)) (\<lambda>rule.
       apply_rule_switches rest
         (if enabled then insert rule enabled_rules else enabled_rules - {rule}))"

definition parse_listen :: "(bytes \<Rightarrow> 'y config_error) \<Rightarrow> bytes \<Rightarrow> ('y, socket_addr) cresult" where
  "parse_listen err s = (case parse_socket_addr s of Some a \<Rightarrow> Ok a | None \<Rightarrow> Err (err s))"

definition validate_enabled_extensions :: "bytes list \<Rightarrow> ('y, unit) cresult" where
  "validate_enabled_extensions extensions =
     (if list_ex (\<lambda>extension. extension = ALL_EXTENSIONS_WILDCARD) extensions
      then if length extensions \<noteq> 1 then Err WildcardWithExtensions else Ok ()
      else validate_explicit_extensions ''enabledExtensions'' extensions)"

definition guard_err :: "bool \<Rightarrow> 'e \<Rightarrow> ('e, unit) outcome" where
  "guard_err failed e = (if failed then Err e else Ok ())"

definition from_yaml ::
  "'y yaml_lib \<Rightarrow> ('u, 'o) url_lib \<Rightarrow> (bytes \<Rightarrow> bytes option) \<Rightarrow> bytes \<Rightarrow> ('y, effective_config) cresult" where
  "from_yaml Y U pct input =
     bind_outcome (map_outcome_err InvalidYaml (yaml_from_str Y input)) (\<lambda>raw.
     bind_outcome (normalize_base_path U pct (rc_base_path (raw_client raw))) (\<lambda>base_path.
     bind_outcome (parse_listen InvalidListen (rs_listen (raw_sidecar raw))) (\<lambda>listen.
     bind_outcome (parse_listen InvalidAdminListen (rs_admin_listen (raw_sidecar raw))) (\<lambda>admin_listen.
     bind_outcome (guard_err (socket_addrs_overlap listen admin_listen) ConflictingListeners) (\<lambda>_.
     bind_outcome (parse_upstream U (rs_upstream (raw_sidecar raw))) (\<lambda>upstream.
     bind_outcome (guard_err (socket_addrs_overlap listen upstream) (ListenerOverlapsUpstream ''listen'')) (\<lambda>_.
     bind_outcome (guard_err (socket_addrs_overlap admin_listen upstream)
       (ListenerOverlapsUpstream ''adminListen'')) (\<lambda>_.
     let rewrite = rs_rewrite (raw_sidecar raw) in
     bind_outcome (guard_err (rw_max_decoded_bytes rewrite = 0) (NonPositiveLimit ''maxDecodedBytes'')) (\<lambda>_.
     bind_outcome (guard_err (rw_max_concurrent rewrite = 0) (NonPositiveLimit ''maxConcurrent'')) (\<lambda>_.
     bind_outcome (validate_enabled_extensions (rw_enabled_extensions rewrite)) (\<lambda>_.
     bind_outcome (validate_explicit_extensions ''disabledExtensions'' (rw_disabled_extensions rewrite)) (\<lambda>_.
     bind_outcome (apply_rule_switches (rw_rules rewrite) (set ALL_RULES)) (\<lambda>enabled_rules.
       Ok \<lparr>ec_base_path = base_path, ec_listen = listen, ec_admin_listen = admin_listen,
           ec_upstream = upstream,
           ec_enabled_extensions = rw_enabled_extensions rewrite,
           ec_disabled_extensions = rw_disabled_extensions rewrite,
           ec_enabled_rules = enabled_rules,
           ec_max_decoded_bytes = rw_max_decoded_bytes rewrite,
           ec_max_concurrent = rw_max_concurrent rewrite,
           ec_max_queued = rw_max_queued rewrite\<rparr>)))))))))))))"

text \<open>The set of rules is iterated in an arbitrary order, of which the policy keeps nothing.\<close>

definition effective_rewrite_policy :: "effective_config \<Rightarrow> rewrite_policy" where
  "effective_rewrite_policy c =
     policy_new_with_rules (ec_base_path c) (ec_enabled_extensions c) (ec_disabled_extensions c)
       (filter (\<lambda>rule. rule \<in> ec_enabled_rules c) ALL_RULES)"

end
