(* ===== verification/Base_Path_Correct.thy ===== *)
theory Base_Path_Correct
  imports Config
begin

text \<open>
  What \<open>normalize_base_path\<close> guarantees: the accepted base path is safe however often it is
  percent-decoded, and the bounded decoding loop always reaches the end.
\<close>

section \<open>Percent decoding\<close>

definition hex_value :: "byte \<Rightarrow> nat" where
  "hex_value b =
     (let n = byte_val b :: nat
      in if n \<le> 57 then n - 48 else if n \<le> 70 then n - 55 else n - 87)"

text \<open>The documented behaviour of the crate: a \<open>%\<close> that is not followed by two digits stays.\<close>

fun pct_bytes :: "bytes \<Rightarrow> bytes" where
  "pct_bytes [] = []"
| "pct_bytes (c # r) =
     (if c = CHR ''%''
      then case r of
             a # b # r' \<Rightarrow>
               if is_ascii_hexdigit a \<and> is_ascii_hexdigit b
               then char_of (16 * hex_value a + hex_value b) # pct_bytes r'
               else c # pct_bytes r
           | _ \<Rightarrow> c # pct_bytes r
      else c # pct_bytes r)"

definition pct_ok :: "(bytes \<Rightarrow> bytes option) \<Rightarrow> bool" where
  [wf_simps]: "pct_ok pct \<longleftrightarrow> (\<forall>s. pct s = (if utf8_valid (pct_bytes s) then Some (pct_bytes s) else None))"

text \<open>Every \<open>%\<close> is followed by two digits.\<close>

fun pct_wf :: "bytes \<Rightarrow> bool" where
  "pct_wf [] = True"
| "pct_wf (c # r) =
     (if c = CHR ''%''
      then case r of
             a # b # r' \<Rightarrow> is_ascii_hexdigit a \<and> is_ascii_hexdigit b \<and> pct_wf r'
           | _ \<Rightarrow> False
      else pct_wf r)"

lemma hexdigit_cases:
  "is_ascii_hexdigit a \<Longrightarrow> \<not> is_cont a \<and> a \<noteq> CHR ''%'' \<and> a \<noteq> CHR ''/'' \<and> a \<noteq> CHR ''.''"
  by (auto simp: is_ascii_hexdigit_def is_cont_def Let_def)

lemma validate_percent_from_eq:
  "validate_percent_from bs i =
     (if pct_wf (drop i bs) then Ok () else Err (invalid_base_path ''contains invalid percent encoding''))"
proof (induction bs i rule: validate_percent_from.induct)
  case (1 bs i)
  show ?case
  proof (cases "length bs \<le> i")
    case True
    then show ?thesis by (simp add: validate_percent_from.simps [of bs i])
  next
    case i: False
    then have d: "drop i bs = bs ! i # drop (i + 1) bs" by (simp add: drop_eq_Cons)
    show ?thesis
    proof (cases "bs ! i = CHR ''%''")
      case False
      with i d 1(2) show ?thesis by (simp add: validate_percent_from.simps [of bs i])
    next
      case pc: True
      show ?thesis
      proof (cases "length bs \<le> i + 2")
        case True
        have "xs = [] \<or> (\<exists>a. xs = [a])" if "length xs \<le> 1" for xs :: bytes
          using that by (cases xs) auto
        from this [of "drop (i + 1) bs"] True
        have "drop (i + 1) bs = [] \<or> (\<exists>a. drop (i + 1) bs = [a])" by simp
        with i d pc True show ?thesis by (auto simp: validate_percent_from.simps [of bs i])
      next
        case False
        then have "drop (i + 1) bs = bs ! (i + 1) # bs ! (i + 2) # drop (i + 3) bs"
          by (simp add: drop_eq_Cons numeral_3_eq_3)
        with i d pc False 1(1) show ?thesis
          by (auto simp: validate_percent_from.simps [of bs i])
      qed
    qed
  qed
qed

lemma validate_percent_encoding_eq:
  "validate_percent_encoding s =
     (if pct_wf s then Ok () else Err (invalid_base_path ''contains invalid percent encoding''))"
  by (simp add: validate_percent_encoding_def validate_percent_from_eq)

text \<open>Decoding shortens a text with a percent sign; the length that counts is that in characters.\<close>

definition char_count :: "bytes \<Rightarrow> nat" where
  "char_count s = length (filter (\<lambda>b. \<not> is_cont b) s)"

lemma char_count_simps [simp]:
  "char_count [] = 0" "char_count (b # s) = (if is_cont b then 0 else 1) + char_count s"
  "char_count (s @ t) = char_count s + char_count t"
  by (simp_all add: char_count_def)

lemma tail_check_cont: "tail_check d k r = Seq n \<Longrightarrow> \<forall>c \<in> set (take k r). is_cont c"
  by (induction d k r rule: tail_check.induct) (auto split: if_splits)

lemma utf8_seq_conts:
  assumes "utf8_seq b r = Seq n"
  shows "\<not> is_cont b \<and> (\<forall>c \<in> set (take (n - 1) r). is_cont c)"
proof
  show "\<not> is_cont b" using assms utf8_seq_cont [of b r] by auto
  let ?w = "utf8_char_width (byte_val b)"
  from utf8_seq_Seq [OF assms] have n: "n = ?w" "1 \<le> n" by auto
  show "\<forall>c \<in> set (take (n - 1) r). is_cont c"
  proof (cases "n = 1")
    case False
    with n assms obtain c r' where r: "r = c # r'" "second_ok (byte_val b) c" "tail_check 2 (?w - 2) r' = Seq n"
      by (auto simp: utf8_seq_def Let_def split: list.splits if_splits)
    have "n - 1 = Suc (?w - 2)" using n False by simp
    with r tail_check_cont [OF r(3)] show ?thesis by (auto simp: second_ok_def Let_def)
  qed simp
qed

lemma char_count_conts: "\<forall>c \<in> set s. is_cont c \<Longrightarrow> char_count s = 0"
  by (induction s) simp_all

lemma length_str_chars: "utf8_valid s \<Longrightarrow> length (str_chars s) = char_count s"
proof (induction s rule: from_utf8_induct)
  case (Seq b r n)
  from Seq.prems Seq.hyps have "utf8_valid (drop n (b # r))"
    by (simp add: utf8_valid_def from_utf8_Cons)
  with Seq.IH have IH: "length (str_chars (drop n (b # r))) = char_count (drop n (b # r))" .
  obtain m where m: "n = Suc m" using utf8_seq_Seq(2) [OF Seq.hyps] by (cases n) auto
  have "char_count (take m r) = 0"
    using utf8_seq_conts [OF Seq.hyps] by (intro char_count_conts) (simp add: m)
  moreover have "char_count r = char_count (take m r) + char_count (drop m r)"
    by (simp flip: char_count_simps(3))
  ultimately show ?case
    using IH utf8_seq_conts [OF Seq.hyps] Seq.hyps by (simp add: m)
qed (simp_all add: utf8_valid_def from_utf8_Cons)

lemma pct_bytes_shrinks: "pct_wf s \<Longrightarrow> char_count (pct_bytes s) + 2 * count_list s CHR ''%'' \<le> char_count s"
proof (induction s rule: pct_bytes.induct)
  case (2 c r)
  show ?case
  proof (cases "c = CHR ''%''")
    case True
    with "2.prems" obtain a b r' where r: "r = a # b # r'" "is_ascii_hexdigit a" "is_ascii_hexdigit b" "pct_wf r'"
      by (auto split: list.splits)
    have "\<not> is_cont CHR ''%''" by (simp add: is_cont_def)
    moreover have "char_count (pct_bytes r') + 2 * count_list r' CHR ''%'' \<le> char_count r'"
      using "2.IH" True r by simp
    ultimately show ?thesis using True r hexdigit_cases [of a] hexdigit_cases [of b] by auto
  qed (use 2 in auto)
qed simp

lemma pct_bytes_id: "CHR ''%'' \<notin> set s \<Longrightarrow> pct_bytes s = s"
  by (induction s rule: pct_bytes.induct) auto

lemma pct_bytes_fixpoint: "pct_wf s \<Longrightarrow> pct_bytes s = s \<longleftrightarrow> CHR ''%'' \<notin> set s"
proof
  assume "pct_wf s" "pct_bytes s = s"
  with pct_bytes_shrinks [of s] show "CHR ''%'' \<notin> set s"
    by (simp add: count_list_0_iff)
qed (rule pct_bytes_id)

section \<open>The decoding loop\<close>

text \<open>All the texts that are decoded on the way are well formed and valid.\<close>

definition decodes_to :: "bytes \<Rightarrow> nat \<Rightarrow> bytes \<Rightarrow> bool" where
  "decodes_to s j d \<longleftrightarrow> d = (pct_bytes ^^ j) s
     \<and> (\<forall>i\<le>j. pct_wf ((pct_bytes ^^ i) s)) \<and> (\<forall>i\<le>j. utf8_valid ((pct_bytes ^^ i) s))"

lemma funpow_pct_Suc: "(pct_bytes ^^ Suc i) s = (pct_bytes ^^ i) (pct_bytes s)"
  by (simp add: funpow_swap1)

lemma all_le_Suc: "(\<forall>i\<le>Suc j. P i) \<longleftrightarrow> P 0 \<and> (\<forall>i\<le>j. P (Suc i))"
  by (metis Suc_le_mono le0 not0_implies_Suc)

lemma decodes_to_Suc:
  "decodes_to s (Suc j) d \<longleftrightarrow> pct_wf s \<and> utf8_valid s \<and> decodes_to (pct_bytes s) j d"
  unfolding decodes_to_def all_le_Suc funpow_pct_Suc by auto

lemma decodes_to_fixpoint:
  assumes "CHR ''%'' \<notin> set s"
  shows "decodes_to s j d \<longleftrightarrow> d = s \<and> pct_wf s \<and> utf8_valid s"
proof -
  have "(pct_bytes ^^ i) s = s" for i
    by (induction i) (simp_all add: pct_bytes_id [OF assms])
  then show ?thesis by (auto simp: decodes_to_def)
qed

lemma pct_wf_plain: "CHR ''%'' \<notin> set s \<Longrightarrow> pct_wf s"
  by (induction s rule: pct_wf.induct) auto

lemma decode_loop_step:
  assumes "pct_ok pct" "pct_wf s"
  shows "decode_loop pct (Suc k) s =
    (if \<not> utf8_valid (pct_bytes s) then Err (invalid_base_path ''contains invalid percent encoding'')
     else if CHR ''%'' \<notin> set s then Ok s else decode_loop pct k (pct_bytes s))"
  using assms pct_bytes_fixpoint [OF assms(2)] by (simp add: pct_ok_def validate_percent_encoding_eq)

lemma decode_loop_Ok:
  "pct_ok pct \<Longrightarrow> utf8_valid s \<Longrightarrow> char_count s < 2 * k \<Longrightarrow>
     (decode_loop pct k s :: ('y, bytes) cresult) = Ok d \<longleftrightarrow>
       CHR ''%'' \<notin> set d \<and> (\<exists>j. decodes_to s j d)"
proof (induction k arbitrary: s)
  case (Suc k)
  show ?case
  proof (cases "pct_wf s")
    case False
    then have "\<not> decodes_to s j d" for j
      by (auto simp: decodes_to_def intro!: exI [of _ 0])
    with False show ?thesis by (simp add: validate_percent_encoding_eq)
  next
    case wf: True
    note step = decode_loop_step [OF Suc.prems(1) wf, of k, where 'a = 'y]
    show ?thesis
    proof (cases "CHR ''%'' \<in> set s")
      case False
      with step Suc.prems(2) wf show ?thesis
        by (auto simp: pct_bytes_id decodes_to_fixpoint)
    next
      case True
      then have "0 < count_list s CHR ''%''" by (simp add: count_list_0_iff neq0_conv [symmetric])
      moreover have "c < 2 * k" if "c + 2 * n \<le> m" "m < 2 * Suc k" "0 < n" for c n m :: nat
        using that by simp
      ultimately have small: "char_count (pct_bytes s) < 2 * k"
        using pct_bytes_shrinks [OF wf] Suc.prems(3) by blast
      have next_step: "(\<exists>j. decodes_to s j d) \<longleftrightarrow> (\<exists>j. decodes_to (pct_bytes s) j d)"
        if "CHR ''%'' \<notin> set d"
      proof
        assume "\<exists>j. decodes_to s j d"
        then obtain j where j: "decodes_to s j d" by blast
        with True that have "j \<noteq> 0" by (cases j) (auto simp: decodes_to_def)
        then obtain i where "j = Suc i" by (cases j) auto
        with j show "\<exists>j. decodes_to (pct_bytes s) j d" by (auto simp: decodes_to_Suc)
      next
        assume "\<exists>j. decodes_to (pct_bytes s) j d"
        with wf Suc.prems(2) show "\<exists>j. decodes_to s j d" by (metis decodes_to_Suc)
      qed
      show ?thesis
      proof (cases "utf8_valid (pct_bytes s)")
        case v: True
        from step True v Suc.IH [OF Suc.prems(1) v small] next_step show ?thesis by auto
      next
        case False
        then have "\<not> decodes_to (pct_bytes s) j d" for j by (auto simp: decodes_to_def)
        with False step next_step show ?thesis by auto
      qed
    qed
  qed
qed simp

lemma decode_loop_cases:
  "(\<exists>d. decode_loop pct k s = (Ok d :: ('y, bytes) cresult))
   \<or> decode_loop pct k s = (Err (InvalidBasePath ''contains invalid percent encoding'') :: ('y, bytes) cresult)"
  by (induction k arbitrary: s)
    (auto simp: validate_percent_encoding_eq invalid_base_path_def split: option.split)

lemma decode_repeatedly_Ok:
  assumes "pct_ok pct" "utf8_valid s" "length (str_chars s) \<le> MAX_BASE_PATH_LENGTH"
  shows "decode_repeatedly pct s = Ok d \<longleftrightarrow> CHR ''%'' \<notin> set d \<and> (\<exists>j. decodes_to s j d)"
  using decode_loop_Ok [OF assms(1,2), of MAX_BASE_PATH_LENGTH d] assms(3) length_str_chars [OF assms(2)]
  by (simp add: decode_repeatedly_def MAX_BASE_PATH_LENGTH_def)

text \<open>
  C31. The bound of 1024 rounds is enough: for every base path within the length limit, repeated
  decoding either reaches a text without a percent sign, by decoding only well-formed and valid
  texts, or reports an invalid encoding. It never stops half way.
\<close>

theorem decode_repeatedly_complete:
  assumes "pct_ok pct" "utf8_valid s" "length (str_chars s) \<le> MAX_BASE_PATH_LENGTH"
    and "r = decode_repeatedly pct s"
  shows "(r = Ok d \<longleftrightarrow> CHR ''%'' \<notin> set d \<and> (\<exists>j. decodes_to s j d))
    \<and> ((\<exists>d. r = Ok d) \<or> r = Err (InvalidBasePath ''contains invalid percent encoding''))"
proof
  show "r = Ok d \<longleftrightarrow> CHR ''%'' \<notin> set d \<and> (\<exists>j. decodes_to s j d)"
    unfolding assms(4) by (rule decode_repeatedly_Ok [OF assms(1-3)])
  show "(\<exists>d. r = Ok d) \<or> r = Err (InvalidBasePath ''contains invalid percent encoding'')"
    unfolding assms(4) decode_repeatedly_def by (rule decode_loop_cases)
qed

definition std_pct :: "bytes \<Rightarrow> bytes option" where
  "std_pct s = (if utf8_valid (pct_bytes s) then Some (pct_bytes s) else None)"

lemma std_pct_ok: "pct_ok std_pct"
  by (simp add: pct_ok_def std_pct_def)

theorem decode_repeatedly_complete_witness:
  "decode_repeatedly std_pct ''/a%25252Fb'' = (Ok ''/a/b'' :: (unit, bytes) cresult)
   \<and> CHR ''%'' \<notin> set ''/a/b'' \<and> (\<exists>j. decodes_to ''/a%25252Fb'' j ''/a/b'')"
proof -
  have d: "decode_repeatedly std_pct ''/a%25252Fb'' = (Ok ''/a/b'' :: (unit, bytes) cresult)"
    by code_simp
  have "utf8_valid ''/a%25252Fb''" "length (str_chars ''/a%25252Fb'') \<le> MAX_BASE_PATH_LENGTH" by code_simp+
  from decode_repeatedly_complete [OF std_pct_ok this d [symmetric], of "''/a/b''"] d show ?thesis by simp
qed

section \<open>Unsafe texts stay unsafe\<close>

definition unsafe_text :: "bytes \<Rightarrow> bool" where
  "unsafe_text s \<longleftrightarrow> contains_forbidden_character s \<or> str_contains ''//'' s \<or> has_dot_segment s"

text \<open>A byte that is neither a percent sign nor a digit separates what is decoded.\<close>

lemma pct_bytes_at:
  "c \<noteq> CHR ''%'' \<Longrightarrow> \<not> is_ascii_hexdigit c \<Longrightarrow> pct_bytes (a @ c # b) = pct_bytes a @ c # pct_bytes b"
proof (induction a rule: pct_bytes.induct)
  case (2 x r)
  show ?case
  proof (cases "x = CHR ''%''")
    case True
    show ?thesis
    proof (cases r)
      case Nil
      with True 2 show ?thesis by (cases b) auto
    next
      case (Cons y ys)
      with True "2.prems" "2.IH" show ?thesis by (cases ys) auto
    qed
  qed (use 2 in simp)
qed simp

lemma slash_not_hex: "CHR ''/'' \<noteq> CHR ''%''" "\<not> is_ascii_hexdigit CHR ''/''"
  by (simp_all add: is_ascii_hexdigit_def)

lemma split_pct:
  "x \<in> set (split_byte CHR ''/'' s) \<Longrightarrow> CHR ''/'' \<notin> set (pct_bytes x) \<Longrightarrow>
     pct_bytes x \<in> set (split_byte CHR ''/'' (pct_bytes s))"
proof (induction "length s" arbitrary: s rule: less_induct)
  case less
  show ?case
  proof (cases "CHR ''/'' \<in> set s")
    case False
    with less.prems show ?thesis by (simp add: split_byte_single)
  next
    case True
    then obtain a b where s: "s = a @ CHR ''/'' # b" by (meson split_list)
    have eq: "set (split_byte CHR ''/'' s) = set (split_byte CHR ''/'' a) \<union> set (split_byte CHR ''/'' b)"
      "set (split_byte CHR ''/'' (pct_bytes s)) =
         set (split_byte CHR ''/'' (pct_bytes a)) \<union> set (split_byte CHR ''/'' (pct_bytes b))"
      by (simp_all add: s split_byte_at pct_bytes_at [OF slash_not_hex])
    have "length a < length s" "length b < length s" by (simp_all add: s)
    with less.hyps less.prems eq show ?thesis by auto
  qed
qed

lemma dot_segment_pct: "has_dot_segment s \<Longrightarrow> has_dot_segment (pct_bytes s)"
  using split_pct [of "''.''" s] split_pct [of "''..''" s] by (auto simp: has_dot_segment_def list_ex_iff)

lemma double_slash_pct: "str_contains ''//'' s \<Longrightarrow> str_contains ''//'' (pct_bytes s)"
proof -
  assume "str_contains ''//'' s"
  then obtain a b where "s = a @ CHR ''/'' # [] @ CHR ''/'' # b" by (auto simp: str_contains_iff)
  then have "pct_bytes s = pct_bytes a @ ''//'' @ pct_bytes b"
    by (simp add: pct_bytes_at [OF slash_not_hex] pct_bytes_at [OF slash_not_hex, of "[]", simplified])
  then show ?thesis unfolding str_contains_iff by blast
qed

text \<open>Characters.\<close>

lemma str_chars_append: "utf8_valid a \<Longrightarrow> str_chars (a @ b) = str_chars a @ str_chars b"
proof (induction a rule: from_utf8_induct)
  case (Seq c r n)
  then have v: "utf8_valid (drop n (c # r))" by (simp add: utf8_valid_def from_utf8_Cons)
  have app: "utf8_seq c (r @ b) = Seq n" using utf8_seq_append [of c r b] Seq.hyps by simp
  from utf8_seq_Seq [OF Seq.hyps] have n: "1 \<le> n" "n \<le> length (c # r)" by auto
  have "take n (c # r @ b) = take n (c # r)" "drop n (c # r @ b) = drop n (c # r) @ b"
    using n(2) take_append [of n "c # r" b] drop_append [of n "c # r" b] by simp_all
  with Seq.IH [OF v] app Seq.hyps show ?case by (simp add: Let_def)
qed (simp_all add: utf8_valid_def from_utf8_Cons)

lemma str_chars_valid: "utf8_valid s \<Longrightarrow> ch \<in> set (str_chars s) \<Longrightarrow>
    \<exists>a b. s = a @ ch @ b \<and> utf8_valid a \<and> utf8_valid ch \<and> ch \<noteq> [] \<and> str_chars ch = [ch]"
proof (induction s rule: from_utf8_induct)
  case (Seq c r n)
  from utf8_seq_Seq [OF Seq.hyps] have n: "1 \<le> n" "n \<le> length (c # r)" by auto
  then obtain m where m: "n = Suc m" by (cases n) auto
  let ?h = "take n (c # r)"
  have "utf8_seq c (take m r) = Seq n"
    using Seq.hyps utf8_seq_append [of c "take m r" "drop m r"]
      utf8_seq_Short [of c "take m r"] utf8_seq_Seq(1) [OF Seq.hyps] n m
    by (cases "utf8_seq c (take m r)") auto
  with m n have hv: "utf8_valid ?h" "str_chars ?h = [?h]"
    by (simp_all add: utf8_valid_def from_utf8_Cons)
  show ?case
  proof (cases "ch = ?h")
    case True
    have "c # r = [] @ ch @ drop n (c # r)" using True append_take_drop_id [of n "c # r"] by simp
    with True hv n show ?thesis by (intro exI [of _ "[]"] exI [of _ "drop n (c # r)"]) auto
  next
    case False
    with Seq.prems(2) Seq.hyps have "ch \<in> set (str_chars (drop n (c # r)))" by (simp add: Let_def)
    moreover have "utf8_valid (drop n (c # r))"
      using Seq.prems(1) Seq.hyps by (simp add: utf8_valid_def from_utf8_Cons)
    ultimately obtain a b where ab: "drop n (c # r) = a @ ch @ b" "utf8_valid a" "utf8_valid ch"
        "ch \<noteq> []" "str_chars ch = [ch]"
      using Seq.IH by blast
    have "c # r = (?h @ a) @ ch @ b" using ab(1) append_take_drop_id [of n "c # r"] by simp
    moreover have "utf8_valid (?h @ a)" using hv(1) ab(2) by (simp add: utf8_valid_append)
    ultimately show ?thesis using ab(3-5) by blast
  qed
qed (simp_all add: utf8_valid_def from_utf8_Cons)

definition forbidden :: "bytes \<Rightarrow> bool" where
  "forbidden ch \<longleftrightarrow> ch \<in> set [''?'', ''#'', [APO], [QUO], [BSL]]
     \<or> code_point ch = 0x2028 \<or> code_point ch = 0x2029 \<or> is_control ch"

lemma contains_forbidden_iff: "contains_forbidden_character s \<longleftrightarrow> (\<exists>ch \<in> set (str_chars s). forbidden ch)"
  by (simp add: contains_forbidden_character_def forbidden_def list_ex_iff)

lemma forbidden_not_hex:
  assumes "forbidden ch" "utf8_valid ch" "str_chars ch = [ch]" "c \<in> set ch"
  shows "c \<noteq> CHR ''%'' \<and> \<not> is_ascii_hexdigit c"
proof (cases ch)
  case (Cons b r)
  show ?thesis
  proof (cases "byte_val b < (128 :: nat)")
    case True
    from assms(2,3) Cons have "r = []"
      by (simp add: utf8_seq_ascii [OF True] Let_def)
    with assms(1,4) Cons show ?thesis
      by (auto simp: forbidden_def is_control_def code_point_def is_ascii_hexdigit_def Let_def)
  next
    case False
    from assms(2) Cons obtain n where n: "utf8_seq b r = Seq n"
      by (auto simp: utf8_valid_def from_utf8_Cons split: seq_check.splits)
    have "take n (b # r) = b # r" using assms(3) n by (simp add: Cons Let_def)
    with utf8_seq_conts [OF n] have "\<forall>c \<in> set r. is_cont c"
      by (cases n) auto
    with assms(4) Cons False show ?thesis by (auto simp: is_cont_def is_ascii_hexdigit_def Let_def)
  qed
qed (use assms in simp)

lemma pct_bytes_block:
  "\<forall>c \<in> set ch. c \<noteq> CHR ''%'' \<and> \<not> is_ascii_hexdigit c \<Longrightarrow> ch \<noteq> [] \<Longrightarrow>
     pct_bytes (a @ ch @ b) = pct_bytes a @ ch @ pct_bytes b"
proof (induction ch arbitrary: a)
  case (Cons c ch)
  from Cons.prems have c: "c \<noteq> CHR ''%''" "\<not> is_ascii_hexdigit c" by auto
  have "pct_bytes (ch @ b) = ch @ pct_bytes b"
    using Cons.IH [of "[]"] Cons.prems by (cases ch) auto
  with pct_bytes_at [OF c, of a "ch @ b"] show ?case by simp
qed simp

lemma forbidden_pct:
  assumes "contains_forbidden_character s" "utf8_valid s" "utf8_valid (pct_bytes s)"
  shows "contains_forbidden_character (pct_bytes s)"
proof -
  from assms(1) obtain ch where ch: "ch \<in> set (str_chars s)" "forbidden ch"
    by (auto simp: contains_forbidden_iff)
  with str_chars_valid [OF assms(2)] obtain a b where ab: "s = a @ ch @ b" "utf8_valid ch" "ch \<noteq> []"
      "str_chars ch = [ch]" by blast
  have "pct_bytes s = pct_bytes a @ ch @ pct_bytes b"
    unfolding ab(1) by (rule pct_bytes_block) (use forbidden_not_hex [OF ch(2) ab(2,4)] ab(3) in auto)
  moreover from this assms(3) have "utf8_valid (pct_bytes a @ ch @ pct_bytes b)" by simp
  then have "utf8_valid (pct_bytes a)" by (rule utf8_valid_needle(1) [OF _ ab(2,3)])
  ultimately have "ch \<in> set (str_chars (pct_bytes s))"
    using ab(2,4) by (simp add: str_chars_append)
  with ch(2) show ?thesis by (auto simp: contains_forbidden_iff)
qed

lemma unsafe_pct: "unsafe_text s \<Longrightarrow> utf8_valid s \<Longrightarrow> utf8_valid (pct_bytes s) \<Longrightarrow> unsafe_text (pct_bytes s)"
  using dot_segment_pct double_slash_pct forbidden_pct unfolding unsafe_text_def by blast

text \<open>Every text on the way from a safe one back to the beginning is safe.\<close>

lemma decodes_to_safe:
  "decodes_to s j d \<Longrightarrow> \<not> unsafe_text d \<Longrightarrow> i \<le> j \<Longrightarrow> \<not> unsafe_text ((pct_bytes ^^ i) s)"
proof (induction "j - i" arbitrary: i)
  case 0
  then show ?case by (auto simp: decodes_to_def)
next
  case (Suc k)
  then have "k = j - Suc i" "Suc i \<le> j" by auto
  with Suc have "\<not> unsafe_text ((pct_bytes ^^ Suc i) s)" by blast
  moreover have "utf8_valid ((pct_bytes ^^ i) s)" "utf8_valid ((pct_bytes ^^ Suc i) s)"
    using Suc.prems(1,3) \<open>Suc i \<le> j\<close> unfolding decodes_to_def by blast+
  ultimately show ?case using unsafe_pct [of "(pct_bytes ^^ i) s"] by auto
qed

lemma unsafe_append_slash:
  assumes "utf8_valid s" "unsafe_text s"
  shows "unsafe_text (s @ ''/'')"
proof -
  have "str_contains ''//'' s \<Longrightarrow> str_contains ''//'' (s @ ''/'')"
    unfolding str_contains_iff by (metis append.assoc)
  moreover have "split_byte CHR ''/'' (s @ ''/'') = split_byte CHR ''/'' s @ [[]]"
    using split_byte_at [of "CHR ''/''" s "[]"] by simp
  ultimately show ?thesis
    using assms by (auto simp: unsafe_text_def has_dot_segment_def contains_forbidden_iff str_chars_append)
qed

section \<open>The accepted base path\<close>

lemma trim_end_cases:
  assumes "s \<noteq> []" "s \<noteq> ''/''" "\<not> str_contains ''//'' s"
  shows "trim_end_matches CHR ''/'' s \<noteq> []
    \<and> (s = trim_end_matches CHR ''/'' s \<or> s = trim_end_matches CHR ''/'' s @ ''/'')"
proof (cases "suffix ''/'' s")
  case False
  obtain t x where s: "s = t @ [x]" using assms(1) by (cases s rule: rev_cases) auto
  with False have "x \<noteq> CHR ''/''" by (auto simp: suffix_def)
  with s show ?thesis by (simp add: trim_end_matches_def)
next
  case True
  then obtain t where t: "s = t @ ''/''" by (auto simp: suffix_def)
  with assms(2) obtain u x where u: "t = u @ [x]" by (cases t rule: rev_cases) auto
  have "x \<noteq> CHR ''/''"
  proof
    assume "x = CHR ''/''"
    with t u have "s = u @ ''//'' @ []" by simp
    with assms(3) show False unfolding str_contains_iff by blast
  qed
  with t u show ?thesis by (simp add: trim_end_matches_def)
qed

lemma funpow_pct_slash: "(pct_bytes ^^ i) (s @ ''/'') = (pct_bytes ^^ i) s @ ''/''"
  by (induction i) (simp_all add: pct_bytes_at [OF slash_not_hex])

lemma decodes_to_all:
  assumes "decodes_to s j d" "CHR ''%'' \<notin> set d" "\<not> unsafe_text d"
  shows "utf8_valid ((pct_bytes ^^ i) s) \<and> \<not> unsafe_text ((pct_bytes ^^ i) s)"
proof (cases "i \<le> j")
  case True
  with assms decodes_to_safe [OF assms(1,3) True] show ?thesis by (auto simp: decodes_to_def)
next
  case False
  have "(pct_bytes ^^ k) d = d" for k
    by (induction k) (simp_all add: pct_bytes_id [OF assms(2)])
  then have "(pct_bytes ^^ i) s = d"
    using False assms(1) funpow_add [of "i - j" j pct_bytes] by (simp add: decodes_to_def)
  with assms(1,3) show ?thesis by (auto simp: decodes_to_def)
qed

definition safe_base_path :: "bytes \<Rightarrow> bool" where
  "safe_base_path b \<longleftrightarrow>
     b = [] \<or> (prefix ''/'' b \<and> \<not> suffix ''/'' b \<and> length (str_chars b) \<le> 1024
               \<and> (\<forall>i. utf8_valid ((pct_bytes ^^ i) b) \<and> \<not> unsafe_text ((pct_bytes ^^ i) b)))"

lemma normalize_base_path_ok:
  assumes "pct_ok pct" "utf8_valid input" "normalize_base_path U pct input = (Ok b :: ('y, bytes) cresult)"
  shows "safe_base_path b \<and> (b = [] \<longleftrightarrow> input = [] \<or> input = ''/'') \<and> (b \<noteq> [] \<longrightarrow> input = b \<or> input = b @ ''/'')"
proof (cases "input = [] \<or> input = ''/''")
  case True
  with assms(3) show ?thesis by (auto simp: normalize_base_path_def safe_base_path_def)
next
  case nonroot: False
  with assms(3) obtain d where d: "decode_repeatedly pct input = (Ok d :: ('y, bytes) cresult)" "\<not> unsafe_text d"
      and b: "b = trim_end_matches CHR ''/'' input"
      and len: "length (str_chars input) \<le> MAX_BASE_PATH_LENGTH" and pre: "prefix ''/'' input"
    by (auto simp: normalize_base_path_def bind_outcome_Ok_iff unsafe_text_def split: if_splits option.splits)
  from decode_repeatedly_Ok [OF assms(1,2) len, of d, where 'a = 'y] d(1) obtain j
    where j: "CHR ''%'' \<notin> set d" "decodes_to input j d" by auto
  note all = decodes_to_all [OF j(2,1) d(2)]
  have "\<not> str_contains ''//'' input" using all [of 0] by (simp add: unsafe_text_def)
  with nonroot have trim: "b \<noteq> []" "input = b \<or> input = b @ ''/''"
    using trim_end_cases [of input] b by auto
  have safe: "utf8_valid ((pct_bytes ^^ i) b) \<and> \<not> unsafe_text ((pct_bytes ^^ i) b)" for i
    using trim(2)
  proof
    assume "input = b @ ''/''"
    with all [of i] have "utf8_valid ((pct_bytes ^^ i) b @ ''/'' @ [])" "\<not> unsafe_text ((pct_bytes ^^ i) b @ ''/'')"
      by (simp_all add: funpow_pct_slash)
    moreover have "utf8_valid ''/''" by code_simp
    ultimately show ?thesis using utf8_valid_needle(1) [of _ "''/''" "[]"] unsafe_append_slash by blast
  qed (use all [of i] in simp)
  have "length (str_chars b) \<le> length (str_chars input)"
    using trim(2) safe [of 0] by (auto simp: str_chars_append)
  moreover have "\<not> suffix ''/'' b" unfolding b by (rule trim_end_matches_end)
  moreover have "prefix ''/'' b" using pre trim by (cases b) (auto simp: prefix_def)
  ultimately show ?thesis
    using safe trim nonroot len by (auto simp: safe_base_path_def MAX_BASE_PATH_LENGTH_def)
qed

text \<open>
  C11. An accepted base path is safe: it is empty exactly for the root, and otherwise it is the
  configured path without its final slash, starts with a slash, has at most 1024 characters and,
  as it is and after any number of percent decodings, it is valid UTF-8 and has no quote,
  backslash, query, fragment, line separator or control character, no empty segment and no dot
  segment.
\<close>

theorem normalize_base_path_safe:
  assumes "pct_ok pct" "utf8_valid input" "normalize_base_path U pct input = Ok b"
  shows "safe_base_path b \<and> (b = [] \<longleftrightarrow> input = [] \<or> input = ''/'')
    \<and> (b \<noteq> [] \<longrightarrow> input = b \<or> input = b @ ''/'')"
  by (rule normalize_base_path_ok [OF assms])

text \<open>
  An instance of the parameter \<open>url\<close>: the parser knows the URLs \<open>http://host:port\<close> of three
  hosts, drops the default port and writes an IPv6 host in brackets.
\<close>

record url_parts =
  up_scheme :: bytes
  up_host :: bytes
  up_port :: "nat option"
  up_path :: bytes

definition sample_hosts :: "bytes list" where
  "sample_hosts = [''kubesphere.local'', ''127.0.0.1'', ''localhost'', ''[::1]'']"

definition sample_url_parse :: "bytes \<Rightarrow> url_parts option" where
  "sample_url_parse s =
     Option.bind (strip_prefix ''http://'' s) (\<lambda>r.
     Option.bind (find (\<lambda>h. prefix h r) sample_hosts) (\<lambda>h.
       let rest = drop (length h) r
       in if rest = [] then Some \<lparr>up_scheme = ''http'', up_host = h, up_port = None, up_path = ''/''\<rparr>
          else
            Option.bind (strip_prefix '':'' rest) (\<lambda>p.
            Option.bind (read_number 10 None True 65535 p) (\<lambda>(n, after).
              if after = [] then
                Some \<lparr>up_scheme = ''http'', up_host = h, up_port = (if n = 80 then None else Some n), up_path = ''/''\<rparr>
              else None))))"

definition sample_url_lib :: "(url_parts, bytes \<times> bytes \<times> nat option) url_lib" where
  "sample_url_lib =
     \<lparr>url_parse = sample_url_parse,
      url_join = (\<lambda>u input. if prefix ''/'' input then Some (u\<lparr>up_path := input\<rparr>) else None),
      url_origin = (\<lambda>u. (up_scheme u, up_host u, up_port u)),
      url_scheme = up_scheme, url_username = (\<lambda>_. []), url_password = (\<lambda>_. None),
      url_host_str = (\<lambda>u. if up_host u \<in> set sample_hosts then Some (up_host u) else None),
      url_port = (\<lambda>u. case up_port u of
                        Some n \<Rightarrow> if n \<le> 65535 \<and> n \<noteq> 80 then Some n else None
                      | None \<Rightarrow> None),
      url_path = up_path, url_query = (\<lambda>_. None), url_fragment = (\<lambda>_. None)\<rparr>"

theorem normalize_base_path_safe_witness:
  "normalize_base_path sample_url_lib std_pct ''/regions/a%20b/'' = (Ok ''/regions/a%20b'' :: (unit, bytes) cresult)
   \<and> safe_base_path ''/regions/a%20b''"
proof -
  have n: "normalize_base_path sample_url_lib std_pct ''/regions/a%20b/''
      = (Ok ''/regions/a%20b'' :: (unit, bytes) cresult)"
    by code_simp
  have "utf8_valid ''/regions/a%20b/''" by code_simp
  from normalize_base_path_safe [OF std_pct_ok this n] n show ?thesis by simp
qed

end
