(* ===== verification/Socket_Addr_Correct.thy ===== *)
theory Socket_Addr_Correct
  imports Socket_Addr
begin

text \<open>
  Printing a socket address and parsing the text gives the address back, for every address that
  the parser can return; IPv6 addresses are printed with their longest run of zeros left out.
\<close>

section \<open>Numbers\<close>

lemma digit_value_digit:
  "d < radix \<Longrightarrow> radix \<le> 16 \<Longrightarrow> digit_value radix (digit_char d) = Some d"
  by (auto simp: digit_value_def digit_char_def Let_def)

text \<open>A text at which a number ends.\<close>

definition no_digit :: "nat \<Rightarrow> bytes \<Rightarrow> bool" where
  "no_digit radix s \<longleftrightarrow> (case s of [] \<Rightarrow> True | b # r \<Rightarrow> digit_value radix b = None)"

lemma read_digits_stop: "no_digit radix s \<Longrightarrow> read_digits radix md limit acc count s = Some (acc, count, s)"
  by (cases s) (auto simp: no_digit_def)

lemma read_digits_radix:
  assumes "2 \<le> radix" "radix \<le> 16"
  shows "n \<le> limit \<Longrightarrow> (case md of Some m \<Rightarrow> length (radix_digits radix n) \<le> m | None \<Rightarrow> True) \<Longrightarrow>
    read_digits radix md limit 0 0 (radix_digits radix n @ s) =
    read_digits radix md limit n (length (radix_digits radix n)) s"
proof (induction n arbitrary: s rule: radix_digits_induct [OF assms(1)])
  case (1 n)
  with assms show ?case by (auto simp: radix_digits_small digit_value_digit Let_def split: option.splits)
next
  case (2 n)
  let ?q = "radix_digits radix (n div radix)"
  have step: "radix_digits radix n = ?q @ [digit_char (n mod radix)]"
    using 2(1) assms(1) by (rule radix_digits_step)
  have "n div radix \<le> limit" using 2(3) div_le_dividend [of n radix] by linarith
  moreover have len: "case md of Some m \<Rightarrow> length ?q + 1 \<le> m | None \<Rightarrow> True"
    using 2(4) by (simp add: step split: option.splits)
  then have "case md of Some m \<Rightarrow> length ?q \<le> m | None \<Rightarrow> True" by (simp split: option.splits)
  ultimately have IH: "read_digits radix md limit 0 0 (?q @ t) = read_digits radix md limit (n div radix) (length ?q) t" for t
    by (rule 2(2))
  have "n mod radix < radix" using assms(1) by simp
  then have digit: "digit_value radix (digit_char (n mod radix)) = Some (n mod radix)"
    using assms(2) by (rule digit_value_digit)
  have "n div radix * radix + n mod radix = n" by simp
  with 2(3) len show ?case
    by (auto simp: step IH digit Let_def split: option.splits)
qed

lemma read_number_radix:
  assumes "2 \<le> radix" "radix \<le> 16" "n \<le> limit" "no_digit radix s"
    and "case md of Some m \<Rightarrow> length (radix_digits radix n) \<le> m | None \<Rightarrow> True"
  shows "read_number radix md z limit (radix_digits radix n @ s) = Some (n, s)"
proof -
  have read: "read_digits radix md limit 0 0 (radix_digits radix n @ s) = Some (n, length (radix_digits radix n), s)"
    unfolding read_digits_radix [OF assms(1-3,5)] by (rule read_digits_stop [OF assms(4)])
  obtain d where d: "d < radix" "hd (radix_digits radix n) = digit_char d" "d = 0 \<longrightarrow> n = 0"
    using radix_digits_hd [OF assms(1)] by blast
  have "n = 0" if "hd (radix_digits radix n @ s) = CHR ''0''"
  proof -
    from that d(2) have "digit_char d = CHR ''0''" by simp
    then have "byte_val (digit_char d) = (48 :: nat)" by simp
    with d(1) assms(2) have "d = 0" by (auto simp: digit_char_val split: if_splits)
    with d(3) show ?thesis by simp
  qed
  moreover have "length (radix_digits radix 0) = 1" using assms(1) by (simp add: radix_digits_small)
  ultimately show ?thesis by (auto simp: read_number_def read)
qed

lemma read_octet:
  "n \<le> 255 \<Longrightarrow> no_digit 10 s \<Longrightarrow> read_number 10 (Some 3) z 255 (decimal n @ s) = Some (n, s)"
  unfolding decimal_def using radix_digits_length [of 10 n 3] by (intro read_number_radix) auto

lemma read_group:
  "n \<le> 65535 \<Longrightarrow> no_digit 16 s \<Longrightarrow> read_number 16 (Some 4) z 65535 (lower_hex n @ s) = Some (n, s)"
  unfolding lower_hex_def using radix_digits_length [of 16 n 4] by (intro read_number_radix) auto

lemma read_decimal: "n \<le> limit \<Longrightarrow> no_digit 10 s \<Longrightarrow> read_number 10 None z limit (decimal n @ s) = Some (n, s)"
  unfolding decimal_def by (intro read_number_radix) auto

lemma no_digit_simps [simp]:
  "no_digit radix []" "no_digit 10 (CHR ''.'' # s)" "no_digit radix (CHR '':'' # s)"
  "no_digit radix (CHR '']'' # s)" "no_digit radix (CHR ''%'' # s)"
  by (simp_all add: no_digit_def digit_value_def)

section \<open>IPv4\<close>

definition octets_wf :: "nat list \<Rightarrow> bool" where
  "octets_wf os \<longleftrightarrow> length os = 4 \<and> (\<forall>n \<in> set os. n \<le> 255)"

lemma read_display_ipv4:
  assumes "octets_wf os" "no_digit 10 s"
  shows "read_ipv4_addr (display_ipv4 os @ s) = Some (os, s)"
proof -
  obtain a b c d where os: "os = [a, b, c, d]" "a \<le> 255" "b \<le> 255" "c \<le> 255" "d \<le> 255"
    using assms(1) by (auto simp: octets_wf_def length_Suc_conv numeral_eq_Suc)
  have four: "(4 :: nat) = Suc (Suc (Suc (Suc 0)))" by simp
  show ?thesis
    unfolding read_ipv4_addr_def four using os assms(2)
    by (simp add: display_ipv4_def read_separator_def read_given_char_def read_octet)
qed

section \<open>IPv6\<close>

definition groups_wf :: "nat list \<Rightarrow> bool" where
  "groups_wf gs \<longleftrightarrow> (\<forall>g \<in> set gs. g \<le> 65535)"

text \<open>Where a list of groups ends: at the end of the address, or at the gap.\<close>

definition stops :: "bytes \<Rightarrow> bool" where
  "stops s \<longleftrightarrow> s = [] \<or> hd s = CHR '']'' \<or> hd s = CHR ''%'' \<or> prefix ''::'' s"

lemma stops_cases:
  assumes "stops s"
  obtains "s = []" | r where "s = CHR '']'' # r" | r where "s = CHR ''%'' # r" | r where "s = ''::'' @ r"
  using assms by (cases s) (auto simp: stops_def prefix_def)

lemma read_digits_append:
  "read_digits radix md limit acc count (xs @ s) = Some (v, c, r) \<Longrightarrow> no_digit radix s \<Longrightarrow>
     \<exists>xs'. r = xs' @ s \<and> set xs' \<subseteq> set xs"
proof (induction xs arbitrary: acc count)
  case Nil
  then show ?case by (simp add: read_digits_stop)
next
  case (Cons x xs)
  show ?case
  proof (cases "digit_value radix x")
    case None
    with Cons.prems(1) have "r = (x # xs) @ s" by simp
    then show ?thesis by blast
  next
    case (Some d)
    with Cons.prems(1) have "read_digits radix md limit (acc * radix + d) (count + 1) (xs @ s) = Some (v, c, r)"
      by (auto simp: Let_def split: if_splits)
    from Cons.IH [OF this Cons.prems(2)] show ?thesis by auto
  qed
qed

lemma not_ipv4:
  assumes "CHR ''.'' \<notin> set xs" "no_digit 10 s" "\<not> prefix ''.'' s"
  shows "read_ipv4_addr (xs @ s) = None"
proof -
  have four: "(4 :: nat) = Suc 3" by simp
  have "read_octets 1 3 r = None" if "read_number 10 (Some 3) False 255 (xs @ s) = Some (v, r)" for v r
  proof -
    from that obtain c where "read_digits 10 (Some 3) 255 0 0 (xs @ s) = Some (v, c, r)"
      by (auto simp: read_number_def split: option.splits if_splits)
    from read_digits_append [OF this assms(2)] obtain xs' where "r = xs' @ s" "set xs' \<subseteq> set xs" by blast
    with assms(1,3) have "read_given_char CHR ''.'' r = None"
      by (cases xs'; cases s) (auto simp: read_given_char_def)
    then show ?thesis by (simp add: numeral_3_eq_3 read_separator_def)
  qed
  then show ?thesis
    unfolding read_ipv4_addr_def four read_octets.simps(2)
    by (cases "read_number 10 (Some 3) False 255 (xs @ s)") (auto simp: read_separator_def)
qed

lemma lower_hex_no_dot: "CHR ''.'' \<notin> set (lower_hex n)"
  using lower_hex_digits [of "CHR ''.''" n] by auto

lemma read_number_none: "no_digit radix s \<Longrightarrow> read_number radix md z limit s = None"
  by (simp add: read_number_def read_digits_stop)

lemma stops_no_digit: "stops s \<Longrightarrow> no_digit 16 s \<and> no_digit 10 s \<and> \<not> prefix ''.'' s"
  by (erule stops_cases) simp_all

lemma read_groups_stop:
  assumes "stops s"
  shows "read_groups limit i s = ([], False, s)"
proof -
  have none: "read_ipv4_addr t = None" "read_number 16 (Some 4) True 65535 t = None"
    if "no_digit 10 t" "no_digit 16 t" "\<not> prefix ''.'' t" for t
    using not_ipv4 [of "[]" t] that by (simp_all add: read_number_none)
  have "read_separator CHR '':'' i read_ipv4_addr s = None"
    "read_separator CHR '':'' i (read_number 16 (Some 4) True 65535) s = None"
    using stops_no_digit [OF assms] assms none
    by (auto simp: read_separator_def read_given_char_def elim!: stops_cases)
  then show ?thesis by (simp add: read_groups.simps)
qed

lemma fmt_subslice_Nil [simp]: "fmt_subslice [] = []"
  by (simp add: fmt_subslice_def)

lemma fmt_subslice_Cons:
  "fmt_subslice (g # gs) = lower_hex g @ (if gs = [] then [] else CHR '':'' # fmt_subslice gs)"
  by (cases gs) (simp_all add: fmt_subslice_def)

lemma read_groups_fmt:
  assumes "stops s"
  shows "groups_wf gs \<Longrightarrow> i + length gs \<le> limit \<Longrightarrow>
    read_groups limit i ((if i = 0 \<or> gs = [] then [] else '':'') @ fmt_subslice gs @ s) = (gs, False, s)"
proof (induction gs arbitrary: i)
  case Nil
  then show ?case by (simp add: fmt_subslice_def read_groups_stop [OF assms])
next
  case (Cons g gs)
  define t where "t = (if gs = [] then [] else '':'') @ fmt_subslice gs @ s"
  have cut: "fmt_subslice (g # gs) @ s = lower_hex g @ t" by (simp add: fmt_subslice_Cons t_def)
  have t: "no_digit 16 t" "no_digit 10 t" "\<not> prefix ''.'' t"
    using stops_no_digit [OF assms] by (auto simp: t_def)
  have g: "g \<le> 65535" "groups_wf gs" using Cons.prems(1) by (simp_all add: groups_wf_def)
  have "read_groups limit (i + 1) t = (gs, False, s)"
    using Cons.IH [of "i + 1"] g(2) Cons.prems(2) by (simp add: t_def)
  moreover have "read_ipv4_addr (lower_hex g @ t) = None"
    by (rule not_ipv4 [OF lower_hex_no_dot t(2,3)])
  moreover have "read_number 16 (Some 4) True 65535 (lower_hex g @ t) = Some (g, t)"
    by (rule read_group [OF g(1) t(1)])
  ultimately show ?case
    using Cons.prems(2) unfolding cut
    by (subst read_groups.simps, cases "i = 0") (simp_all add: read_separator_def read_given_char_def)
qed

lemma read_groups_mapped:
  assumes "octets_wf [a, b, c, d]" "no_digit 10 s"
  shows "read_groups 7 0 (''ffff:'' @ display_ipv4 [a, b, c, d] @ s) = ([65535, a * 256 + b, c * 256 + d], True, s)"
proof -
  let ?t = "'':'' @ display_ipv4 [a, b, c, d] @ s"
  have hex: "lower_hex 65535 = ''ffff''" by code_simp
  have "read_groups 7 1 ?t = ([a * 256 + b, c * 256 + d], True, s)"
    using read_display_ipv4 [OF assms]
    by (simp add: read_groups.simps [of 7 "Suc 0"] read_separator_def read_given_char_def)
  moreover have "read_ipv4_addr (''ffff'' @ ?t) = None"
    by (rule not_ipv4) simp_all
  moreover have "read_number 16 (Some 4) True 65535 (''ffff'' @ ?t) = Some (65535, ?t)"
    using read_group [of 65535 ?t True] by (simp add: hex)
  ultimately show ?thesis
    by (simp add: read_groups.simps [of 7 0] read_separator_def)
qed

text \<open>The run that is left out consists of zeros.\<close>

definition zero_span :: "nat list \<Rightarrow> nat \<times> nat \<Rightarrow> bool" where
  "zero_span gs sp \<longleftrightarrow> fst sp + snd sp \<le> length gs \<and> (\<forall>k < snd sp. gs ! (fst sp + k) = 0)"

lemma longest_span_zero:
  "zero_span gs longest \<Longrightarrow> zero_span gs current \<Longrightarrow> snd current = 0 \<or> fst current + snd current = i \<Longrightarrow>
     i \<le> length gs \<Longrightarrow> drop i gs = rest \<Longrightarrow> zero_span gs (longest_span i longest current rest)"
proof (induction i longest current rest rule: longest_span.induct)
  case (2 i longest current g rest)
  have i: "i < length gs" "gs ! i = g" "drop (i + 1) gs = rest"
    using 2(7) by (metis drop_all list.distinct(1) not_le, metis nth_via_drop, metis drop_Suc drop_tl list.sel(3) Suc_eq_plus1)
  show ?case
  proof (cases "g = 0")
    case True
    define current' where "current' = (if snd current = 0 then i else fst current, snd current + 1)"
    have "zero_span gs current'" "fst current' + snd current' = i + 1"
      using 2(4,5) i True by (auto simp: current'_def zero_span_def less_Suc_eq)
    moreover have "longest_span i longest current (g # rest) =
        longest_span (i + 1) (if snd longest < snd current' then current' else longest) current' rest"
      by (simp add: True current'_def Let_def)
    ultimately show ?thesis using 2(1) [OF True current'_def] 2(3) i by simp
  next
    case False
    with 2(2) [OF False] 2(3) i show ?thesis by (simp add: zero_span_def)
  qed
qed simp

lemma zero_span_split:
  assumes "zero_span gs (start, len)"
  shows "gs = take start gs @ replicate len 0 @ drop (start + len) gs"
proof -
  have "take len (drop start gs) = replicate len 0"
    using assms by (intro nth_equalityI) (auto simp: zero_span_def)
  then show ?thesis by (metis append_take_drop_id drop_drop add.commute)
qed

lemma read_display_ipv6:
  assumes "length gs = 8" "groups_wf gs" "stops s" "\<not> prefix ''::'' s"
  shows "read_ipv6_addr (display_ipv6 gs @ s) = Some (gs, s)"
proof (cases "take 6 gs = [0, 0, 0, 0, 0, 65535]")
  case True
  have "length (drop 6 gs) = 2" using assms(1) by simp
  then obtain x y where "drop 6 gs = [x, y]" by (auto simp: length_Suc_conv numeral_2_eq_2 simp del: length_drop)
  with True have xy: "gs = [0, 0, 0, 0, 0, 65535, x, y]"
    by (metis append_take_drop_id append_Cons append_Nil)
  then have "x \<le> 65535" "y \<le> 65535" using assms(2) by (simp_all add: groups_wf_def)
  then have octets: "octets_wf [x div 256, x mod 256, y div 256, y mod 256]"
    by (auto simp: octets_wf_def)
  have "read_groups 8 0 (''::'' @ r) = ([], False, ''::'' @ r)" for r
    by (rule read_groups_stop) (simp add: stops_def)
  moreover have "replicate 5 (0 :: nat) = [0, 0, 0, 0, 0]" by code_simp
  ultimately show ?thesis
    using read_groups_mapped [OF octets, of s] stops_no_digit [OF assms(3)]
    by (simp add: read_ipv6_addr_def display_ipv6_def xy read_given_char_def)
next
  case not_mapped: False
  obtain start len where span: "longest_span 0 (0, 0) (0, 0) gs = (start, len)" by (cases "longest_span 0 (0, 0) (0, 0) gs")
  have zero: "zero_span gs (start, len)"
    using longest_span_zero [of gs "(0, 0)" "(0, 0)" 0 gs] by (simp add: span zero_span_def)
  show ?thesis
  proof (cases "1 < len")
    case True
    let ?head = "take start gs" and ?tail = "drop (start + len) gs"
    have len: "length ?head = start" "length ?tail = 8 - start - len" "start + len \<le> 8"
      using zero assms(1) by (auto simp: zero_span_def)
    have wf: "groups_wf ?head" "groups_wf ?tail"
      using assms(2) by (auto simp: groups_wf_def dest: in_set_takeD in_set_dropD)
    have "read_groups 8 0 (fmt_subslice ?head @ ''::'' @ fmt_subslice ?tail @ s) =
        (?head, False, ''::'' @ fmt_subslice ?tail @ s)"
      using read_groups_fmt [OF _ wf(1), of "''::'' @ fmt_subslice ?tail @ s" 0 8] len by (simp add: stops_def)
    moreover have "read_groups (8 - (start + 1)) 0 (fmt_subslice ?tail @ s) = (?tail, False, s)"
      using read_groups_fmt [OF assms(3) wf(2), of 0 "8 - (start + 1)"] len True by simp
    moreover have "8 - start - length ?tail = len" using len by simp
    moreover have "start \<noteq> 8" using len True by simp
    ultimately show ?thesis
      using not_mapped len True zero_span_split [OF zero]
      by (simp add: read_ipv6_addr_def display_ipv6_def span read_given_char_def del: length_take length_drop)
  next
    case False
    then show ?thesis
      using not_mapped assms(1) read_groups_fmt [OF assms(3,2), of 0 8]
      by (simp add: read_ipv6_addr_def display_ipv6_def span)
  qed
qed

section \<open>Socket addresses\<close>

definition addr_wf :: "socket_addr \<Rightarrow> bool" where
  [wf_simps]: "addr_wf a \<longleftrightarrow>
     sa_port a \<le> 65535
     \<and> (case sa_ip a of
          V4 octets \<Rightarrow> octets_wf octets \<and> sa_scope a = 0
        | V6 groups \<Rightarrow> length groups = 8 \<and> groups_wf groups \<and> sa_scope a \<le> 4294967295)"

lemma read_port_decimal: "p \<le> 65535 \<Longrightarrow> read_port ('':'' @ decimal p) = Some (p, [])"
  using read_decimal [of p 65535 "[]"] by (simp add: read_port_def read_given_char_def)

lemma parse_display:
  assumes "addr_wf a"
  shows "parse_socket_addr (display_socket_addr a) = Some a"
proof (cases "sa_ip a")
  case (V4 octets)
  then have "read_ipv4_addr (display_socket_addr a) = Some (octets, '':'' @ decimal (sa_port a))"
    using assms read_display_ipv4 [of octets "'':'' @ decimal (sa_port a)"]
    by (simp add: addr_wf_def display_socket_addr_def)
  with V4 assms read_port_decimal [of "sa_port a"] show ?thesis
    by (simp add: parse_socket_addr_def read_socket_addr_v4_def addr_wf_def)
next
  case (V6 groups)
  define u where "u = '']:'' @ decimal (sa_port a)"
  define t where "t = (if sa_scope a = 0 then [] else ''%'' @ decimal (sa_scope a)) @ u"
  have disp: "display_socket_addr a = ''['' @ display_ipv6 groups @ t"
    by (simp add: display_socket_addr_def V6 t_def u_def)
  have "read_ipv4_addr (display_socket_addr a) = None"
    using not_ipv4 [of "[]" "''['' @ display_ipv6 groups @ t"]
    by (simp add: disp no_digit_def digit_value_def)
  then have v4: "read_socket_addr_v4 (display_socket_addr a) = None" by (simp add: read_socket_addr_v4_def)
  have "stops t" "\<not> prefix ''::'' t" by (simp_all add: t_def u_def stops_def)
  with assms V6 have ip: "read_ipv6_addr (display_ipv6 groups @ t) = Some (groups, t)"
    by (intro read_display_ipv6) (simp_all add: addr_wf_def)
  have scope: "(case read_scope_id t of Some v \<Rightarrow> v | None \<Rightarrow> (0, t)) = (sa_scope a, u)"
    using assms V6 read_decimal [of "sa_scope a" 4294967295 u]
    by (simp add: addr_wf_def read_scope_id_def read_given_char_def t_def u_def)
  have port: "read_port ('':'' @ decimal (sa_port a)) = Some (sa_port a, [])"
    using assms read_port_decimal [of "sa_port a"] by (simp add: addr_wf_def)
  have "read_socket_addr_v6 (display_socket_addr a) =
      Some (\<lparr>sa_ip = V6 groups, sa_scope = sa_scope a, sa_port = sa_port a\<rparr>, [])"
    using ip scope port by (simp add: read_socket_addr_v6_def disp read_given_char_def u_def)
  with v4 V6 show ?thesis by (simp add: parse_socket_addr_def)
qed

section \<open>What the parser returns\<close>

lemma read_octets_wf:
  "read_octets i k s = Some (os, r) \<Longrightarrow> length os = k \<and> (\<forall>n \<in> set os. n \<le> 255)"
proof (induction i k s arbitrary: os r rule: read_octets.induct)
  case (2 i k s)
  then obtain v r1 os' where "read_separator CHR ''.'' i (read_number 10 (Some 3) False 255) s = Some (v, r1)"
    "read_octets (Suc i) k r1 = Some (os', r)" "os = v # os'"
    by (auto simp: bind_eq_Some_conv)
  moreover from this(1) have "v \<le> 255"
    by (auto simp: read_separator_def bind_eq_Some_conv dest: read_number_limit split: if_splits)
  ultimately show ?case using 2(1) by auto
qed simp

lemma read_ipv4_wf: "read_ipv4_addr s = Some (os, r) \<Longrightarrow> octets_wf os"
  unfolding read_ipv4_addr_def octets_wf_def by (rule read_octets_wf)

lemma read_groups_wf:
  "read_groups limit i s = (gs, v4, r) \<Longrightarrow> i \<le> limit \<Longrightarrow> groups_wf gs \<and> i + length gs \<le> limit"
proof (induction limit i s arbitrary: gs v4 r rule: read_groups.induct)
  case (1 limit i s)
  let ?ip = "if i + 1 < limit then read_separator CHR '':'' i read_ipv4_addr s else None"
  show ?case
  proof (cases "limit \<le> i")
    case True
    then have "read_groups limit i s = ([], False, s)" by (simp add: read_groups.simps)
    with 1(2,3) show ?thesis by (simp add: groups_wf_def)
  next
    case False
    show ?thesis
    proof (cases ?ip)
      case (Some p)
      obtain os r' where p: "p = (os, r')" by (cases p)
      from Some p have "octets_wf os" and lim: "i + 1 < limit"
        by (auto simp: read_separator_def bind_eq_Some_conv dest: read_ipv4_wf split: if_splits)
      then obtain a b c d where "os = [a, b, c, d]" "a \<le> 255" "b \<le> 255" "c \<le> 255" "d \<le> 255"
        by (auto simp: octets_wf_def length_Suc_conv numeral_eq_Suc)
      with 1(2) Some p False lim show ?thesis
        by (auto simp: read_groups.simps [of limit i s] groups_wf_def)
    next
      case None
      show ?thesis
      proof (cases "read_separator CHR '':'' i (read_number 16 (Some 4) True 65535) s")
        case (Some p)
        obtain g r1 where p: "p = (g, r1)" by (cases p)
        obtain gs' w r2 where rest: "read_groups limit (i + 1) r1 = (gs', w, r2)" by (metis prod_cases3)
        from Some p have "g \<le> 65535"
          by (auto simp: read_separator_def bind_eq_Some_conv dest: read_number_limit split: if_splits)
        moreover have "groups_wf gs' \<and> i + 1 + length gs' \<le> limit"
          using 1(1) [OF False None Some p [symmetric] rest] False by simp
        moreover have "gs = g # gs'"
          using 1(2) False None Some p rest by (simp add: read_groups.simps [of limit i s])
        ultimately show ?thesis by (simp add: groups_wf_def)
      qed (use 1(2) 1(3) False None in \<open>simp add: read_groups.simps [of limit i s] groups_wf_def\<close>)
    qed
  qed
qed

lemma read_ipv6_wf:
  assumes "read_ipv6_addr s = Some (gs, r)"
  shows "length gs = 8 \<and> groups_wf gs"
proof -
  obtain head v4 r0 where head: "read_groups 8 0 s = (head, v4, r0)" by (metis prod_cases3)
  from read_groups_wf [OF this] have h: "groups_wf head" "length head \<le> 8" by simp_all
  show ?thesis
  proof (cases "length head = 8")
    case True
    with assms head h show ?thesis by (simp add: read_ipv6_addr_def)
  next
    case False
    with assms head obtain r2 where "(case read_groups (8 - (length head + 1)) 0 r2 of
        (tail, _, r3) \<Rightarrow> Some (head @ replicate (8 - length head - length tail) 0 @ tail, r3)) = Some (gs, r)"
      by (auto simp: read_ipv6_addr_def bind_eq_Some_conv split: if_splits)
    then obtain tail w r3 where "read_groups (8 - (length head + 1)) 0 r2 = (tail, w, r3)"
      "gs = head @ replicate (8 - length head - length tail) 0 @ tail"
      by (auto split: prod.splits)
    with read_groups_wf [of "8 - (length head + 1)" 0 r2 tail w r3] h False show ?thesis
      by (auto simp: groups_wf_def)
  qed
qed

lemma parse_wf:
  assumes "parse_socket_addr s = Some a"
  shows "addr_wf a"
proof (cases "read_socket_addr_v4 s")
  case None
  with assms have "read_socket_addr_v6 s = Some (a, [])"
    by (auto simp: parse_socket_addr_def split: option.splits if_splits)
  then obtain y groups r1 where v6: "read_ipv6_addr y = Some (groups, r1)"
    and rest: "(let (scope, r2) = (case read_scope_id r1 of Some v \<Rightarrow> v | None \<Rightarrow> (0, r1))
       in Option.bind (read_given_char CHR '']'' r2) (\<lambda>r3.
          Option.bind (read_port r3) (\<lambda>(port, r4).
            Some (\<lparr>sa_ip = V6 groups, sa_scope = scope, sa_port = port\<rparr>, r4)))) = Some (a, [])"
    by (auto simp only: read_socket_addr_v6_def bind_eq_Some_conv prod.case)
  obtain scope r2 where scope: "(case read_scope_id r1 of Some v \<Rightarrow> v | None \<Rightarrow> (0, r1)) = (scope, r2)"
    by (cases "case read_scope_id r1 of Some v \<Rightarrow> v | None \<Rightarrow> (0, r1)")
  with rest have "sa_ip a = V6 groups" "sa_scope a = scope"
    by (auto simp: Let_def bind_eq_Some_conv)
  moreover from scope have "scope \<le> 4294967295"
    by (auto simp: read_scope_id_def bind_eq_Some_conv dest: read_number_limit split: option.splits)
  ultimately show ?thesis
    using parse_socket_addr_port [OF assms] read_ipv6_wf [OF v6] by (simp add: addr_wf_def)
next
  case (Some p)
  with assms have "read_socket_addr_v4 s = Some (a, [])"
    by (cases p) (auto simp: parse_socket_addr_def split: if_splits)
  then obtain os r where "read_ipv4_addr s = Some (os, r)" "sa_ip a = V4 os" "sa_scope a = 0"
    by (auto simp: read_socket_addr_v4_def bind_eq_Some_conv)
  with parse_socket_addr_port [OF assms] show ?thesis by (auto simp: addr_wf_def dest: read_ipv4_wf)
qed

end
