(* ===== verification/Config_Correct.thy ===== *)
theory Config_Correct
  imports Base_Path_Correct Policy_Correct Socket_Addr_Correct
begin

text \<open>
  What an accepted configuration guarantees: disjoint listeners, a loopback upstream, positive
  limits, safe and distinct extension names, the rules that the switches leave on; and how the
  policy made from it behaves.
\<close>

section \<open>The parameters\<close>

text \<open>
  What is used of the crate \<open>url\<close>: it parses the fixed base URL, a port is a \<open>u16\<close>, an IPv6 host
  is written in brackets, and the default port of the scheme is not reported.
\<close>

definition url_ok :: "('u, 'o) url_lib \<Rightarrow> bool" where
  [wf_simps]: "url_ok U \<longleftrightarrow>
     url_parse U ''http://kubesphere.local'' \<noteq> None
     \<and> (\<forall>u p. url_port U u = Some p \<longrightarrow> p \<le> 65535)
     \<and> (\<forall>u h. url_host_str U u = Some h \<longrightarrow> CHR '':'' \<in> set h \<longrightarrow> prefix ''['' h)
     \<and> (\<forall>u. url_scheme U u = ''http'' \<longrightarrow> url_port U u \<noteq> Some 80)"

lemma sample_url_lib_ok: "url_ok sample_url_lib"
proof -
  have "url_parse sample_url_lib ''http://kubesphere.local'' \<noteq> None"
    by (simp add: sample_url_lib_def sample_url_parse_def sample_hosts_def strip_prefix_def)
  then show ?thesis
    by (auto simp: url_ok_def sample_url_lib_def sample_hosts_def split: option.splits if_splits)
qed

text \<open>
  What is used of YAML: the strings are valid, and a map has each key once.
\<close>

definition yaml_ok :: "'y yaml_lib \<Rightarrow> bool" where
  [wf_simps]: "yaml_ok Y \<longleftrightarrow>
     (\<forall>s doc b. yaml_read Y s = Inr doc \<longrightarrow> yd_base_path doc = Some (Some b) \<longrightarrow> utf8_valid b)
     \<and> (\<forall>s doc y r rules. yaml_read Y s = Inr doc \<longrightarrow> yd_sidecar doc = Some y \<longrightarrow> ys_rewrite y = Some r \<longrightarrow>
          yr_rules r = Some rules \<longrightarrow> distinct (map fst rules))"

lemma yaml_from_str_ok:
  assumes "yaml_ok Y" "yaml_from_str Y s = Ok raw"
  shows "utf8_valid (rc_base_path (raw_client raw)) \<and> distinct (map fst (rw_rules (rs_rewrite (raw_sidecar raw))))"
proof -
  from assms(2) obtain doc y where doc: "yaml_read Y s = Inr doc" "yd_sidecar doc = Some y"
      "deserialize_sidecar Y y = Ok (raw_sidecar raw)"
      "rc_base_path (raw_client raw) = or_default (or_default (yd_base_path doc) None) []"
    by (auto simp: yaml_from_str_def bind_outcome_Ok_iff required_def split: sum.splits option.splits)
  from assms(1) doc(1) have "\<forall>b. yd_base_path doc = Some (Some b) \<longrightarrow> utf8_valid b"
    unfolding yaml_ok_def by blast
  with doc(4) have base: "utf8_valid (rc_base_path (raw_client raw))"
    by (auto simp: or_default_def split: option.splits)
  from doc(3) have "rs_rewrite (raw_sidecar raw) =
      (case ys_rewrite y of Some r \<Rightarrow> deserialize_rewrite r | None \<Rightarrow> raw_rewrite_default)"
    by (force simp: deserialize_sidecar_def bind_outcome_Ok_iff dest: arg_cong [of _ _ rs_rewrite])
  moreover from assms(1) doc(1,2) have "\<forall>r rules. ys_rewrite y = Some r \<longrightarrow> yr_rules r = Some rules \<longrightarrow>
      distinct (map fst rules)"
    unfolding yaml_ok_def by blast
  ultimately have "distinct (map fst (rw_rules (rs_rewrite (raw_sidecar raw))))"
    by (cases "ys_rewrite y")
      (auto simp: deserialize_rewrite_def raw_rewrite_default_def or_default_def split: option.split)
  with base show ?thesis ..
qed

section \<open>The upstream\<close>

lemma parse_loopback: "p \<le> 65535 \<Longrightarrow>
    parse_socket_addr (''127.0.0.1:'' @ decimal p) = Some \<lparr>sa_ip = V4 [127, 0, 0, 1], sa_scope = 0, sa_port = p\<rparr>"
proof -
  assume "p \<le> 65535"
  then have "addr_wf \<lparr>sa_ip = V4 [127, 0, 0, 1], sa_scope = 0, sa_port = p\<rparr>"
    by (simp add: addr_wf_def octets_wf_def)
  moreover have "display_ipv4 [127, 0, 0, 1] = ''127.0.0.1''" by code_simp
  ultimately show ?thesis
    using parse_display [of "\<lparr>sa_ip = V4 [127, 0, 0, 1], sa_scope = 0, sa_port = p\<rparr>"]
    by (simp add: display_socket_addr_def)
qed

lemma no_ipv6_host: "url_ok U \<Longrightarrow> url_host_str U u \<noteq> Some ''::1''"
  by (fastforce simp: url_ok_def)

lemma parse_upstream_Ok:
  assumes "url_ok U"
  shows "parse_upstream U s = Ok a \<longleftrightarrow>
    (\<exists>u p. url_parse U s = Some u \<and> url_scheme U u = ''http'' \<and> url_username U u = [] \<and> url_password U u = None
       \<and> url_query U u = None \<and> url_fragment U u = None \<and> url_path U u = ''/''
       \<and> (url_host_str U u = Some ''127.0.0.1'' \<or> url_host_str U u = Some ''localhost'')
       \<and> url_port U u = Some p \<and> p \<le> 65535 \<and> p \<noteq> 80
       \<and> a = \<lparr>sa_ip = V4 [127, 0, 0, 1], sa_scope = 0, sa_port = p\<rparr>)"
proof (cases "url_parse U s")
  case (Some u)
  have port: "p \<le> 65535 \<and> (url_scheme U u = ''http'' \<longrightarrow> p \<noteq> 80)" if "url_port U u = Some p" for p
    using assms that by (auto simp: url_ok_def)
  show ?thesis
    using no_ipv6_host [OF assms, of u] port parse_loopback
    by (cases "url_host_str U u"; cases "url_port U u")
      (auto simp: parse_upstream_def Some)
qed (simp add: parse_upstream_def)

lemma upstream_addr:
  "url_ok U \<Longrightarrow> parse_upstream U s = Ok a \<Longrightarrow> sa_ip a = V4 [127, 0, 0, 1] \<and> addr_wf a"
  by (auto simp: parse_upstream_Ok addr_wf_def octets_wf_def)

text \<open>
  C36. Which upstreams are accepted: plain HTTP URLs of the hosts \<open>127.0.0.1\<close> and \<open>localhost\<close> with
  a port that is not the default one, no credentials, query, fragment or path; the address is
  the IPv4 loopback with that port. In particular no IPv6 URL is ever accepted.
\<close>

theorem upstream_loopback:
  assumes "url_ok U"
  shows "parse_upstream U s = Ok a \<longleftrightarrow>
    (\<exists>u p. url_parse U s = Some u \<and> url_scheme U u = ''http'' \<and> url_username U u = [] \<and> url_password U u = None
       \<and> url_query U u = None \<and> url_fragment U u = None \<and> url_path U u = ''/''
       \<and> (url_host_str U u = Some ''127.0.0.1'' \<or> url_host_str U u = Some ''localhost'')
       \<and> url_port U u = Some p \<and> p \<le> 65535 \<and> p \<noteq> 80
       \<and> a = \<lparr>sa_ip = V4 [127, 0, 0, 1], sa_scope = 0, sa_port = p\<rparr>)"
  by (rule parse_upstream_Ok [OF assms])

theorem upstream_loopback_witness:
  "parse_upstream sample_url_lib ''http://localhost:8000'' =
     (Ok \<lparr>sa_ip = V4 [127, 0, 0, 1], sa_scope = 0, sa_port = 8000\<rparr> :: (unit, socket_addr) cresult)
   \<and> parse_upstream sample_url_lib ''http://[::1]:8000'' \<noteq>
     (Ok \<lparr>sa_ip = V6 [0, 0, 0, 0, 0, 0, 0, 1], sa_scope = 0, sa_port = 8000\<rparr> :: (unit, socket_addr) cresult)"
proof
  show "parse_upstream sample_url_lib ''http://localhost:8000'' =
     (Ok \<lparr>sa_ip = V4 [127, 0, 0, 1], sa_scope = 0, sa_port = 8000\<rparr> :: (unit, socket_addr) cresult)"
    by code_simp
  show "parse_upstream sample_url_lib ''http://[::1]:8000'' \<noteq>
     (Ok \<lparr>sa_ip = V6 [0, 0, 0, 0, 0, 0, 0, 1], sa_scope = 0, sa_port = 8000\<rparr> :: (unit, socket_addr) cresult)"
    using upstream_loopback [OF sample_url_lib_ok, of "''http://[::1]:8000''"
        "\<lparr>sa_ip = V6 [0, 0, 0, 0, 0, 0, 0, 1], sa_scope = 0, sa_port = 8000\<rparr>", where 'c = unit]
    by simp
qed

section \<open>Extension lists\<close>

lemma validate_loop_Ok:
  "validate_extensions_loop field seen xs = Ok () \<longleftrightarrow>
     (\<forall>x \<in> set xs. is_safe_extension_name x) \<and> distinct xs \<and> set xs \<inter> set seen = {}"
  by (induction xs arbitrary: seen) auto

lemma validate_loop_Err:
  "validate_extensions_loop field seen xs = (Err e :: ('y, unit) cresult) \<longleftrightarrow>
     (\<exists>a x b. xs = a @ x # b \<and> validate_extensions_loop field seen a = (Ok () :: ('y, unit) cresult)
        \<and> e = (if is_safe_extension_name x then DuplicateExtension field x else InvalidExtension field x)
        \<and> (is_safe_extension_name x \<longrightarrow> x \<in> set seen \<union> set a))"
  (is "_ \<longleftrightarrow> (\<exists>a x b. ?bad seen xs a x b)")
proof (induction xs arbitrary: seen)
  case (Cons y ys)
  show ?case
  proof (cases "is_safe_extension_name y \<and> y \<notin> set seen")
    case False
    have head: "?bad seen (y # ys) [] y ys \<longleftrightarrow> validate_extensions_loop field seen (y # ys) = Err e"
      using False by auto
    have "a = [] \<and> x = y \<and> b = ys" if "?bad seen (y # ys) a x b" for a x b
      using that False by (cases a) (auto split: if_splits)
    then have "(\<exists>a x b. ?bad seen (y # ys) a x b) \<longleftrightarrow> ?bad seen (y # ys) [] y ys" by blast
    then show ?thesis unfolding head by (rule sym)
  next
    case True
    have eq: "?bad seen (y # ys) (y # a) x b \<longleftrightarrow> ?bad (y # seen) ys a x b" for a x b
      using True by auto
    have "(\<exists>a x b. ?bad seen (y # ys) a x b) \<longleftrightarrow> (\<exists>a x b. ?bad (y # seen) ys a x b)"
    proof
      assume "\<exists>a x b. ?bad seen (y # ys) a x b"
      then obtain a x b where bad: "?bad seen (y # ys) a x b" by (elim exE)
      then have "a \<noteq> []" using True by auto
      with bad obtain a' where a: "a = y # a'" by (cases a) auto
      from bad have "?bad seen (y # ys) (y # a') x b" unfolding a .
      then have "?bad (y # seen) ys a' x b" unfolding eq .
      then show "\<exists>a x b. ?bad (y # seen) ys a x b" by (intro exI)
    next
      assume "\<exists>a x b. ?bad (y # seen) ys a x b"
      then obtain a x b where "?bad (y # seen) ys a x b" by (elim exE)
      then have "?bad seen (y # ys) (y # a) x b" unfolding eq .
      then show "\<exists>a x b. ?bad seen (y # ys) a x b" by (intro exI)
    qed
    moreover have "validate_extensions_loop field seen (y # ys) =
        (validate_extensions_loop field (y # seen) ys :: ('y, unit) cresult)"
      using True by simp
    ultimately show ?thesis using Cons.IH [of "y # seen"] by (simp only:)
  qed
qed simp

lemma validate_loop_not_Panic: "validate_extensions_loop field seen xs \<noteq> Panic"
  by (induction xs arbitrary: seen) auto

text \<open>
  A list of explicit extension names is accepted exactly when the names are safe and
  distinct; otherwise the error names the first offending entry, a name that is not safe before
  a duplicate.
\<close>

theorem explicit_extensions_checked:
  fixes r :: "('y, unit) cresult"
  assumes "r = validate_explicit_extensions field xs"
  shows "(r = Ok () \<longleftrightarrow> distinct xs \<and> (\<forall>x \<in> set xs. is_safe_extension_name x))
    \<and> (r = Err e \<longleftrightarrow>
        (\<exists>a x b. xs = a @ x # b \<and> distinct a \<and> (\<forall>y \<in> set a. is_safe_extension_name y)
           \<and> (if is_safe_extension_name x then x \<in> set a \<and> e = DuplicateExtension field x
              else e = InvalidExtension field x)))
    \<and> r \<noteq> Panic"
  unfolding assms validate_explicit_extensions_def validate_loop_Err
  by (auto simp: validate_loop_Ok validate_loop_not_Panic split: if_splits)

theorem explicit_extensions_checked_witness:
  "validate_explicit_extensions ''f'' [''a'', ''b'', ''a'', ''-''] =
     (Err (DuplicateExtension ''f'' ''a'') :: (unit, unit) cresult)
   \<and> (\<exists>a x b. [''a'', ''b'', ''a'', ''-''] = a @ x # b \<and> distinct a \<and> x \<in> set a)"
proof -
  have v: "validate_explicit_extensions ''f'' [''a'', ''b'', ''a'', ''-''] =
     (Err (DuplicateExtension ''f'' ''a'') :: (unit, unit) cresult)"
    by code_simp
  from explicit_extensions_checked [OF v [symmetric], of "DuplicateExtension ''f'' ''a''"]
  have "\<exists>a x b. [''a'', ''b'', ''a'', ''-''] = a @ x # b \<and> distinct a \<and> x \<in> set a"
    by (auto split: if_splits)
  with v show ?thesis ..
qed

section \<open>Rule switches\<close>

lemma rule_of_number [simp]: "rule_try_from (rule_number r) = Ok r"
  by (simp add: rule_try_from_number)

lemma apply_rule_switches_Ok:
  "apply_rule_switches switches enabled = Ok rules \<longleftrightarrow>
     fst ` set switches \<subseteq> range rule_number
     \<and> rules = fold (\<lambda>(n, on) s. if on then insert (ok_val (rule_try_from n)) s else s - {ok_val (rule_try_from n)})
                 switches enabled"
proof (induction switches arbitrary: enabled)
  case (Cons sw switches)
  obtain n on where sw: "sw = (n, on)" by (cases sw)
  show ?case
  proof (cases "rule_try_from n")
    case (Ok rule)
    then have "n \<in> range rule_number" by (auto simp: rule_try_from_number)
    with Cons.IH Ok show ?thesis by (simp add: sw)
  next
    case (Err e)
    then have "n \<notin> range rule_number" by auto
    with Err show ?thesis by (simp add: sw)
  next
    case Panic
    then have "n \<notin> range rule_number" by auto
    with Panic show ?thesis by (simp add: sw)
  qed
qed auto

lemma switches_effect:
  "fst ` set switches \<subseteq> range rule_number \<Longrightarrow> distinct (map fst switches) \<Longrightarrow>
     r \<in> fold (\<lambda>(n, on) s. if on then insert (ok_val (rule_try_from n)) s else s - {ok_val (rule_try_from n)})
            switches enabled \<longleftrightarrow>
     (rule_number r, True) \<in> set switches \<or> (r \<in> enabled \<and> (rule_number r, False) \<notin> set switches)"
proof (induction switches arbitrary: enabled)
  case (Cons sw switches)
  obtain n on where sw: "sw = (n, on)" by (cases sw)
  with Cons.prems obtain q where q: "n = rule_number q" by auto
  have fresh: "(rule_number q, b) \<notin> set switches" for b
    using Cons.prems(2) sw q by force
  show ?case
    using Cons.IH Cons.prems fresh by (cases "r = q"; cases on) (auto simp: sw q rule_number_inject)
qed simp

lemma apply_rule_switches_all:
  assumes "distinct (map fst switches)" "apply_rule_switches switches (set ALL_RULES) = Ok rules"
  shows "fst ` set switches \<subseteq> range rule_number \<and> rules = {r. (rule_number r, False) \<notin> set switches}"
proof -
  from assms(2) have range: "fst ` set switches \<subseteq> range rule_number" and
    rules: "rules = fold (\<lambda>(n, on) s. if on then insert (ok_val (rule_try_from n)) s else s - {ok_val (rule_try_from n)})
                 switches (set ALL_RULES)"
    by (auto simp: apply_rule_switches_Ok)
  have "r \<in> rules \<longleftrightarrow> (rule_number r, False) \<notin> set switches" for r
    using switches_effect [OF range assms(1), of r "set ALL_RULES"] assms(1)
    by (auto simp: rules dest: eq_key_imp_eq_value)
  with range show ?thesis by blast
qed

section \<open>The effective configuration\<close>

definition extension_list_ok :: "bytes list \<Rightarrow> bool" where
  "extension_list_ok xs \<longleftrightarrow> distinct xs \<and> (\<forall>x \<in> set xs. is_safe_extension_name x)"

definition config_wf :: "effective_config \<Rightarrow> bool" where
  [wf_simps]: "config_wf c \<longleftrightarrow>
     safe_base_path (ec_base_path c)
     \<and> \<not> socket_addrs_overlap (ec_listen c) (ec_admin_listen c)
     \<and> \<not> socket_addrs_overlap (ec_listen c) (ec_upstream c)
     \<and> \<not> socket_addrs_overlap (ec_admin_listen c) (ec_upstream c)
     \<and> sa_ip (ec_upstream c) = V4 [127, 0, 0, 1]
     \<and> addr_wf (ec_listen c) \<and> addr_wf (ec_admin_listen c) \<and> addr_wf (ec_upstream c)
     \<and> 0 < ec_max_decoded_bytes c \<and> 0 < ec_max_concurrent c
     \<and> (ec_enabled_extensions c = [''*''] \<or> extension_list_ok (ec_enabled_extensions c))
     \<and> extension_list_ok (ec_disabled_extensions c)"

lemma validate_enabled_Ok:
  "validate_enabled_extensions xs = Ok () \<longleftrightarrow> xs = [''*''] \<or> extension_list_ok xs"
proof (cases "''*'' \<in> set xs")
  case True
  moreover have "\<not> is_safe_extension_name ''*''" by code_simp
  moreover have "length xs = 1 \<longleftrightarrow> xs = [''*'']" using True by (cases xs) auto
  ultimately show ?thesis
    by (auto simp: validate_enabled_extensions_def extension_list_ok_def ALL_EXTENSIONS_WILDCARD_def list_ex_iff)
next
  case False
  then show ?thesis
    by (auto simp: validate_enabled_extensions_def extension_list_ok_def ALL_EXTENSIONS_WILDCARD_def list_ex_iff
        validate_explicit_extensions_def validate_loop_Ok)
qed

lemma validate_explicit_Ok: "validate_explicit_extensions field xs = Ok () \<longleftrightarrow> extension_list_ok xs"
  by (auto simp: validate_explicit_extensions_def validate_loop_Ok extension_list_ok_def)

lemma guard_err_Ok [simp]: "guard_err failed e = Ok () \<longleftrightarrow> \<not> failed"
  by (simp add: guard_err_def)

lemma parse_listen_Ok: "parse_listen err s = Ok a \<longleftrightarrow> parse_socket_addr s = Some a"
  by (simp add: parse_listen_def split: option.split)

lemma from_yaml_Ok:
  fixes Y :: "'y yaml_lib"
  shows "from_yaml Y U pct input = Ok c \<longleftrightarrow>
     (\<exists>raw. yaml_from_str Y input = Ok raw
        \<and> normalize_base_path U pct (rc_base_path (raw_client raw)) = (Ok (ec_base_path c) :: ('y, bytes) cresult)
        \<and> parse_socket_addr (rs_listen (raw_sidecar raw)) = Some (ec_listen c)
        \<and> parse_socket_addr (rs_admin_listen (raw_sidecar raw)) = Some (ec_admin_listen c)
        \<and> parse_upstream U (rs_upstream (raw_sidecar raw)) = (Ok (ec_upstream c) :: ('y, socket_addr) cresult)
        \<and> \<not> socket_addrs_overlap (ec_listen c) (ec_admin_listen c)
        \<and> \<not> socket_addrs_overlap (ec_listen c) (ec_upstream c)
        \<and> \<not> socket_addrs_overlap (ec_admin_listen c) (ec_upstream c)
        \<and> (let rewrite = rs_rewrite (raw_sidecar raw)
           in ec_enabled_extensions c = rw_enabled_extensions rewrite
            \<and> ec_disabled_extensions c = rw_disabled_extensions rewrite
            \<and> (rw_enabled_extensions rewrite = [''*''] \<or> extension_list_ok (rw_enabled_extensions rewrite))
            \<and> extension_list_ok (rw_disabled_extensions rewrite)
            \<and> 0 < rw_max_decoded_bytes rewrite \<and> 0 < rw_max_concurrent rewrite
            \<and> ec_max_decoded_bytes c = rw_max_decoded_bytes rewrite
            \<and> ec_max_concurrent c = rw_max_concurrent rewrite \<and> ec_max_queued c = rw_max_queued rewrite
            \<and> apply_rule_switches (rw_rules rewrite) (set ALL_RULES) =
                (Ok (ec_enabled_rules c) :: ('y, rewrite_rule set) cresult)))"
proof -
  have map_ok: "map_outcome_err InvalidYaml r = Ok a \<longleftrightarrow> r = Ok a" for r :: "('y, raw_config) outcome" and a
    by (cases r) auto
  have unit: "(\<exists>u :: unit. P u) \<longleftrightarrow> P ()" for P by (metis (full_types) old.unit.exhaust)
  have ext: "x = c \<longleftrightarrow> ec_base_path x = ec_base_path c \<and> ec_listen x = ec_listen c
      \<and> ec_admin_listen x = ec_admin_listen c \<and> ec_upstream x = ec_upstream c
      \<and> ec_enabled_extensions x = ec_enabled_extensions c \<and> ec_disabled_extensions x = ec_disabled_extensions c
      \<and> ec_enabled_rules x = ec_enabled_rules c \<and> ec_max_decoded_bytes x = ec_max_decoded_bytes c
      \<and> ec_max_concurrent x = ec_max_concurrent c \<and> ec_max_queued x = ec_max_queued c" for x
    by (cases x; cases c) simp
  show ?thesis
    unfolding from_yaml_def bind_outcome_Ok_iff map_ok Let_def parse_listen_Ok unit guard_err_Ok
      validate_enabled_Ok validate_explicit_Ok outcome.inject ext
    by (simp del: ex_simps) auto
qed

text \<open>No step panics.\<close>

lemma decode_repeatedly_not_Panic [simp]: "decode_repeatedly pct s \<noteq> (Panic :: ('y, bytes) cresult)"
  using decode_loop_cases [of pct MAX_BASE_PATH_LENGTH s, where 'y = 'y] by (auto simp: decode_repeatedly_def)

lemma validate_percent_encoding_not_Panic [simp]: "validate_percent_encoding s \<noteq> Panic"
  by (simp add: validate_percent_encoding_eq)

lemma normalize_base_path_not_Panic: "url_ok U \<Longrightarrow> normalize_base_path U pct s \<noteq> Panic"
  by (auto simp: normalize_base_path_def url_ok_def bind_outcome_Panic_iff split: if_splits option.splits)

lemma parse_upstream_not_Panic [simp]: "parse_upstream U s \<noteq> Panic"
  by (simp add: parse_upstream_def split: option.split)

lemma rule_try_from_not_Panic [simp]: "rule_try_from n \<noteq> Panic"
  by (simp add: rule_try_from_def split: option.split)

lemma apply_rule_switches_not_Panic [simp]: "apply_rule_switches switches enabled \<noteq> Panic"
  by (induction switches arbitrary: enabled) (auto simp: bind_outcome_Panic_iff)

lemma yaml_from_str_not_Panic [simp]: "yaml_from_str Y s \<noteq> Panic"
  by (auto simp: yaml_from_str_def deserialize_sidecar_def required_def bind_outcome_Panic_iff
      split: sum.splits option.splits)

lemma small_steps_not_Panic [simp]:
  "parse_listen err s \<noteq> Panic" "guard_err failed e \<noteq> Panic" "validate_enabled_extensions xs \<noteq> Panic"
  "validate_explicit_extensions field xs \<noteq> Panic"
  by (simp_all add: parse_listen_def guard_err_def validate_enabled_extensions_def
      validate_explicit_extensions_def validate_loop_not_Panic split: option.split)

lemma from_yaml_not_Panic: "url_ok U \<Longrightarrow> from_yaml Y U pct input \<noteq> Panic"
  by (simp add: from_yaml_def bind_outcome_Panic_iff Let_def normalize_base_path_not_Panic)

lemma from_yaml_wf:
  assumes "yaml_ok Y" "url_ok U" "pct_ok pct"
  shows "from_yaml Y U pct input \<noteq> Panic \<and> (\<forall>c. from_yaml Y U pct input = Ok c \<longrightarrow> config_wf c)"
proof (intro conjI allI impI)
  show "from_yaml Y U pct input \<noteq> Panic" by (rule from_yaml_not_Panic [OF assms(2)])
  fix c assume c: "from_yaml Y U pct input = Ok c"
  then obtain raw where raw: "yaml_from_str Y input = Ok raw" by (auto simp: from_yaml_Ok)
  note facts = c [unfolded from_yaml_Ok raw, simplified]
  have "safe_base_path (ec_base_path c)"
    using normalize_base_path_ok [OF assms(3)] yaml_from_str_ok [OF assms(1) raw] facts by blast
  moreover have "sa_ip (ec_upstream c) = V4 [127, 0, 0, 1] \<and> addr_wf (ec_upstream c)"
    using facts upstream_addr [OF assms(2)] by blast
  moreover have "addr_wf (ec_listen c) \<and> addr_wf (ec_admin_listen c)"
    using facts parse_wf by blast
  ultimately show "config_wf c"
    using facts by (auto simp: config_wf_def Let_def)
qed

text \<open>
  C9. Reading a configuration never panics, and a configuration that is accepted is well formed:
  a safe base path, three pairwise disjoint addresses, an upstream on the loopback interface,
  positive limits for size and concurrency, safe and distinct extension names (or the wildcard
  alone).
\<close>

theorem config_accepted:
  assumes "yaml_ok Y" "url_ok U" "pct_ok pct"
  shows "from_yaml Y U pct input \<noteq> Panic \<and> (\<forall>c. from_yaml Y U pct input = Ok c \<longrightarrow> config_wf c)"
  by (rule from_yaml_wf [OF assms])

text \<open>
  C24. The policy of an accepted configuration is the configured one: its base path is the
  configured one, and for the root every request is passed through; a rule is enabled unless a
  switch turns it off, whatever the order of the switches, and every switch names a rule; an
  extension is enabled when its name is safe, it is not disabled and it is listed or the
  wildcard is.
\<close>

theorem effective_policy:
  assumes "yaml_ok Y" "url_ok U" "pct_ok pct"
    and "from_yaml Y U pct input = Ok c" "yaml_from_str Y input = Ok raw"
    and "P = effective_rewrite_policy c" "rewrite = rs_rewrite (raw_sidecar raw)"
  shows "rp_base_path P = ec_base_path c
    \<and> (rc_base_path (raw_client raw) \<in> {[], ''/''} \<longrightarrow> decide P m path = Bypass)
    \<and> fst ` set (rw_rules rewrite) \<subseteq> {1..6}
    \<and> (is_rule_enabled P rule \<longleftrightarrow> (rule_number rule, False) \<notin> set (rw_rules rewrite))
    \<and> (is_extension_enabled P ext \<longleftrightarrow> is_safe_extension_name ext \<and> ext \<notin> set (rw_disabled_extensions rewrite)
        \<and> (rw_enabled_extensions rewrite = [''*''] \<or> ext \<in> set (rw_enabled_extensions rewrite)))"
proof -
  note facts = assms(4) [unfolded from_yaml_Ok assms(5), simplified]
  have yaml: "utf8_valid (rc_base_path (raw_client raw))" "distinct (map fst (rw_rules rewrite))"
    using yaml_from_str_ok [OF assms(1,5)] assms(7) by auto
  have base: "safe_base_path (ec_base_path c)"
    "ec_base_path c = [] \<longleftrightarrow> rc_base_path (raw_client raw) \<in> {[], ''/''}"
    using normalize_base_path_ok [OF assms(3) yaml(1)] facts by blast+
  then have trim: "trim_end_matches CHR ''/'' (ec_base_path c) = ec_base_path c"
    by (cases "ec_base_path c" rule: rev_cases)
      (auto simp: safe_base_path_def trim_end_matches_def suffix_def)
  then have P: "rp_base_path P = ec_base_path c"
    by (simp add: assms(6) effective_rewrite_policy_def policy_new_with_rules_def policy_from_matcher_def Let_def)
  have switches: "apply_rule_switches (rw_rules rewrite) (set ALL_RULES) =
      (Ok (ec_enabled_rules c) :: ('a, rewrite_rule set) cresult)"
    using facts by (simp add: assms(7) Let_def)
  from apply_rule_switches_all [OF yaml(2) switches]
  have "fst ` set (rw_rules rewrite) \<subseteq> range rule_number" and
    rules: "ec_enabled_rules c = {r. (rule_number r, False) \<notin> set (rw_rules rewrite)}" by blast+
  moreover have "range rule_number \<subseteq> {1..6}"
  proof
    fix n assume "n \<in> range rule_number"
    then obtain r where "n = rule_number r" by blast
    then show "n \<in> {1..6}" by (cases r) auto
  qed
  ultimately have range: "fst ` set (rw_rules rewrite) \<subseteq> {1..6}" by blast
  have rule: "is_rule_enabled P rule \<longleftrightarrow> (rule_number rule, False) \<notin> set (rw_rules rewrite)"
    by (simp add: assms(6) effective_rewrite_policy_def policy_new_with_rules_def policy_from_matcher_def
        Let_def is_rule_enabled_def rules)
  have lists: "ec_enabled_extensions c = rw_enabled_extensions rewrite"
    "ec_disabled_extensions c = rw_disabled_extensions rewrite"
    "rw_enabled_extensions rewrite = [''*''] \<or> extension_list_ok (rw_enabled_extensions rewrite)"
    using facts by (simp_all add: assms(7) Let_def)
  have wild: "set (rw_enabled_extensions rewrite) = {''*''} \<longleftrightarrow> rw_enabled_extensions rewrite = [''*'']"
  proof
    assume single: "set (rw_enabled_extensions rewrite) = {''*''}"
    have "\<not> is_safe_extension_name ''*''" by code_simp
    with single lists(3) show "rw_enabled_extensions rewrite = [''*'']" by (auto simp: extension_list_ok_def)
  qed simp
  have "is_extension_enabled P ext \<longleftrightarrow> is_safe_extension_name ext \<and> ext \<notin> set (rw_disabled_extensions rewrite)
        \<and> (rw_enabled_extensions rewrite = [''*''] \<or> ext \<in> set (rw_enabled_extensions rewrite))"
    by (simp add: assms(6) effective_rewrite_policy_def new_with_rules_extension lists(1,2) wild)
  with P base(2) range rule show ?thesis by (simp add: decide_def)
qed

text \<open>A configuration text: two names of listeners, a base path and two switches.\<close>

definition sample_doc :: yaml_doc where
  "sample_doc =
     \<lparr>yd_base_path = Some (Some ''/regions/x/''),
      yd_sidecar = Some \<lparr>ys_listen = Some ''0.0.0.0:8080'', ys_admin_listen = None,
        ys_upstream = Some ''http://127.0.0.1:8000'',
        ys_rewrite = Some \<lparr>yr_enabled_extensions = Some [''*''], yr_disabled_extensions = Some [''demo''],
          yr_rules = Some [(2, False), (5, True)], yr_max_decoded_bytes = None,
          yr_max_concurrent = Some 2, yr_max_queued = Some 1\<rparr>\<rparr>\<rparr>"

definition sample_yaml :: "unit yaml_lib" where
  "sample_yaml =
     \<lparr>yaml_read = (\<lambda>s. if s = ''sample'' then Inr sample_doc else Inl ()), yaml_missing_field = (\<lambda>_. ())\<rparr>"

lemma sample_yaml_ok: "yaml_ok sample_yaml"
proof -
  have "utf8_valid ''/regions/x/''" by code_simp
  then show ?thesis by (simp add: yaml_ok_def sample_yaml_def sample_doc_def)
qed

lemma sample_config:
  obtains c where "from_yaml sample_yaml sample_url_lib std_pct ''sample'' = Ok c"
    "ec_base_path c = ''/regions/x''" "ec_max_concurrent c = 2" "ec_max_queued c = 1"
proof -
  have "case from_yaml sample_yaml sample_url_lib std_pct ''sample'' of
      Ok c \<Rightarrow> ec_base_path c = ''/regions/x'' \<and> ec_max_concurrent c = 2 \<and> ec_max_queued c = 1
    | _ \<Rightarrow> False"
    by code_simp
  with that show ?thesis by (auto split: outcome.splits)
qed

theorem config_accepted_witness:
  "\<exists>c. from_yaml sample_yaml sample_url_lib std_pct ''sample'' = Ok c \<and> config_wf c
     \<and> ec_base_path c = ''/regions/x''"
proof -
  obtain c where c: "from_yaml sample_yaml sample_url_lib std_pct ''sample'' = Ok c" "ec_base_path c = ''/regions/x''"
    by (rule sample_config)
  with config_accepted [OF sample_yaml_ok sample_url_lib_ok std_pct_ok, of "''sample''"] show ?thesis by blast
qed

theorem effective_policy_witness:
  "\<exists>c. from_yaml sample_yaml sample_url_lib std_pct ''sample'' = Ok c
     \<and> \<not> is_rule_enabled (effective_rewrite_policy c) Rule_JsBundle
     \<and> is_rule_enabled (effective_rewrite_policy c) Rule_Ys1000Html
     \<and> rp_base_path (effective_rewrite_policy c) = ''/regions/x''"
proof -
  obtain c where c: "from_yaml sample_yaml sample_url_lib std_pct ''sample'' = Ok c" "ec_base_path c = ''/regions/x''"
    by (rule sample_config)
  then obtain raw where raw: "yaml_from_str sample_yaml ''sample'' = Ok raw" by (auto simp: from_yaml_Ok)
  then have rules: "rw_rules (rs_rewrite (raw_sidecar raw)) = [(2, False), (5, True)]"
    by (auto simp: yaml_from_str_def sample_yaml_def sample_doc_def required_def deserialize_sidecar_def
        deserialize_rewrite_def or_default_def)
  note policy = effective_policy [OF sample_yaml_ok sample_url_lib_ok std_pct_ok c(1) raw refl refl]
  show ?thesis
    using policy [of _ _ Rule_JsBundle] policy [of _ _ Rule_Ys1000Html] c rules by auto
qed

end
