(* ===== verification/Admission.thy ===== *)
theory Admission
  imports Prelude
begin

text \<open>
  The admission of rewrites, \<open>KseRewriteProxy::admit_rewrite\<close> and \<open>stop_rewrite\<close> of
  \<open>src/proxy.rs\<close>, as seen by concurrent requests: two semaphores and two gauges are shared, and
  every call on one of them is one atomic step, so that the steps of different requests
  interleave in any order. The semaphore of \<open>tokio\<close> is a parameter with the laws of the locale
  \<open>fair_semaphore\<close>.
\<close>

section \<open>Semaphores\<close>

text \<open>
  \<open>try_acquire\<close> takes a permit or fails; \<open>acquire\<close> takes one or puts the caller at the end of the
  queue (the flag says that it was granted); \<open>release\<close>, the drop of a permit, hands it to the
  first waiter, whom it returns, or makes it available. The program never closes a semaphore,
  so \<open>acquire\<close> has no other outcome.
\<close>

record ('s, 'i) semaphore_lib =
  sem_new :: "nat \<Rightarrow> 's"
  sem_permits :: "'s \<Rightarrow> nat"
  sem_waiting :: "'s \<Rightarrow> 'i list"
  sem_try_acquire :: "'s \<Rightarrow> 's option"
  sem_acquire :: "'i \<Rightarrow> 's \<Rightarrow> 's \<times> bool"
  sem_release :: "'s \<Rightarrow> 's \<times> 'i option"

locale fair_semaphore =
  fixes new_sem :: "nat \<Rightarrow> 's"
    and permits :: "'s \<Rightarrow> nat"
    and waiting :: "'s \<Rightarrow> 'i list"
    and try_acq :: "'s \<Rightarrow> 's option"
    and acq :: "'i \<Rightarrow> 's \<Rightarrow> 's \<times> bool"
    and release :: "'s \<Rightarrow> 's \<times> 'i option"
  assumes new_permits: "permits (new_sem n) = n" "waiting (new_sem n) = []"
    and try_fails: "try_acq s = None \<longleftrightarrow> permits s = 0"
    and try_takes: "try_acq s = Some s' \<Longrightarrow> permits s = Suc (permits s') \<and> waiting s' = waiting s"
    and acq_granted: "acq i s = (s', True) \<Longrightarrow> permits s = Suc (permits s') \<and> waiting s' = waiting s"
    and acq_queued: "acq i s = (s', False) \<Longrightarrow> permits s = 0 \<and> permits s' = 0 \<and> waiting s' = waiting s @ [i]"
    and release_free: "waiting s = [] \<Longrightarrow> \<exists>s'. release s = (s', None) \<and> permits s' = Suc (permits s) \<and> waiting s' = []"
    and release_hand: "waiting s = i # is \<Longrightarrow> \<exists>s'. release s = (s', Some i) \<and> permits s' = permits s \<and> waiting s' = is"
begin

lemma release_cases:
  assumes "release s = (s', r)"
  shows "(waiting s = [] \<and> r = None \<and> permits s' = Suc (permits s) \<and> waiting s' = [])
    \<or> (\<exists>i. waiting s = i # waiting s' \<and> r = Some i \<and> permits s' = permits s)"
  using assms release_free [of s] release_hand [of s] by (cases "waiting s") auto

lemma acq_cases:
  assumes "acq i s = (s', b)"
  shows "(b \<and> permits s = Suc (permits s') \<and> waiting s' = waiting s)
    \<or> (\<not> b \<and> permits s = 0 \<and> permits s' = 0 \<and> waiting s' = waiting s @ [i])"
  using assms acq_granted [of i s s'] acq_queued [of i s s'] by (cases b) auto

end

definition semaphore_ok :: "('s, 'i) semaphore_lib \<Rightarrow> bool" where
  [wf_simps]: "semaphore_ok L \<longleftrightarrow>
     fair_semaphore (sem_new L) (sem_permits L) (sem_waiting L) (sem_try_acquire L) (sem_acquire L) (sem_release L)"

text \<open>An instance: the number of permits and the queue.\<close>

definition fifo_try_acquire :: "nat \<times> 'i list \<Rightarrow> (nat \<times> 'i list) option" where
  "fifo_try_acquire s = (case s of (0, w) \<Rightarrow> None | (Suc n, w) \<Rightarrow> Some (n, w))"

definition fifo_acquire :: "'i \<Rightarrow> nat \<times> 'i list \<Rightarrow> (nat \<times> 'i list) \<times> bool" where
  "fifo_acquire i s = (case s of (0, w) \<Rightarrow> ((0, w @ [i]), False) | (Suc n, w) \<Rightarrow> ((n, w), True))"

definition fifo_release :: "nat \<times> 'i list \<Rightarrow> (nat \<times> 'i list) \<times> 'i option" where
  "fifo_release s = (case s of (n, []) \<Rightarrow> ((Suc n, []), None) | (n, i # w) \<Rightarrow> ((n, w), Some i))"

interpretation fifo: fair_semaphore "\<lambda>n. (n, [])" fst snd fifo_try_acquire fifo_acquire fifo_release
  by unfold_locales
    (auto simp: fifo_try_acquire_def fifo_acquire_def fifo_release_def split: prod.splits nat.splits list.splits)

definition fifo_lib :: "(nat \<times> 'i list, 'i) semaphore_lib" where
  "fifo_lib =
     \<lparr>sem_new = (\<lambda>n. (n, [])), sem_permits = fst, sem_waiting = snd, sem_try_acquire = fifo_try_acquire,
      sem_acquire = fifo_acquire, sem_release = fifo_release\<rparr>"

lemma fifo_lib_ok: "semaphore_ok fifo_lib"
  using fifo.fair_semaphore_axioms by (simp add: semaphore_ok_def fifo_lib_def)

section \<open>The requests\<close>

text \<open>
  Where a request stands in \<open>admit_rewrite\<close>, and afterwards in \<open>stop_rewrite\<close> or \<open>logging\<close>, which
  give the permit back the same way: the permit that \<open>take\<close> returns is dropped with the
  condition, before the gauge is decremented.
\<close>

datatype phase =
    Arriving        \<comment> \<open>before \<open>active.try_acquire_owned()\<close>\<close>
  | Permitted       \<comment> \<open>has the active permit, gauge not yet raised\<close>
  | Busy            \<comment> \<open>no active permit, before \<open>queued.try_acquire_owned()\<close>\<close>
  | Rejected        \<comment> \<open>the queue is full: the 503 response\<close>
  | Queue_Permitted \<comment> \<open>has the queue permit, gauge not yet raised\<close>
  | Queue_Counted   \<comment> \<open>before \<open>active.acquire_owned()\<close>\<close>
  | Waiting         \<comment> \<open>in the queue of the semaphore\<close>
  | Granted         \<comment> \<open>has both permits\<close>
  | Dequeued        \<comment> \<open>the queue permit is dropped, gauge not yet lowered\<close>
  | Uncounted       \<comment> \<open>before \<open>active.inc()\<close>\<close>
  | Rewriting       \<comment> \<open>\<open>ctx.active_permit\<close> is set\<close>
  | Released        \<comment> \<open>the permit is dropped, gauge not yet lowered\<close>
  | Finished

record ('s, 'i) admission =
  adm_active :: 's
  adm_queued :: 's
  gauge_active :: int
  gauge_queued :: int
  adm_phase :: "'i \<Rightarrow> phase"

definition admission_new :: "('s, 'i) semaphore_lib \<Rightarrow> nat \<Rightarrow> nat \<Rightarrow> ('s, 'i) admission" where
  "admission_new L max_concurrent max_queued =
     \<lparr>adm_active = sem_new L max_concurrent, adm_queued = sem_new L max_queued,
      gauge_active = 0, gauge_queued = 0, adm_phase = (\<lambda>_. Arriving)\<rparr>"

definition set_phase :: "'i \<Rightarrow> phase \<Rightarrow> ('s, 'i) admission \<Rightarrow> ('s, 'i) admission" where
  "set_phase i p a = a\<lparr>adm_phase := (adm_phase a)(i := p)\<rparr>"

text \<open>The request that a released permit is handed to leaves the queue.\<close>

definition wake :: "'i option \<Rightarrow> ('s, 'i) admission \<Rightarrow> ('s, 'i) admission" where
  "wake w a = (case w of None \<Rightarrow> a | Some j \<Rightarrow> set_phase j Granted a)"

text \<open>The next atomic action of request \<open>i\<close>; \<open>None\<close> while it waits and when it has ended.\<close>

definition admission_step :: "('s, 'i) semaphore_lib \<Rightarrow> 'i \<Rightarrow> ('s, 'i) admission \<Rightarrow> ('s, 'i) admission option" where
  "admission_step L i a =
     (case adm_phase a i of
        Arriving \<Rightarrow>
          (case sem_try_acquire L (adm_active a) of
             Some s \<Rightarrow> Some (set_phase i Permitted (a\<lparr>adm_active := s\<rparr>))
           | None \<Rightarrow> Some (set_phase i Busy a))
      | Permitted \<Rightarrow> Some (set_phase i Rewriting (a\<lparr>gauge_active := gauge_active a + 1\<rparr>))
      | Busy \<Rightarrow>
          (case sem_try_acquire L (adm_queued a) of
             Some s \<Rightarrow> Some (set_phase i Queue_Permitted (a\<lparr>adm_queued := s\<rparr>))
           | None \<Rightarrow> Some (set_phase i Rejected a))
      | Queue_Permitted \<Rightarrow> Some (set_phase i Queue_Counted (a\<lparr>gauge_queued := gauge_queued a + 1\<rparr>))
      | Queue_Counted \<Rightarrow>
          (case sem_acquire L i (adm_active a) of
             (s, granted) \<Rightarrow> Some (set_phase i (if granted then Granted else Waiting) (a\<lparr>adm_active := s\<rparr>)))
      | Granted \<Rightarrow>
          (case sem_release L (adm_queued a) of
             (s, w) \<Rightarrow> Some (wake w (set_phase i Dequeued (a\<lparr>adm_queued := s\<rparr>))))
      | Dequeued \<Rightarrow> Some (set_phase i Uncounted (a\<lparr>gauge_queued := gauge_queued a - 1\<rparr>))
      | Uncounted \<Rightarrow> Some (set_phase i Rewriting (a\<lparr>gauge_active := gauge_active a + 1\<rparr>))
      | Rewriting \<Rightarrow>
          (case sem_release L (adm_active a) of
             (s, w) \<Rightarrow> Some (wake w (set_phase i Released (a\<lparr>adm_active := s\<rparr>))))
      | Released \<Rightarrow> Some (set_phase i Finished (a\<lparr>gauge_active := gauge_active a - 1\<rparr>))
      | _ \<Rightarrow> None)"

text \<open>The steps of all requests, interleaved.\<close>

inductive admission_steps :: "('s, 'i) semaphore_lib \<Rightarrow> ('s, 'i) admission \<Rightarrow> 'i list \<Rightarrow> ('s, 'i) admission \<Rightarrow> bool"
  for L where
  no_step: "admission_steps L a [] a"
| more_steps: "admission_step L i a = Some b \<Longrightarrow> admission_steps L b is c \<Longrightarrow> admission_steps L a (i # is) c"

inductive_cases admission_steps_NilE: "admission_steps L a [] c"
inductive_cases admission_steps_ConsE: "admission_steps L a (i # is) c"

inductive_simps admission_steps_Nil [simp]: "admission_steps L a [] c"
inductive_simps admission_steps_Cons [simp]: "admission_steps L a (i # is) c"

end
