(* ===== verification/Admission_Correct.thy ===== *)
theory Admission_Correct
  imports Admission
begin

text \<open>
  The admission control under every interleaving: the limits hold, the gauges count what they
  say, nothing is lost, waiters are served in their order, and every run comes to an end.
\<close>

section \<open>Counting requests\<close>

definition number :: "(phase \<Rightarrow> bool) \<Rightarrow> ('s, 'i) admission \<Rightarrow> nat" where
  "number P a = card {i. P (adm_phase a i)}"

definition holds_active :: "phase \<Rightarrow> bool" where
  "holds_active p \<longleftrightarrow> p \<in> {Permitted, Granted, Dequeued, Uncounted, Rewriting}"

definition holds_queue :: "phase \<Rightarrow> bool" where
  "holds_queue p \<longleftrightarrow> p \<in> {Queue_Permitted, Queue_Counted, Waiting, Granted}"

definition counted_active :: "phase \<Rightarrow> bool" where
  "counted_active p \<longleftrightarrow> p \<in> {Rewriting, Released}"

definition counted_queued :: "phase \<Rightarrow> bool" where
  "counted_queued p \<longleftrightarrow> p \<in> {Queue_Counted, Waiting, Granted, Dequeued}"

lemmas phase_classes = holds_active_def holds_queue_def counted_active_def counted_queued_def

definition finitely_many :: "('s, 'i) admission \<Rightarrow> bool" where
  "finitely_many a \<longleftrightarrow> finite {i. adm_phase a i \<noteq> Arriving}"

lemma set_phase_sel [simp]:
  "adm_active (set_phase i p a) = adm_active a" "adm_queued (set_phase i p a) = adm_queued a"
  "gauge_active (set_phase i p a) = gauge_active a" "gauge_queued (set_phase i p a) = gauge_queued a"
  "adm_phase (set_phase i p a) = (adm_phase a)(i := p)"
  by (simp_all add: set_phase_def)

lemma wake_sel [simp]:
  "adm_active (wake w a) = adm_active a" "adm_queued (wake w a) = adm_queued a"
  "gauge_active (wake w a) = gauge_active a" "gauge_queued (wake w a) = gauge_queued a"
  by (simp_all add: wake_def split: option.split)

lemma number_cong: "adm_phase a = adm_phase b \<Longrightarrow> number P a = number P b"
  by (simp add: number_def)

lemma number_fun [simp]:
  "number P (a\<lparr>adm_active := s\<rparr>) = number P a" "number P (a\<lparr>adm_queued := s\<rparr>) = number P a"
  "number P (a\<lparr>gauge_active := g\<rparr>) = number P a" "number P (a\<lparr>gauge_queued := g\<rparr>) = number P a"
  by (simp_all add: number_def)

lemma finitely_fun [simp]:
  "finitely_many (a\<lparr>adm_active := s\<rparr>) = finitely_many a" "finitely_many (a\<lparr>adm_queued := s\<rparr>) = finitely_many a"
  "finitely_many (a\<lparr>gauge_active := g\<rparr>) = finitely_many a" "finitely_many (a\<lparr>gauge_queued := g\<rparr>) = finitely_many a"
  by (simp_all add: finitely_many_def)

lemma finitely_set_phase [simp]: "finitely_many a \<Longrightarrow> finitely_many (set_phase i p a)"
  unfolding finitely_many_def
  by (rule finite_subset [of _ "insert i {i. adm_phase a i \<noteq> Arriving}"]) auto

lemma finite_class: "finitely_many a \<Longrightarrow> \<not> P Arriving \<Longrightarrow> finite {i. P (adm_phase a i)}"
  unfolding finitely_many_def by (rule finite_subset [of _ "{i. adm_phase a i \<noteq> Arriving}"]) auto

lemma number_set_phase:
  assumes "finitely_many a" "\<not> P Arriving"
  shows "number P (set_phase i p a) =
    (if P (adm_phase a i) = P p then number P a
     else if P p then Suc (number P a) else number P a - 1)"
proof -
  let ?S = "{k. P (adm_phase a k)}"
  have fin: "finite ?S" by (rule finite_class [of a P, OF assms])
  have "{k. P (adm_phase (set_phase i p a) k)} = (if P p then insert i ?S else ?S - {i})" by auto
  with fin show ?thesis
    by (auto simp: number_def insert_absorb card_Diff_singleton)
qed

lemma number_pos: "finitely_many a \<Longrightarrow> \<not> P Arriving \<Longrightarrow> P (adm_phase a i) \<Longrightarrow> 0 < number P a"
  unfolding number_def using finite_class [of a P] by (auto simp: card_gt_0_iff)

lemma classes_Arriving [simp]:
  "\<not> holds_active Arriving" "\<not> holds_queue Arriving" "\<not> counted_active Arriving" "\<not> counted_queued Arriving"
  by (simp_all add: phase_classes)

section \<open>The invariant\<close>

definition admission_inv :: "('s, 'i) semaphore_lib \<Rightarrow> nat \<Rightarrow> nat \<Rightarrow> ('s, 'i) admission \<Rightarrow> bool" where
  [wf_simps]: "admission_inv L mc mq a \<longleftrightarrow>
     finitely_many a
     \<and> sem_permits L (adm_active a) + number holds_active a = mc
     \<and> sem_permits L (adm_queued a) + number holds_queue a = mq
     \<and> gauge_active a = int (number counted_active a)
     \<and> gauge_queued a = int (number counted_queued a)
     \<and> sem_waiting L (adm_queued a) = []
     \<and> distinct (sem_waiting L (adm_active a))
     \<and> set (sem_waiting L (adm_active a)) = {i. adm_phase a i = Waiting}
     \<and> (sem_waiting L (adm_active a) \<noteq> [] \<longrightarrow> sem_permits L (adm_active a) = 0)"

lemma admission_inv_new:
  assumes "semaphore_ok L"
  shows "admission_inv L mc mq (admission_new L mc mq)"
proof -
  have new: "sem_permits L (sem_new L n) = n" "sem_waiting L (sem_new L n) = []" for n
    using assms fair_semaphore.new_permits unfolding semaphore_ok_def by blast+
  then show ?thesis
    by (simp add: admission_inv_def admission_new_def finitely_many_def number_def phase_classes)
qed

lemma sem_try_Some:
  "semaphore_ok L \<Longrightarrow> sem_try_acquire L s = Some s' \<Longrightarrow>
     sem_permits L s = Suc (sem_permits L s') \<and> sem_waiting L s' = sem_waiting L s"
  unfolding semaphore_ok_def by (rule fair_semaphore.try_takes)

lemma sem_try_None: "semaphore_ok L \<Longrightarrow> sem_try_acquire L s = None \<longleftrightarrow> sem_permits L s = 0"
  unfolding semaphore_ok_def by (rule fair_semaphore.try_fails)

lemma sem_acquire_cases:
  "semaphore_ok L \<Longrightarrow> sem_acquire L i s = (s', b) \<Longrightarrow>
     (b \<and> sem_permits L s = Suc (sem_permits L s') \<and> sem_waiting L s' = sem_waiting L s)
     \<or> (\<not> b \<and> sem_permits L s = 0 \<and> sem_permits L s' = 0 \<and> sem_waiting L s' = sem_waiting L s @ [i])"
  unfolding semaphore_ok_def by (rule fair_semaphore.acq_cases)

lemma sem_release_cases:
  "semaphore_ok L \<Longrightarrow> sem_release L s = (s', r) \<Longrightarrow>
     (sem_waiting L s = [] \<and> r = None \<and> sem_permits L s' = Suc (sem_permits L s) \<and> sem_waiting L s' = [])
     \<or> (\<exists>i. sem_waiting L s = i # sem_waiting L s' \<and> r = Some i \<and> sem_permits L s' = sem_permits L s)"
  unfolding semaphore_ok_def by (rule fair_semaphore.release_cases)

text \<open>A change of phase that no count and no queue sees.\<close>

lemma waiting_set_phase:
  "adm_phase a i \<noteq> Waiting \<Longrightarrow> p \<noteq> Waiting \<Longrightarrow>
     {k. adm_phase (set_phase i p a) k = Waiting} = {k. adm_phase a k = Waiting}"
  by auto

lemma number_move:
  assumes "finitely_many a" "\<not> P Arriving"
  shows "P (adm_phase a i) = P p \<Longrightarrow> number P (set_phase i p a) = number P a"
    and "\<not> P (adm_phase a i) \<Longrightarrow> P p \<Longrightarrow> number P (set_phase i p a) = Suc (number P a)"
    and "P (adm_phase a i) \<Longrightarrow> \<not> P p \<Longrightarrow> number P (set_phase i p a) = number P a - 1"
    and "P (adm_phase a i) \<Longrightarrow> \<exists>n. number P a = Suc n"
  using number_set_phase [of a P, OF assms, of i p] number_pos [of a P i, OF assms] by (auto simp: gr0_conv_Suc)

lemma admission_step_inv:
  assumes "semaphore_ok L" "admission_inv L mc mq a" "admission_step L i a = Some b"
  shows "admission_inv L mc mq b"
proof -
  from assms(2) have fin: "finitely_many a" by (simp add: admission_inv_def)
  note move = number_move(1-3) [OF fin, where i = i]
  show ?thesis
  proof (cases "adm_phase a i")
    case Arriving
    show ?thesis
    proof (cases "sem_try_acquire L (adm_active a)")
      case None
      then have "b = set_phase i Busy a" using assms(3) Arriving by (simp add: admission_step_def)
      then show ?thesis using assms(2) Arriving fin move [where p = Busy]
        by (auto simp: admission_inv_def phase_classes split: if_splits)
    next
      case (Some s)
      then have "b = set_phase i Permitted (a\<lparr>adm_active := s\<rparr>)"
        using assms(3) Arriving by (simp add: admission_step_def)
      then show ?thesis using assms(2) Arriving fin sem_try_Some [OF assms(1) Some]
          number_move(1-3) [of "a\<lparr>adm_active := s\<rparr>" _ i Permitted]
        by (auto simp: admission_inv_def phase_classes split: if_splits)
    qed
  next
    case Permitted
    then show ?thesis using assms(2,3) fin number_move(1-3) [of "a\<lparr>gauge_active := gauge_active a + 1\<rparr>" _ i Rewriting]
      by (auto simp: admission_inv_def admission_step_def phase_classes split: if_splits)
  next
    case Busy
    show ?thesis
    proof (cases "sem_try_acquire L (adm_queued a)")
      case None
      then have "b = set_phase i Rejected a" using assms(3) Busy by (simp add: admission_step_def)
      then show ?thesis using assms(2) Busy fin move [where p = Rejected]
        by (auto simp: admission_inv_def phase_classes split: if_splits)
    next
      case (Some s)
      then have "b = set_phase i Queue_Permitted (a\<lparr>adm_queued := s\<rparr>)"
        using assms(3) Busy by (simp add: admission_step_def)
      then show ?thesis using assms(2) Busy fin sem_try_Some [OF assms(1) Some]
          number_move(1-3) [of "a\<lparr>adm_queued := s\<rparr>" _ i Queue_Permitted]
        by (auto simp: admission_inv_def phase_classes split: if_splits)
    qed
  next
    case Queue_Permitted
    then show ?thesis using assms(2,3) fin
        number_move(1-3) [of "a\<lparr>gauge_queued := gauge_queued a + 1\<rparr>" _ i Queue_Counted]
      by (auto simp: admission_inv_def admission_step_def phase_classes split: if_splits)
  next
    case Dequeued
    then obtain n where "number counted_queued a = Suc n"
      using number_move(4) [OF fin, of counted_queued i] by (auto simp: phase_classes)
    then show ?thesis using Dequeued assms(2,3) fin
        number_move(1-3) [of "a\<lparr>gauge_queued := gauge_queued a - 1\<rparr>" _ i Uncounted]
      by (auto simp: admission_inv_def admission_step_def phase_classes split: if_splits)
  next
    case Uncounted
    then show ?thesis using assms(2,3) fin
        number_move(1-3) [of "a\<lparr>gauge_active := gauge_active a + 1\<rparr>" _ i Rewriting]
      by (auto simp: admission_inv_def admission_step_def phase_classes split: if_splits)
  next
    case Released
    then obtain n where "number counted_active a = Suc n"
      using number_move(4) [OF fin, of counted_active i] by (auto simp: phase_classes)
    then show ?thesis using Released assms(2,3) fin
        number_move(1-3) [of "a\<lparr>gauge_active := gauge_active a - 1\<rparr>" _ i Finished]
      by (auto simp: admission_inv_def admission_step_def phase_classes split: if_splits)
  next
    case Queue_Counted
    obtain s granted where acq: "sem_acquire L i (adm_active a) = (s, granted)" by fastforce
    then have b: "b = set_phase i (if granted then Granted else Waiting) (a\<lparr>adm_active := s\<rparr>)"
      using assms(3) Queue_Counted by (simp add: admission_step_def)
    from sem_acquire_cases [OF assms(1) acq] show ?thesis
      using assms(2) Queue_Counted fin number_move(1-3) [of "a\<lparr>adm_active := s\<rparr>" _ i "if granted then Granted else Waiting"]
      by (auto simp: admission_inv_def phase_classes b split: if_splits)
  next
    case Granted
    obtain s w where rel: "sem_release L (adm_queued a) = (s, w)" by fastforce
    have "sem_waiting L (adm_queued a) = []" using assms(2) by (simp add: admission_inv_def)
    with sem_release_cases [OF assms(1) rel]
    have w: "w = None" "sem_permits L s = Suc (sem_permits L (adm_queued a))" "sem_waiting L s = []" by auto
    then have "b = set_phase i Dequeued (a\<lparr>adm_queued := s\<rparr>)"
      using assms(3) Granted rel by (simp add: admission_step_def wake_def)
    moreover obtain n where "number holds_queue a = Suc n"
      using Granted number_move(4) [OF fin, of holds_queue i] by (auto simp: phase_classes)
    ultimately show ?thesis using assms(2) Granted fin w number_move(1-3) [of "a\<lparr>adm_queued := s\<rparr>" _ i Dequeued]
      by (auto simp: admission_inv_def phase_classes split: if_splits)
  next
    case Rewriting
    obtain s w where rel: "sem_release L (adm_active a) = (s, w)" by fastforce
    then have b: "b = wake w (set_phase i Released (a\<lparr>adm_active := s\<rparr>))"
      using assms(3) Rewriting by (simp add: admission_step_def)
    let ?a = "set_phase i Released (a\<lparr>adm_active := s\<rparr>)"
    have one: "number holds_active ?a + 1 = number holds_active a" "number holds_queue ?a = number holds_queue a"
      "number counted_active ?a = number counted_active a" "number counted_queued ?a = number counted_queued a"
      using number_move(1-3) [of "a\<lparr>adm_active := s\<rparr>" _ i Released] number_move(4) [OF fin, of holds_active i] Rewriting fin
      by (auto simp: phase_classes)
    from sem_release_cases [OF assms(1) rel] show ?thesis
    proof
      assume "sem_waiting L (adm_active a) = [] \<and> w = None \<and> sem_permits L s = Suc (sem_permits L (adm_active a))
        \<and> sem_waiting L s = []"
      then show ?thesis using assms(2) one fin Rewriting by (auto simp: admission_inv_def b wake_def split: if_splits)
    next
      assume "\<exists>j. sem_waiting L (adm_active a) = j # sem_waiting L s \<and> w = Some j
        \<and> sem_permits L s = sem_permits L (adm_active a)"
      then obtain j where j: "sem_waiting L (adm_active a) = j # sem_waiting L s" "w = Some j"
        "sem_permits L s = sem_permits L (adm_active a)" by blast
      with assms(2) have "adm_phase a j = Waiting" by (auto simp: admission_inv_def)
      with Rewriting have phase_j: "adm_phase ?a j = Waiting" by auto
      have "set (sem_waiting L s) = {k. adm_phase (set_phase j Granted ?a) k = Waiting}"
        using assms(2) j(1) Rewriting by (auto simp: admission_inv_def split: if_splits)
      then show ?thesis using assms(2) one j phase_j fin number_move(1-3) [of ?a _ j Granted]
        by (auto simp: admission_inv_def b wake_def phase_classes split: if_splits)
    qed
  qed (use assms(3) in \<open>simp_all add: admission_step_def\<close>)
qed

lemma admission_steps_inv:
  "admission_steps L a is c \<Longrightarrow> semaphore_ok L \<Longrightarrow> admission_inv L mc mq a \<Longrightarrow> admission_inv L mc mq c"
  by (induction rule: admission_steps.induct) (auto dest: admission_step_inv)

lemma admission_reachable_inv:
  "semaphore_ok L \<Longrightarrow> admission_steps L (admission_new L mc mq) is a \<Longrightarrow> admission_inv L mc mq a"
  using admission_steps_inv admission_inv_new by blast

lemma number_mono:
  assumes "finitely_many a" "\<not> Q Arriving" "\<And>p. P p \<Longrightarrow> Q p"
  shows "number P a \<le> number Q a"
  unfolding number_def using finite_class [of a Q, OF assms(1,2)] assms(3) by (auto intro!: card_mono)

section \<open>Limits and gauges\<close>

text \<open>
  Whatever the interleaving, at most \<open>maxConcurrent\<close> requests rewrite and at most \<open>maxQueued\<close>
  wait; every permit is available or held by exactly one request; and the two gauges are
  exactly the numbers of requests between their increment and decrement.
\<close>

theorem admission_limits:
  assumes "semaphore_ok L" "admission_steps L (admission_new L mc mq) is a"
  shows "number (\<lambda>p. p = Rewriting) a \<le> mc \<and> number (\<lambda>p. p = Waiting) a \<le> mq
    \<and> sem_permits L (adm_active a) + number holds_active a = mc
    \<and> sem_permits L (adm_queued a) + number holds_queue a = mq
    \<and> gauge_active a = int (number counted_active a) \<and> gauge_queued a = int (number counted_queued a)"
proof -
  from admission_reachable_inv [OF assms] have inv: "admission_inv L mc mq a" .
  then have "finitely_many a" by (simp add: admission_inv_def)
  from number_mono [OF this, of holds_active "\<lambda>p. p = Rewriting"]
    number_mono [OF this, of holds_queue "\<lambda>p. p = Waiting"]
  have "number (\<lambda>p. p = Rewriting) a \<le> number holds_active a" "number (\<lambda>p. p = Waiting) a \<le> number holds_queue a"
    by (simp_all add: phase_classes)
  with inv show ?thesis by (auto simp: admission_inv_def)
qed

text \<open>Two requests and one permit: the second one waits.\<close>

definition sample_run :: "nat list" where
  "sample_run = [0, 0, 1, 1, 1, 1]"

definition sample_state :: "(nat \<times> nat list, nat) admission" where
  "sample_state =
     \<lparr>adm_active = (0, [1]), adm_queued = (0, []), gauge_active = 1, gauge_queued = 1,
      adm_phase = (\<lambda>_. Arriving)(0 := Rewriting, 1 := Waiting)\<rparr>"

lemma sample_steps: "admission_steps fifo_lib (admission_new fifo_lib 1 1) sample_run sample_state"
  by (simp add: sample_run_def admission_step_def admission_new_def fifo_lib_def fifo_try_acquire_def
      fifo_acquire_def set_phase_def sample_state_def fun_upd_twist)

theorem admission_limits_witness:
  "number (\<lambda>p. p = Rewriting) sample_state \<le> 1 \<and> gauge_queued sample_state = 1"
  using admission_limits [OF fifo_lib_ok sample_steps] by (simp add: sample_state_def)

section \<open>Fairness\<close>

text \<open>
  C20. Nobody overtakes a waiting request: while requests wait, an arriving one is not admitted,
  one that joins the queue is put at its end, and the permit that a request gives back goes to
  the request that has waited longest. And a request is turned away only while \<open>maxQueued\<close>
  requests hold a place in the queue.
\<close>

theorem admission_fair:
  assumes "semaphore_ok L" "admission_steps L (admission_new L mc mq) is a" "admission_step L i a = Some b"
  shows "(sem_waiting L (adm_active a) \<noteq> [] \<longrightarrow>
      (adm_phase a i = Arriving \<longrightarrow> adm_phase b i = Busy)
      \<and> (adm_phase a i = Queue_Counted \<longrightarrow> adm_phase b i = Waiting
           \<and> sem_waiting L (adm_active b) = sem_waiting L (adm_active a) @ [i])
      \<and> (adm_phase a i = Rewriting \<longrightarrow> adm_phase b (hd (sem_waiting L (adm_active a))) = Granted
           \<and> sem_waiting L (adm_active b) = tl (sem_waiting L (adm_active a))))
    \<and> (adm_phase b i = Rejected \<longrightarrow> number holds_queue a = mq)"
proof -
  have inv: "admission_inv L mc mq a" by (rule admission_reachable_inv [OF assms(1,2)])
  then have busy: "sem_permits L (adm_active a) = 0" if "sem_waiting L (adm_active a) \<noteq> []"
    using that by (simp add: admission_inv_def)
  have reject: "number holds_queue a = mq" if "adm_phase b i = Rejected"
  proof -
    have "adm_phase a i = Busy \<and> sem_try_acquire L (adm_queued a) = None"
      using assms(3) that
      by (cases "adm_phase a i")
        (auto simp: admission_step_def wake_def split: option.splits prod.splits if_splits)
    then show ?thesis using inv sem_try_None [OF assms(1), of "adm_queued a"] by (simp add: admission_inv_def)
  qed
  show ?thesis
  proof (intro conjI impI)
    assume w: "sem_waiting L (adm_active a) \<noteq> []" and i: "adm_phase a i = Arriving"
    then show "adm_phase b i = Busy"
      using assms(3) sem_try_None [OF assms(1), of "adm_active a"] busy [OF w]
      by (simp add: admission_step_def) auto
  next
    assume w: "sem_waiting L (adm_active a) \<noteq> []" and i: "adm_phase a i = Queue_Counted"
    obtain s g where acq: "sem_acquire L i (adm_active a) = (s, g)" by fastforce
    with sem_acquire_cases [OF assms(1) acq] busy [OF w] assms(3) i
    show "adm_phase b i = Waiting" "sem_waiting L (adm_active b) = sem_waiting L (adm_active a) @ [i]"
      by (auto simp: admission_step_def)
  next
    assume w: "sem_waiting L (adm_active a) \<noteq> []" and i: "adm_phase a i = Rewriting"
    obtain s r where rel: "sem_release L (adm_active a) = (s, r)" by fastforce
    with sem_release_cases [OF assms(1) rel] w assms(3) i
    show "adm_phase b (hd (sem_waiting L (adm_active a))) = Granted"
      "sem_waiting L (adm_active b) = tl (sem_waiting L (adm_active a))"
      by (auto simp: admission_step_def wake_def)
  qed (rule reject)
qed

theorem admission_fair_witness:
  "\<exists>b. admission_step fifo_lib 2 sample_state = Some b \<and> adm_phase b 2 = Busy"
proof -
  have "admission_step fifo_lib 2 sample_state = Some (set_phase 2 Busy sample_state)"
    by (simp add: admission_step_def fifo_lib_def fifo_try_acquire_def sample_state_def)
  from admission_fair [OF fifo_lib_ok sample_steps this] this show ?thesis
    by (auto simp: sample_state_def fifo_lib_def)
qed

section \<open>Progress\<close>

fun rank :: "phase \<Rightarrow> nat" where
  "rank Arriving = 11"
| "rank Busy = 10"
| "rank Queue_Permitted = 9"
| "rank Queue_Counted = 8"
| "rank Waiting = 7"
| "rank Granted = 6"
| "rank Dequeued = 5"
| "rank Uncounted = 4"
| "rank Permitted = 4"
| "rank Rewriting = 3"
| "rank Released = 2"
| "rank Finished = 0"
| "rank Rejected = 0"

definition total_rank :: "'i set \<Rightarrow> ('s, 'i) admission \<Rightarrow> nat" where
  "total_rank A a = (\<Sum>i\<in>A. rank (adm_phase a i))"

lemma release_wakes:
  assumes "semaphore_ok L" "admission_inv L mc mq a" "sem_release L s = (s', Some j)"
    and "s = adm_active a \<or> s = adm_queued a"
  shows "adm_phase a j = Waiting"
proof -
  from sem_release_cases [OF assms(1,3)] obtain w where j: "sem_waiting L s = j # w" by blast
  from assms(2) have empty: "sem_waiting L (adm_queued a) = []"
    and waiting: "set (sem_waiting L (adm_active a)) = {i. adm_phase a i = Waiting}"
    by (simp_all add: admission_inv_def)
  with j assms(4) have "s = adm_active a" by auto
  with j have "j \<in> set (sem_waiting L (adm_active a))" by simp
  then show ?thesis unfolding waiting by simp
qed

lemma step_rank:
  assumes "semaphore_ok L" "admission_inv L mc mq a" "admission_step L i a = Some b"
  shows "rank (adm_phase b i) < rank (adm_phase a i) \<and> rank (adm_phase b k) \<le> rank (adm_phase a k)"
proof (cases "adm_phase a i = Rewriting \<or> adm_phase a i = Granted")
  case False
  with assms(3) show ?thesis
    by (cases "adm_phase a i") (auto simp: admission_step_def split: option.splits prod.splits)
next
  case True
  let ?sem = "if adm_phase a i = Rewriting then adm_active a else adm_queued a"
  obtain s r where rel: "sem_release L ?sem = (s, r)" by fastforce
  have wake: "adm_phase a j = Waiting" if "r = Some j" for j
    by (rule release_wakes [OF assms(1,2), of ?sem s j]) (use rel that in \<open>simp_all split: if_split\<close>)
  show ?thesis
  proof (cases r)
    case None
    with True rel assms(3) show ?thesis by (auto simp: admission_step_def wake_def)
  next
    case (Some j)
    with True rel assms(3) wake [OF Some] show ?thesis by (auto simp: admission_step_def wake_def)
  qed
qed

lemma step_total_rank:
  assumes "semaphore_ok L" "admission_inv L mc mq a" "admission_step L i a = Some b" "finite A" "i \<in> A"
  shows "total_rank A b < total_rank A a"
  unfolding total_rank_def
  using step_rank [OF assms(1-3)] assms(4,5) by (intro sum_strict_mono_ex1) auto

lemma steps_total_rank:
  "admission_steps L a is c \<Longrightarrow> semaphore_ok L \<Longrightarrow> admission_inv L mc mq a \<Longrightarrow> finite A \<Longrightarrow> set is \<subseteq> A \<Longrightarrow>
     length is + total_rank A c \<le> total_rank A a"
proof (induction rule: admission_steps.induct)
  case (more_steps i a b "is" c)
  then have "total_rank A b < total_rank A a" by (intro step_total_rank) auto
  moreover have "length is + total_rank A c \<le> total_rank A b"
    using more_steps admission_step_inv [OF more_steps.prems(1,2) more_steps.hyps(1)] by auto
  ultimately show ?case by simp
qed simp

lemma steps_arriving: "admission_steps L a is c \<Longrightarrow> semaphore_ok L \<Longrightarrow> admission_inv L mc mq a \<Longrightarrow>
    i \<notin> set is \<Longrightarrow> adm_phase a i = Arriving \<Longrightarrow> adm_phase c i = Arriving"
proof (induction rule: admission_steps.induct)
  case (more_steps j a b "is" c)
  have "adm_phase b i = Arriving"
  proof (cases "adm_phase a j = Rewriting \<or> adm_phase a j = Granted")
    case False
    with more_steps show ?thesis
      by (cases "adm_phase a j") (auto simp: admission_step_def split: option.splits prod.splits)
  next
    case True
    let ?sem = "if adm_phase a j = Rewriting then adm_active a else adm_queued a"
    obtain s r where rel: "sem_release L ?sem = (s, r)" by fastforce
    have "adm_phase a k = Waiting" if "r = Some k" for k
      by (rule release_wakes [OF more_steps.prems(1,2), of ?sem s k]) (use rel that in \<open>simp_all split: if_split\<close>)
    with more_steps.prems(4) have "r \<noteq> Some i" by fastforce
    with True rel more_steps show ?thesis by (auto simp: admission_step_def wake_def split: option.splits)
  qed
  with more_steps show ?case using admission_step_inv by fastforce
qed simp

lemma stuck_phase:
  "admission_step L i a = None \<Longrightarrow> adm_phase a i \<in> {Waiting, Rejected, Finished}"
  by (cases "adm_phase a i") (auto simp: admission_step_def split: option.splits prod.splits)

text \<open>
  C19. Admission never deadlocks and never loses a permit: when finitely many requests arrive, every
  schedule of their steps is finite (at most eleven steps each), and once no step is possible
  every request has been rejected or has finished, both gauges are zero and all permits are
  available again. So every request that waits is admitted, provided that those before it end.
\<close>

theorem admission_completes:
  assumes "semaphore_ok L" "0 < mc" "finite A" "set is \<subseteq> A" "admission_steps L (admission_new L mc mq) is c"
  shows "length is \<le> 11 * card A
    \<and> ((\<forall>i\<in>A. admission_step L i c = None) \<longrightarrow>
        (\<forall>i\<in>A. adm_phase c i \<in> {Rejected, Finished}) \<and> gauge_active c = 0 \<and> gauge_queued c = 0
        \<and> sem_permits L (adm_active c) = mc \<and> sem_permits L (adm_queued c) = mq)"
proof (intro conjI impI)
  note new = admission_inv_new [OF assms(1)]
  have "total_rank A (admission_new L mc mq :: ('a, 'b) admission) = 11 * card A"
    by (simp add: total_rank_def admission_new_def)
  with steps_total_rank [OF assms(5,1) new assms(3,4)] show "length is \<le> 11 * card A" by simp
next
  assume stuck: "\<forall>i\<in>A. admission_step L i c = None"
  note new = admission_inv_new [OF assms(1)]
  have inv: "admission_inv L mc mq c" by (rule admission_reachable_inv [OF assms(1,5)])
  have outside: "adm_phase c i = Arriving" if "i \<notin> A" for i
    using steps_arriving [OF assms(5,1) new, of i] that assms(4) by (auto simp: admission_new_def)
  have phases: "adm_phase c i \<in> {Arriving, Waiting, Rejected, Finished}" for i
    using stuck outside [of i] stuck_phase [of L i c] by (cases "i \<in> A") auto
  have "holds_active (adm_phase c i) = False" "counted_active (adm_phase c i) = False" for i
    using phases [of i] by (auto simp: phase_classes)
  then have zero: "number holds_active c = 0" "number counted_active c = 0" by (simp_all add: number_def)
  then have "sem_permits L (adm_active c) = mc" using inv by (simp add: admission_inv_def)
  with assms(2) inv have "sem_waiting L (adm_active c) = []" by (auto simp: admission_inv_def)
  with inv have none: "adm_phase c i \<noteq> Waiting" for i by (auto simp: admission_inv_def)
  then have "holds_queue (adm_phase c i) = False" "counted_queued (adm_phase c i) = False" for i
    using phases [of i] by (auto simp: phase_classes)
  then have zero': "number holds_queue c = 0" "number counted_queued c = 0" by (simp_all add: number_def)
  have "adm_phase c i \<in> {Rejected, Finished}" if "i \<in> A" for i
    using stuck that none [of i] stuck_phase [of L i c] by auto
  then show "\<forall>i\<in>A. adm_phase c i \<in> {Rejected, Finished}" by blast
  show "gauge_active c = 0" "gauge_queued c = 0" "sem_permits L (adm_active c) = mc"
      "sem_permits L (adm_queued c) = mq"
    using inv zero zero' by (simp_all add: admission_inv_def)
qed

theorem admission_completes_witness:
  "length sample_run \<le> 11 * card {0, 1 :: nat}"
proof -
  have "finite {0, 1 :: nat}" "set sample_run \<subseteq> {0, 1}" "0 < (1 :: nat)" by (simp_all add: sample_run_def)
  from admission_completes [OF fifo_lib_ok this(3,1,2) sample_steps] show ?thesis by blast
qed

end
