(* ===== verification/Admission_Drop.thy ===== *)
theory Admission_Drop
  imports Admission_Correct
begin

text \<open>
  Requests that are given up. Where the server drops the future of a request, Rust drops what it
  owns: a waiter leaves the queue of the semaphore, a permit that has been taken or handed over
  goes back. The code after the \<open>await\<close> does not run, so the gauges keep what they have counted.
  The permits are safe all the same, under every interleaving.
\<close>

section \<open>Leaving the queue\<close>

locale cancellable_semaphore = fair_semaphore new_sem permits waiting try_acq acq release
  for new_sem :: "nat \<Rightarrow> 's"
    and permits :: "'s \<Rightarrow> nat"
    and waiting :: "'s \<Rightarrow> 'i list"
    and try_acq :: "'s \<Rightarrow> 's option"
    and acq :: "'i \<Rightarrow> 's \<Rightarrow> 's \<times> bool"
    and release :: "'s \<Rightarrow> 's \<times> 'i option" +
  fixes cancel :: "'i \<Rightarrow> 's \<Rightarrow> 's"
  assumes cancel_permits: "permits (cancel i s) = permits s"
    and cancel_waiting: "waiting (cancel i s) = remove1 i (waiting s)"
begin

lemma cancel_set: "distinct (waiting s) \<Longrightarrow> set (waiting (cancel i s)) = set (waiting s) - {i}"
  by (simp add: cancel_waiting)

lemma cancel_keeps:
  assumes "distinct (waiting s)" "waiting s \<noteq> [] \<longrightarrow> permits s = 0"
  shows "distinct (waiting (cancel i s)) \<and> (waiting (cancel i s) \<noteq> [] \<longrightarrow> permits (cancel i s) = 0)"
  using assms by (cases "waiting s") (auto simp: cancel_waiting cancel_permits)

end

definition cancel_ok :: "('s, 'i) semaphore_lib \<Rightarrow> ('i \<Rightarrow> 's \<Rightarrow> 's) \<Rightarrow> bool" where
  [wf_simps]: "cancel_ok L cancel \<longleftrightarrow>
     cancellable_semaphore (sem_new L) (sem_permits L) (sem_waiting L) (sem_try_acquire L) (sem_acquire L)
       (sem_release L) cancel"

definition fifo_cancel :: "'i \<Rightarrow> nat \<times> 'i list \<Rightarrow> nat \<times> 'i list" where
  "fifo_cancel i s = (case s of (n, w) \<Rightarrow> (n, remove1 i w))"

interpretation fifo_can: cancellable_semaphore "\<lambda>n. (n, [])" fst snd fifo_try_acquire fifo_acquire fifo_release fifo_cancel
  by unfold_locales (auto simp: fifo_cancel_def split: prod.splits)

lemma fifo_cancel_ok: "cancel_ok fifo_lib fifo_cancel"
  using fifo_can.cancellable_semaphore_axioms by (simp add: cancel_ok_def fifo_lib_def)

lemma cancel_semaphore: "cancel_ok L cancel \<Longrightarrow> semaphore_ok L"
  by (simp add: cancel_ok_def semaphore_ok_def cancellable_semaphore_def)

section \<open>Dropping a request\<close>

text \<open>
  The drop of \<open>admit_rewrite\<close> at its \<open>await\<close>, first of the future of \<open>acquire_owned\<close> and then of
  \<open>queue_permit\<close>, and of a context with its \<open>active_permit\<close>.
\<close>

definition drop_active :: "('s, 'i) semaphore_lib \<Rightarrow> ('s, 'i) admission \<Rightarrow> ('s, 'i) admission" where
  "drop_active L a = (case sem_release L (adm_active a) of (s, w) \<Rightarrow> wake w (a\<lparr>adm_active := s\<rparr>))"

definition drop_queued :: "('s, 'i) semaphore_lib \<Rightarrow> ('s, 'i) admission \<Rightarrow> ('s, 'i) admission" where
  "drop_queued L a = (case sem_release L (adm_queued a) of (s, w) \<Rightarrow> wake w (a\<lparr>adm_queued := s\<rparr>))"

definition admission_drop ::
  "('s, 'i) semaphore_lib \<Rightarrow> ('i \<Rightarrow> 's \<Rightarrow> 's) \<Rightarrow> 'i \<Rightarrow> ('s, 'i) admission \<Rightarrow> ('s, 'i) admission option" where
  "admission_drop L cancel i a =
     (case adm_phase a i of
        Waiting \<Rightarrow> Some (drop_queued L (set_phase i Finished (a\<lparr>adm_active := cancel i (adm_active a)\<rparr>)))
      | Granted \<Rightarrow> Some (drop_queued L (drop_active L (set_phase i Finished a)))
      | Rewriting \<Rightarrow> Some (drop_active L (set_phase i Finished a))
      | _ \<Rightarrow> None)"

text \<open>Runs with drops, and how many requests were dropped with a permit and in the queue.\<close>

inductive admission_runs ::
  "('s, 'i) semaphore_lib \<Rightarrow> ('i \<Rightarrow> 's \<Rightarrow> 's) \<Rightarrow> ('s, 'i) admission \<Rightarrow> nat \<Rightarrow> nat \<Rightarrow> ('s, 'i) admission \<Rightarrow> bool"
  for L cancel a where
  run_start: "admission_runs L cancel a 0 0 a"
| run_step: "admission_runs L cancel a m n b \<Longrightarrow> admission_step L i b = Some c \<Longrightarrow> admission_runs L cancel a m n c"
| run_drop: "admission_runs L cancel a m n b \<Longrightarrow> admission_drop L cancel i b = Some c \<Longrightarrow>
    admission_runs L cancel a (if adm_phase b i = Rewriting then Suc m else m)
      (if adm_phase b i = Rewriting then n else Suc n) c"

inductive_cases admission_runsE: "admission_runs L cancel a m n c"

section \<open>The invariant with gauges that have drifted\<close>

text \<open>The state as it would be if the dropped requests had lowered the gauges.\<close>

definition settle :: "nat \<Rightarrow> nat \<Rightarrow> ('s, 'i) admission \<Rightarrow> ('s, 'i) admission" where
  "settle m n a = a\<lparr>gauge_active := gauge_active a - int m, gauge_queued := gauge_queued a - int n\<rparr>"

lemma settle_sel [simp]:
  "adm_active (settle m n a) = adm_active a" "adm_queued (settle m n a) = adm_queued a"
  "adm_phase (settle m n a) = adm_phase a" "gauge_active (settle m n a) = gauge_active a - int m"
  "gauge_queued (settle m n a) = gauge_queued a - int n"
  by (simp_all add: settle_def)

lemma settle_zero: "settle 0 0 a = a"
  by (simp add: settle_def)

lemma settle_wake: "settle m n (wake w a) = wake w (settle m n a)"
  by (cases a) (simp add: settle_def wake_def set_phase_def split: option.split)

lemma settle_set_phase: "settle m n (set_phase i p a) = set_phase i p (settle m n a)"
  by (cases a) (simp add: settle_def set_phase_def)

lemma settle_step:
  "admission_step L i (settle m n a) = map_option (settle m n) (admission_step L i a)"
  by (cases "adm_phase a i"; cases a)
    (simp_all add: admission_step_def settle_wake settle_set_phase settle_def set_phase_def wake_def
      split: option.split prod.split)

lemma settle_drop_active: "settle m n (drop_active L a) = drop_active L (settle m n a)"
  by (cases a) (simp add: drop_active_def settle_def wake_def set_phase_def split: option.split prod.split)

lemma settle_drop_queued: "settle m n (drop_queued L a) = drop_queued L (settle m n a)"
  by (cases a) (simp add: drop_queued_def settle_def wake_def set_phase_def split: option.split prod.split)

lemma settle_active_update: "settle m n (a\<lparr>adm_active := s\<rparr>) = (settle m n a)\<lparr>adm_active := s\<rparr>"
  by (simp add: settle_def)

lemma settle_drop:
  "admission_drop L cancel i (settle m n a) = map_option (settle m n) (admission_drop L cancel i a)"
  by (cases "adm_phase a i")
    (simp_all add: admission_drop_def settle_drop_active settle_drop_queued settle_set_phase settle_active_update)

lemma settle_add: "settle m' n' (settle m n a) = settle (m + m') (n + n') a"
  by (simp add: settle_def)

lemma drop_queued_eq:
  assumes "semaphore_ok L" "sem_waiting L (adm_queued a) = []"
  obtains s where "sem_release L (adm_queued a) = (s, None)" "sem_permits L s = Suc (sem_permits L (adm_queued a))"
    "sem_waiting L s = []" "drop_queued L a = a\<lparr>adm_queued := s\<rparr>"
proof -
  obtain s r where rel: "sem_release L (adm_queued a) = (s, r)" by fastforce
  from sem_release_cases [OF assms(1) rel] assms(2)
  have "r = None" "sem_permits L s = Suc (sem_permits L (adm_queued a))" "sem_waiting L s = []" by auto
  with that rel show thesis by (simp add: drop_queued_def wake_def)
qed

lemma drop_waiting_inv:
  assumes "cancel_ok L cancel" "admission_inv L mc mq a" "adm_phase a i = Waiting"
  shows "admission_inv L mc mq (settle 0 1
    (drop_queued L (set_phase i Finished (a\<lparr>adm_active := cancel i (adm_active a)\<rparr>))))"
proof -
  let ?b = "a\<lparr>adm_active := cancel i (adm_active a)\<rparr>" and ?can = "cancel i (adm_active a)"
  have fin: "finitely_many a" using assms(2) by (simp add: admission_inv_def)
  have waiters: "distinct (sem_waiting L (adm_active a))"
    "sem_waiting L (adm_active a) \<noteq> [] \<longrightarrow> sem_permits L (adm_active a) = 0"
    "set (sem_waiting L (adm_active a)) = {k. adm_phase a k = Waiting}"
    using assms(2) by (simp_all add: admission_inv_def)
  have can: "sem_permits L ?can = sem_permits L (adm_active a)"
    "distinct (sem_waiting L ?can) \<and> (sem_waiting L ?can \<noteq> [] \<longrightarrow> sem_permits L ?can = 0)"
    "set (sem_waiting L ?can) = {k. adm_phase a k = Waiting} - {i}"
    using cancellable_semaphore.cancel_permits [OF assms(1) [unfolded cancel_ok_def]]
      cancellable_semaphore.cancel_keeps [OF assms(1) [unfolded cancel_ok_def] waiters(1,2)]
      cancellable_semaphore.cancel_set [OF assms(1) [unfolded cancel_ok_def] waiters(1)]
    by (simp_all add: waiters(3))
  have "sem_waiting L (adm_queued (set_phase i Finished ?b)) = []" using assms(2) by (simp add: admission_inv_def)
  from drop_queued_eq [OF cancel_semaphore [OF assms(1)] this] obtain s where
    s: "sem_permits L s = Suc (sem_permits L (adm_queued (set_phase i Finished ?b)))" "sem_waiting L s = []"
      "drop_queued L (set_phase i Finished ?b) = (set_phase i Finished ?b)\<lparr>adm_queued := s\<rparr>"
    by metis
  let ?c = "a\<lparr>adm_active := ?can, adm_queued := s, gauge_queued := gauge_queued a - 1\<rparr>"
  have c: "settle 0 1 (drop_queued L (set_phase i Finished ?b)) = set_phase i Finished ?c"
    unfolding s(3) by (simp add: settle_def set_phase_def)
  obtain m n where "number holds_queue a = Suc m" "number counted_queued a = Suc n"
    using number_move(4) [OF fin, of holds_queue i] number_move(4) [OF fin, of counted_queued i] assms(3)
    by (auto simp: phase_classes)
  moreover have "{k. adm_phase (set_phase i Finished ?c) k = Waiting} = {k. adm_phase a k = Waiting} - {i}" by auto
  ultimately show ?thesis unfolding c
    using assms(2,3) fin can s(1,2)
      number_move(1-3) [of ?c _ i Finished]
    by (simp add: admission_inv_def phase_classes)
qed

text \<open>The other drops are what the steps of the request would have done, but for the gauges.\<close>

lemma drop_rewriting_steps:
  assumes "semaphore_ok L" "admission_inv L mc mq a" "adm_phase a i = Rewriting"
  shows "admission_steps L a [i, i] (settle 1 0 (drop_active L (set_phase i Finished a)))"
proof -
  obtain s w where rel: "sem_release L (adm_active a) = (s, w)" by fastforce
  have other: "w \<noteq> Some i"
    using release_wakes [OF assms(1,2), of "adm_active a" s i] rel assms(3) by auto
  let ?b = "wake w (set_phase i Released (a\<lparr>adm_active := s\<rparr>))"
  have "admission_step L i a = Some ?b" using assms(3) rel by (simp add: admission_step_def)
  moreover have "adm_phase ?b i = Released" using other by (cases w) (auto simp: wake_def)
  then have "admission_step L i ?b = Some (set_phase i Finished (?b\<lparr>gauge_active := gauge_active ?b - 1\<rparr>))"
    by (simp add: admission_step_def)
  moreover have "set_phase i Finished (?b\<lparr>gauge_active := gauge_active ?b - 1\<rparr>) =
      settle 1 0 (drop_active L (set_phase i Finished a))"
    using rel other by (cases w) (auto simp: drop_active_def wake_def set_phase_def settle_def fun_upd_twist)
  ultimately show ?thesis by simp
qed

lemma drop_granted_steps:
  assumes "semaphore_ok L" "admission_inv L mc mq a" "adm_phase a i = Granted"
  shows "admission_steps L a [i, i, i, i, i] (settle 0 1 (drop_queued L (drop_active L (set_phase i Finished a))))"
proof -
  have queue: "sem_waiting L (adm_queued a) = []" using assms(2) by (simp add: admission_inv_def)
  obtain s where s: "sem_release L (adm_queued a) = (s, None)" "drop_queued L a = a\<lparr>adm_queued := s\<rparr>"
    by (rule drop_queued_eq [OF assms(1) queue])
  define b where "b = set_phase i Rewriting (a\<lparr>adm_queued := s, gauge_queued := gauge_queued a - 1,
    gauge_active := gauge_active a + 1\<rparr>)"
  have three: "admission_steps L a [i, i, i] b"
    using assms(3) s(1) by (simp add: admission_step_def wake_def b_def set_phase_def)
  from admission_steps_inv [OF three assms(1,2)] have "admission_inv L mc mq b" .
  from drop_rewriting_steps [OF assms(1) this] have
    two: "admission_steps L b [i, i] (settle 1 0 (drop_active L (set_phase i Finished b)))" by (simp add: b_def)
  obtain t w where t: "sem_release L (adm_active a) = (t, w)" by fastforce
  have "settle 1 0 (drop_active L (set_phase i Finished b)) = settle 0 1 (drop_queued L (drop_active L (set_phase i Finished a)))"
    using s(1) t by (cases w)
      (simp_all add: b_def drop_active_def drop_queued_def wake_def settle_def set_phase_def)
  with three two show ?thesis by auto
qed

lemma drop_inv:
  assumes "cancel_ok L cancel" "admission_inv L mc mq a" "admission_drop L cancel i a = Some c"
  shows "admission_inv L mc mq (settle (of_bool (adm_phase a i = Rewriting)) (of_bool (adm_phase a i \<noteq> Rewriting)) c)"
proof -
  note sem = cancel_semaphore [OF assms(1)]
  consider "adm_phase a i = Waiting" | "adm_phase a i = Granted" | "adm_phase a i = Rewriting"
    using assms(3) by (cases "adm_phase a i") (simp_all add: admission_drop_def)
  then show ?thesis
  proof cases
    case 1
    with drop_waiting_inv [OF assms(1,2) 1] assms(3) show ?thesis by (simp add: admission_drop_def)
  next
    case 2
    with admission_steps_inv [OF drop_granted_steps [OF sem assms(2) 2] sem assms(2)] assms(3)
    show ?thesis by (simp add: admission_drop_def)
  next
    case 3
    with admission_steps_inv [OF drop_rewriting_steps [OF sem assms(2) 3] sem assms(2)] assms(3)
    show ?thesis by (simp add: admission_drop_def)
  qed
qed

lemma runs_inv:
  assumes "admission_runs L cancel a0 m n a" "cancel_ok L cancel" "admission_inv L mc mq a0"
  shows "admission_inv L mc mq (settle m n a)"
  using assms
proof (induction rule: admission_runs.induct)
  case run_start
  then show ?case by (simp add: settle_zero)
next
  case (run_step m n b i c)
  then have "admission_step L i (settle m n b) = Some (settle m n c)" by (simp add: settle_step)
  with admission_step_inv [OF cancel_semaphore [OF run_step.prems(1)]] run_step show ?case by blast
next
  case (run_drop m n b i c)
  then have "admission_drop L cancel i (settle m n b) = Some (settle m n c)" by (simp add: settle_drop)
  from drop_inv [OF run_drop.prems(1) run_drop.IH [OF run_drop.prems] this]
  show ?case by (auto simp: settle_add split: if_splits)
qed

lemma steps_runs: "admission_steps L b is c \<Longrightarrow> admission_runs L cancel a m n b \<Longrightarrow> admission_runs L cancel a m n c"
  by (induction rule: admission_steps.induct) (auto intro: run_step)

text \<open>
  C6. Permits survive dropped requests: whatever the interleaving, and wherever the future of a
  request is dropped, while it waits, when it has just been handed a permit or while it rewrites,
  every permit is available or held by exactly one request, at most \<open>maxConcurrent\<close> requests
  rewrite and at most \<open>maxQueued\<close> wait, and nobody waits while a permit is available. Without
  drops the gauges are exactly the numbers of requests between their increment and decrement; each
  dropped request leaves the gauge that had counted it too high by one, for good.
\<close>

theorem dropped_requests_safe:
  assumes "cancel_ok L cancel" "admission_runs L cancel (admission_new L mc mq) m n a"
  shows "number (\<lambda>p. p = Rewriting) a \<le> mc \<and> number (\<lambda>p. p = Waiting) a \<le> mq
    \<and> sem_permits L (adm_active a) + number holds_active a = mc
    \<and> sem_permits L (adm_queued a) + number holds_queue a = mq
    \<and> (sem_waiting L (adm_active a) \<noteq> [] \<longrightarrow> sem_permits L (adm_active a) = 0)
    \<and> set (sem_waiting L (adm_active a)) = {i. adm_phase a i = Waiting}
    \<and> gauge_active a = int (number counted_active a + m) \<and> gauge_queued a = int (number counted_queued a + n)"
proof -
  have inv: "admission_inv L mc mq (settle m n a)"
    by (rule runs_inv [OF assms(2,1) admission_inv_new [OF cancel_semaphore [OF assms(1)]]])
  have number: "number P (settle m n a) = number P a" for P by (simp add: number_def)
  from inv have "finitely_many a" by (simp add: admission_inv_def finitely_many_def)
  from number_mono [OF this, of holds_active "\<lambda>p. p = Rewriting"]
    number_mono [OF this, of holds_queue "\<lambda>p. p = Waiting"]
  have "number (\<lambda>p. p = Rewriting) a \<le> number holds_active a" "number (\<lambda>p. p = Waiting) a \<le> number holds_queue a"
    by (simp_all add: phase_classes)
  with inv show ?thesis by (auto simp: admission_inv_def number)
qed

text \<open>The waiting request of the sample is dropped: its place in the queue is free, the gauge is not.\<close>

theorem dropped_requests_safe_witness:
  "\<exists>a. admission_runs fifo_lib fifo_cancel (admission_new fifo_lib 1 1 :: (nat \<times> nat list, nat) admission) 0 1 a
     \<and> gauge_queued a = 1 \<and> number counted_queued a = 0 \<and> number holds_queue a = 0"
proof -
  let ?new = "admission_new fifo_lib 1 1 :: (nat \<times> nat list, nat) admission"
  let ?a = "sample_state\<lparr>adm_active := (0, []), adm_queued := (1, []), adm_phase := (adm_phase sample_state)(1 := Finished)\<rparr>"
  have run: "admission_runs fifo_lib fifo_cancel ?new 0 0 sample_state"
    by (rule steps_runs [OF sample_steps run_start])
  have waits: "adm_phase sample_state 1 = Waiting" by (simp add: sample_state_def)
  have "admission_drop fifo_lib fifo_cancel 1 sample_state = Some ?a"
    by (simp add: admission_drop_def sample_state_def drop_queued_def fifo_lib_def fifo_release_def fifo_cancel_def
        wake_def set_phase_def)
  from run_drop [OF run this] waits have dropped: "admission_runs fifo_lib fifo_cancel ?new 0 1 ?a" by simp
  have "sem_permits fifo_lib (adm_queued ?a) = 1" "gauge_queued ?a = 1"
    by (simp_all add: fifo_lib_def sample_state_def)
  with dropped_requests_safe [OF fifo_cancel_ok dropped] dropped show ?thesis by auto
qed

end
