(* ===== verification/Handler.thy ===== *)
theory Handler
  imports Profiles Headers Config Admission
begin

text \<open>
  The request handlers of \<open>src/proxy.rs\<close>, in the order in which the server calls them:
  \<open>new_ctx\<close>, \<open>request_filter\<close>, \<open>upstream_request_filter\<close>, \<open>response_filter\<close>, one
  \<open>response_body_filter\<close> per chunk, and \<open>logging\<close>. A handler is a function of the world: the
  shared semaphores and metrics, the session and the context of the request. The session, the
  header maps, the semaphores and the crates for digests, search and codecs are parameters, and so
  is the time that a request has taken.
\<close>

section \<open>The state\<close>

datatype proxy_error =
    InternalError bytes
  | HTTPStatus nat bytes
  | InvalidHTTPHeader
  | WriteError

record request_context =
  cx_request_id :: bytes
  cx_method :: bytes
  cx_path :: bytes
  cx_extension :: "bytes option"
  cx_decision :: rewrite_decision
  cx_rewriter :: "pipeline option"
  cx_active_permit :: bool
  cx_client_if_none_match :: "bytes option"
  cx_suppress_body :: bool
  cx_input_bytes :: nat
  cx_output_bytes :: nat
  cx_outcome :: bytes

text \<open>The registered metrics: two gauges, four counters by their labels.\<close>

record metrics =
  mt_active :: int
  mt_queued :: int
  mt_requests :: "bytes \<times> bytes \<Rightarrow> nat"
  mt_durations :: "bytes \<Rightarrow> nat" \<comment> \<open>observations of the histogram\<close>
  mt_input_bytes :: "bytes \<Rightarrow> nat"
  mt_output_bytes :: "bytes \<Rightarrow> nat"

definition metrics_new :: metrics where
  "metrics_new =
     \<lparr>mt_active = 0, mt_queued = 0, mt_requests = (\<lambda>_. 0), mt_durations = (\<lambda>_. 0),
      mt_input_bytes = (\<lambda>_. 0), mt_output_bytes = (\<lambda>_. 0)\<rparr>"

definition inc_by :: "'l \<Rightarrow> nat \<Rightarrow> ('l \<Rightarrow> nat) \<Rightarrow> 'l \<Rightarrow> nat" where
  "inc_by l n f = f(l := f l + n)"

text \<open>
  The session of \<open>pingora\<close>: the request header, the level of the compression module where there
  is one, and the two ways to write a response, which can fail.
\<close>

record ('sess, 'h) session_lib =
  ses_method :: "'sess \<Rightarrow> bytes"
  ses_path :: "'sess \<Rightarrow> bytes"
  ses_headers :: "'sess \<Rightarrow> 'h"
  ses_adjust_compression :: "nat \<Rightarrow> 'sess \<Rightarrow> 'sess"
  ses_no_headers :: 'h
  ses_write_header :: "nat \<Rightarrow> 'h \<Rightarrow> bool \<Rightarrow> 'sess \<Rightarrow> 'sess option"
  ses_write_body :: "bytes \<Rightarrow> bool \<Rightarrow> 'sess \<Rightarrow> 'sess option"

text \<open>\<open>wd_woken\<close> lists the requests to which a released permit was handed.\<close>

record ('s, 'i, 'sess) world =
  wd_active :: 's
  wd_queued :: 's
  wd_woken :: "'i list"
  wd_metrics :: metrics
  wd_session :: 'sess
  wd_ctx :: request_context

record ('s, 'i, 'h, 'sess, 'json) libs =
  lib_semaphore :: "('s, 'i) semaphore_lib"
  lib_headers :: "'h header_lib"
  lib_session :: "('sess, 'h) session_lib"
  lib_memchr :: memchr_lib
  lib_codec :: "'json codec_lib"
  lib_digest :: digest_lib
  lib_parse_uri :: "bytes \<Rightarrow> uri option"

record proxy =
  px_config :: effective_config
  px_policy :: rewrite_policy

definition proxy_new :: "effective_config \<Rightarrow> proxy" where
  "proxy_new config = \<lparr>px_config = config, px_policy = effective_rewrite_policy config\<rparr>"

definition new_ctx :: "bytes \<Rightarrow> request_context" where
  "new_ctx request_id =
     \<lparr>cx_request_id = request_id, cx_method = [], cx_path = [], cx_extension = None, cx_decision = Bypass,
      cx_rewriter = None, cx_active_permit = False, cx_client_if_none_match = None, cx_suppress_body = False,
      cx_input_bytes = 0, cx_output_bytes = 0, cx_outcome = ''bypass''\<rparr>"

text \<open>Changes of one part of the world.\<close>

definition on_ctx :: "(request_context \<Rightarrow> request_context) \<Rightarrow> ('s, 'i, 'sess) world \<Rightarrow> ('s, 'i, 'sess) world" where
  "on_ctx f w = w\<lparr>wd_ctx := f (wd_ctx w)\<rparr>"

definition on_metrics :: "(metrics \<Rightarrow> metrics) \<Rightarrow> ('s, 'i, 'sess) world \<Rightarrow> ('s, 'i, 'sess) world" where
  "on_metrics f w = w\<lparr>wd_metrics := f (wd_metrics w)\<rparr>"

definition add_active :: "int \<Rightarrow> metrics \<Rightarrow> metrics" where
  "add_active n m = m\<lparr>mt_active := mt_active m + n\<rparr>"

definition add_queued :: "int \<Rightarrow> metrics \<Rightarrow> metrics" where
  "add_queued n m = m\<lparr>mt_queued := mt_queued m + n\<rparr>"

section \<open>Permits and the session\<close>

definition release_active :: "('s, 'i, 'h, 'sess, 'json) libs \<Rightarrow> ('s, 'i, 'sess) world \<Rightarrow> ('s, 'i, 'sess) world" where
  "release_active L w =
     (case sem_release (lib_semaphore L) (wd_active w) of
        (s, woken) \<Rightarrow> w\<lparr>wd_active := s, wd_woken := wd_woken w @ (case woken of Some j \<Rightarrow> [j] | None \<Rightarrow> [])\<rparr>)"

definition release_queued :: "('s, 'i, 'h, 'sess, 'json) libs \<Rightarrow> ('s, 'i, 'sess) world \<Rightarrow> ('s, 'i, 'sess) world" where
  "release_queued L w =
     (case sem_release (lib_semaphore L) (wd_queued w) of
        (s, woken) \<Rightarrow> w\<lparr>wd_queued := s, wd_woken := wd_woken w @ (case woken of Some j \<Rightarrow> [j] | None \<Rightarrow> [])\<rparr>)"

text \<open>\<open>if ctx.active_permit.take().is_some() { metrics.active.dec() }\<close>\<close>

definition take_active_permit :: "('s, 'i, 'h, 'sess, 'json) libs \<Rightarrow> ('s, 'i, 'sess) world \<Rightarrow> ('s, 'i, 'sess) world" where
  "take_active_permit L w =
     (if cx_active_permit (wd_ctx w)
      then on_metrics (add_active (-1)) (release_active L (on_ctx (\<lambda>c. c\<lparr>cx_active_permit := False\<rparr>) w))
      else w)"

definition disable_compression :: "('s, 'i, 'h, 'sess, 'json) libs \<Rightarrow> ('s, 'i, 'sess) world \<Rightarrow> ('s, 'i, 'sess) world" where
  "disable_compression L w = w\<lparr>wd_session := ses_adjust_compression (lib_session L) 0 (wd_session w)\<rparr>"

definition stop_rewrite ::
  "('s, 'i, 'h, 'sess, 'json) libs \<Rightarrow> bytes \<Rightarrow> ('s, 'i, 'sess) world \<Rightarrow> ('s, 'i, 'sess) world" where
  "stop_rewrite L outc w =
     take_active_permit L
       (on_ctx (\<lambda>c. c\<lparr>cx_rewriter := None, cx_outcome := outc\<rparr>) (disable_compression L w))"

definition insert_header :: "'h header_lib \<Rightarrow> bytes \<Rightarrow> bytes \<Rightarrow> 'h \<Rightarrow> (proxy_error, 'h) outcome" where
  "insert_header H name v h = (case hm_insert H name v h of Some h' \<Rightarrow> Ok h' | None \<Rightarrow> Err InvalidHTTPHeader)"

definition write_response ::
  "('s, 'i, 'h, 'sess, 'json) libs \<Rightarrow> nat \<Rightarrow> bytes \<Rightarrow> bytes \<Rightarrow> (bytes \<times> bytes) option \<Rightarrow> 'sess
    \<Rightarrow> (proxy_error, 'sess) outcome"
where
  "write_response L status content_type body extra_header session =
     bind_outcome (insert_header (lib_headers L) ''content-type'' content_type (ses_no_headers (lib_session L))) (\<lambda>h1.
     bind_outcome (insert_header (lib_headers L) ''content-length'' (decimal (length body)) h1) (\<lambda>h2.
     bind_outcome (case extra_header of
                     Some (name, v) \<Rightarrow> insert_header (lib_headers L) name v h2
                   | None \<Rightarrow> Ok h2) (\<lambda>h3.
     let end_of_stream = (body = [])
     in case ses_write_header (lib_session L) status h3 end_of_stream session of
          None \<Rightarrow> Err WriteError
        | Some session1 \<Rightarrow>
            if end_of_stream then Ok session1
            else (case ses_write_body (lib_session L) body True session1 of
                    None \<Rightarrow> Err WriteError
                  | Some session2 \<Rightarrow> Ok session2))))"

section \<open>Admission\<close>

text \<open>
  \<open>admit_rewrite\<close> returns \<open>Ok(true)\<close> or \<open>Ok(false)\<close>, fails, or waits at its \<open>await\<close>; \<open>admit_resume\<close>
  is what follows the \<open>await\<close>.
\<close>

datatype admitted = Admitted bool | Admit_Failed proxy_error | Admit_Panicked | Admit_Waits

definition admit_resume :: "('s, 'i, 'h, 'sess, 'json) libs \<Rightarrow> ('s, 'i, 'sess) world \<Rightarrow> ('s, 'i, 'sess) world" where
  "admit_resume L w =
     on_ctx (\<lambda>c. c\<lparr>cx_active_permit := True\<rparr>)
       (on_metrics (add_active 1) (on_metrics (add_queued (-1)) (release_queued L w)))"

definition admit_rewrite ::
  "('s, 'i, 'h, 'sess, 'json) libs \<Rightarrow> 'i \<Rightarrow> ('s, 'i, 'sess) world \<Rightarrow> ('s, 'i, 'sess) world \<times> admitted" where
  "admit_rewrite L i w =
     (case sem_try_acquire (lib_semaphore L) (wd_active w) of
        Some s \<Rightarrow>
          (on_ctx (\<lambda>c. c\<lparr>cx_active_permit := True\<rparr>) (on_metrics (add_active 1) (w\<lparr>wd_active := s\<rparr>)),
           Admitted True)
      | None \<Rightarrow>
          (case sem_try_acquire (lib_semaphore L) (wd_queued w) of
             None \<Rightarrow>
               let w1 = on_ctx (\<lambda>c. c\<lparr>cx_outcome := ''queue_full''\<rparr>) (disable_compression L w)
               in (case write_response L 503 ''text/plain; charset=utf-8''
                          (''rewrite queue is full'' @ [CHR 0x0A]) (Some (''retry-after'', ''1'')) (wd_session w1) of
                     Ok session \<Rightarrow> (w1\<lparr>wd_session := session\<rparr>, Admitted False)
                   | Err e \<Rightarrow> (w1, Admit_Failed e)
                   | Panic \<Rightarrow> (w1, Admit_Panicked))
           | Some q \<Rightarrow>
               let w1 = on_ctx (\<lambda>c. c\<lparr>cx_outcome := ''queued''\<rparr>)
                          (on_metrics (add_queued 1) (w\<lparr>wd_queued := q\<rparr>))
               in (case sem_acquire (lib_semaphore L) i (wd_active w1) of
                     (s, True) \<Rightarrow> (admit_resume L (w1\<lparr>wd_active := s\<rparr>), Admitted True)
                   | (s, False) \<Rightarrow> (w1\<lparr>wd_active := s\<rparr>, Admit_Waits))))"

section \<open>The request\<close>

text \<open>\<open>Ok(true)\<close> says that the response has been written; \<open>Ok(false)\<close> goes on to the upstream.\<close>

datatype filtered = Continue | Responded | Filter_Failed proxy_error | Filter_Panicked | Filter_Waits

definition request_id_header :: "'h header_lib \<Rightarrow> 'h \<Rightarrow> bytes option" where
  "request_id_header H headers =
     Option.bind (Option.bind (hm_get H ''x-request-id'' headers) (hv_to_str H)) (\<lambda>v.
       if v \<noteq> [] \<and> length v \<le> 128 then Some v else None)"

definition begin_request ::
  "('s, 'i, 'h, 'sess, 'json) libs \<Rightarrow> proxy \<Rightarrow> 'sess \<Rightarrow> request_context \<Rightarrow> request_context" where
  "begin_request L P session c =
     (let headers = ses_headers (lib_session L) session;
          meth = ses_method (lib_session L) session;
          path = ses_path (lib_session L) session
      in c\<lparr>cx_method := meth, cx_path := path,
           cx_request_id := (case request_id_header (lib_headers L) headers of
                               Some v \<Rightarrow> v | None \<Rightarrow> cx_request_id c),
           cx_client_if_none_match := hm_get (lib_headers L) ''if-none-match'' headers,
           cx_decision := decide (px_policy P) meth path\<rparr>)"

definition build_rewriter ::
  "('s, 'i, 'h, 'sess, 'json) libs \<Rightarrow> proxy \<Rightarrow> rewrite_profile \<Rightarrow> bytes \<Rightarrow> ('s, 'i, 'sess) world
    \<Rightarrow> ('s, 'i, 'sess) world \<times> filtered"
where
  "build_rewriter L P profile extension w =
     (case build_selected_response_rewriter (lib_memchr L) (lib_codec L) profile
             (ec_base_path (px_config P)) extension (ec_max_decoded_bytes (px_config P)) of
        Ok rewriter \<Rightarrow> (on_ctx (\<lambda>c. c\<lparr>cx_rewriter := Some rewriter\<rparr>) w, Continue)
      | Err cause \<Rightarrow> (w, Filter_Failed (InternalError ''failed to initialize rewrite pipeline''))
      | Panic \<Rightarrow> (w, Filter_Panicked))"

definition request_filter ::
  "('s, 'i, 'h, 'sess, 'json) libs \<Rightarrow> proxy \<Rightarrow> 'i \<Rightarrow> ('s, 'i, 'sess) world \<Rightarrow> ('s, 'i, 'sess) world \<times> filtered" where
  "request_filter L P i w =
     (let w1 = on_ctx (begin_request L P (wd_session w)) w
      in case cx_decision (wd_ctx w1) of
           Bypass \<Rightarrow> (disable_compression L w1, Continue)
         | Rewrite profile extension head_only \<Rightarrow>
             let w2 = on_ctx (\<lambda>c. c\<lparr>cx_extension := Some extension, cx_outcome := ''rewrite''\<rparr>) w1
             in if head_only then (w2, Continue)
                else (case admit_rewrite L i w2 of
                        (w3, Admitted True) \<Rightarrow> build_rewriter L P profile extension w3
                      | (w3, Admitted False) \<Rightarrow> (w3, Responded)
                      | (w3, Admit_Failed e) \<Rightarrow> (w3, Filter_Failed e)
                      | (w3, Admit_Panicked) \<Rightarrow> (w3, Filter_Panicked)
                      | (w3, Admit_Waits) \<Rightarrow> (w3, Filter_Waits)))"

text \<open>The rest of \<open>request_filter\<close> after it has waited for a permit.\<close>

definition request_filter_resume ::
  "('s, 'i, 'h, 'sess, 'json) libs \<Rightarrow> proxy \<Rightarrow> ('s, 'i, 'sess) world \<Rightarrow> ('s, 'i, 'sess) world \<times> filtered" where
  "request_filter_resume L P w =
     (case cx_decision (wd_ctx w) of
        Bypass \<Rightarrow> (w, Continue)
      | Rewrite profile extension head_only \<Rightarrow> build_rewriter L P profile extension (admit_resume L w))"

text \<open>The request to the upstream: its URI and its headers.\<close>

record 'h upstream_request =
  ur_uri :: uri
  ur_headers :: 'h

definition upstream_request_filter ::
  "('s, 'i, 'h, 'sess, 'json) libs \<Rightarrow> proxy \<Rightarrow> request_context \<Rightarrow> 'h upstream_request
    \<Rightarrow> (proxy_error, 'h upstream_request) outcome"
where
  "upstream_request_filter L P c r =
     bind_outcome (insert_header (lib_headers L) ''x-request-id'' (cx_request_id c) (ur_headers r)) (\<lambda>h1.
     bind_outcome
       (map_outcome_err (\<lambda>_. InternalError ''failed to prefix API request base path'')
         (api_uri_with_base_path (lib_parse_uri L) (ur_uri r) (ec_base_path (px_config P)))) (\<lambda>new_uri.
     let r1 = r\<lparr>ur_headers := h1, ur_uri := (case new_uri of Some u \<Rightarrow> u | None \<Rightarrow> ur_uri r)\<rparr>
     in case cx_decision c of
          Bypass \<Rightarrow> Ok r1
        | Rewrite profile extension head_only \<Rightarrow>
            bind_outcome (insert_header (lib_headers L) ''accept-encoding'' ''identity'' h1) (\<lambda>h2.
              let h3 = (if should_force_unconditional_full_response profile
                        then fold (hm_remove (lib_headers L))
                               [''if-none-match'', ''if-modified-since'', ''range'', ''if-range''] h2
                        else h2)
              in Ok (r1\<lparr>ur_headers := h3\<rparr>))))"

section \<open>The response\<close>

record 'h response =
  rsp_status :: nat
  rsp_headers :: 'h

definition STALE_HEADERS :: "bytes list" where
  "STALE_HEADERS =
     [''content-length'', ''content-encoding'', ''content-md5'', ''content-digest'', ''repr-digest'', ''digest'',
      ''content-range'', ''last-modified'', ''accept-ranges'']"

definition derived_etag ::
  "('s, 'i, 'h, 'sess, 'json) libs \<Rightarrow> proxy \<Rightarrow> request_context \<Rightarrow> 'h \<Rightarrow> bytes option" where
  "derived_etag L P c headers =
     map_option (\<lambda>etag. derive_etag (lib_digest L) etag (ec_base_path (px_config P))
                          (case cx_extension c of Some e \<Rightarrow> e | None \<Rightarrow> []))
       (Option.bind (hm_get (lib_headers L) ''etag'' headers) reliable_etag)"

text \<open>The last part of \<open>response_filter\<close>, from the removal of the headers on.\<close>

definition scrub_response ::
  "('s, 'i, 'h, 'sess, 'json) libs \<Rightarrow> bytes option \<Rightarrow> ('s, 'i, 'sess) world \<Rightarrow> 'h response
    \<Rightarrow> ('s, 'i, 'sess) world \<times> (proxy_error, 'h response) outcome"
where
  "scrub_response L etag w rsp =
     (let H = lib_headers L
      in case bind_outcome
                (insert_header H ''accept-ranges'' ''none'' (fold (hm_remove H) STALE_HEADERS (rsp_headers rsp)))
                (\<lambda>h1. case ensure_vary_accept_encoding H h1 of Some h2 \<Rightarrow> Ok h2 | None \<Rightarrow> Err InvalidHTTPHeader) of
           Err e \<Rightarrow> (w, Err e)
         | Panic \<Rightarrow> (w, Panic)
         | Ok h2 \<Rightarrow>
             (case etag of
                Some tag \<Rightarrow>
                  (case insert_header H ''etag'' tag h2 of
                     Err e \<Rightarrow> (w, Err e)
                   | Panic \<Rightarrow> (w, Panic)
                   | Ok h3 \<Rightarrow>
                       if if_none_match_matches H (cx_client_if_none_match (wd_ctx w)) tag
                       then (stop_rewrite L ''not_modified''
                               (on_ctx (\<lambda>c. c\<lparr>cx_suppress_body := True, cx_rewriter := None\<rparr>) w),
                             Ok (rsp\<lparr>rsp_status := 304, rsp_headers := hm_remove H ''content-type'' h3\<rparr>))
                       else (w, Ok (rsp\<lparr>rsp_headers := h3\<rparr>)))
              | None \<Rightarrow>
                  (case insert_header H ''cache-control'' ''no-store'' (hm_remove H ''etag'' h2) of
                     Err e \<Rightarrow> (w, Err e)
                   | Panic \<Rightarrow> (w, Panic)
                   | Ok h3 \<Rightarrow> (w, Ok (rsp\<lparr>rsp_headers := h3\<rparr>)))))"

definition response_filter ::
  "('s, 'i, 'h, 'sess, 'json) libs \<Rightarrow> proxy \<Rightarrow> ('s, 'i, 'sess) world \<Rightarrow> 'h response
    \<Rightarrow> ('s, 'i, 'sess) world \<times> (proxy_error, 'h response) outcome"
where
  "response_filter L P w rsp0 =
     (case insert_header (lib_headers L) ''x-request-id'' (cx_request_id (wd_ctx w)) (rsp_headers rsp0) of
        Err e \<Rightarrow> (w, Err e)
      | Panic \<Rightarrow> (w, Panic)
      | Ok h0 \<Rightarrow>
          let rsp = rsp0\<lparr>rsp_headers := h0\<rparr>;
              H = lib_headers L
          in case cx_decision (wd_ctx w) of
               Bypass \<Rightarrow> (w, Ok rsp)
             | Rewrite profile extension head_only \<Rightarrow>
                 if rsp_status rsp \<noteq> 200 then (stop_rewrite L ''upstream_status_bypass'' w, Ok rsp)
                 else if \<not> is_rewritable_content_type H profile (hm_get H ''content-type'' h0)
                 then (stop_rewrite L ''invalid_content_type'' w,
                       if selects_html_by_response_content_type profile then Ok rsp
                       else Err (HTTPStatus 502 ''target rewrite response has a non-text Content-Type''))
                 else if \<not> is_identity_encoding H (hm_get H ''content-encoding'' h0)
                 then (stop_rewrite L ''unexpected_content_encoding'' w,
                       Err (HTTPStatus 502 ''target rewrite response was not decoded by the upstream''))
                 else scrub_response L (derived_etag L P (wd_ctx w) h0) w rsp)"

section \<open>The body\<close>

text \<open>The counters are \<open>usize\<close>, on which \<open>+=\<close> wraps in a release build.\<close>

definition wrapping_add :: "nat \<Rightarrow> nat \<Rightarrow> nat" where
  "wrapping_add a b = (a + b) mod (usize_max + 1)"

definition rewrite_failed :: proxy_error where
  "rewrite_failed = HTTPStatus 502 ''response rewrite failed''"

definition response_body_filter ::
  "('s, 'i, 'h, 'sess, 'json) libs \<Rightarrow> bytes option \<Rightarrow> bool \<Rightarrow> request_context
    \<Rightarrow> request_context \<times> (proxy_error, bytes option) outcome"
where
  "response_body_filter L body end_of_stream c =
     (if cx_suppress_body c then (c, Ok None)
      else case cx_rewriter c of
             None \<Rightarrow> (c, Ok body)
           | Some rewriter \<Rightarrow>
               let input = (case body of Some b \<Rightarrow> b | None \<Rightarrow> []);
                   c1 = c\<lparr>cx_input_bytes := wrapping_add (cx_input_bytes c) (length input)\<rparr>
               in case pipeline_push (lib_memchr L) rewriter input of
                    (Err e, rewriter1) \<Rightarrow> (c1\<lparr>cx_rewriter := Some rewriter1\<rparr>, Err rewrite_failed)
                  | (Panic, rewriter1) \<Rightarrow> (c1\<lparr>cx_rewriter := Some rewriter1\<rparr>, Panic)
                  | (Ok pushed, rewriter1) \<Rightarrow>
                      (case (if end_of_stream then pipeline_finish (lib_memchr L) rewriter1 else (Ok [], rewriter1)) of
                         (Err e, rewriter2) \<Rightarrow> (c1\<lparr>cx_rewriter := Some rewriter2\<rparr>, Err rewrite_failed)
                       | (Panic, rewriter2) \<Rightarrow> (c1\<lparr>cx_rewriter := Some rewriter2\<rparr>, Panic)
                       | (Ok flushed, rewriter2) \<Rightarrow>
                           let output = pushed @ flushed
                           in (c1\<lparr>cx_rewriter := Some rewriter2,
                                  cx_output_bytes := wrapping_add (cx_output_bytes c) (length output)\<rparr>,
                               Ok (if output = [] then None else Some output))))"

section \<open>The end of a request\<close>

definition metrics_extension :: "proxy \<Rightarrow> request_context \<Rightarrow> bytes" where
  "metrics_extension P c =
     (case (cx_decision c, cx_extension c) of
        (Rewrite profile _ _, Some extension) \<Rightarrow> metrics_extension_label (px_policy P) profile extension
      | _ \<Rightarrow> ''none'')"

definition record_metrics :: "bytes \<Rightarrow> bytes \<Rightarrow> request_context \<Rightarrow> metrics \<Rightarrow> metrics" where
  "record_metrics outc label c m =
     (let m1 = m\<lparr>mt_requests := inc_by (outc, label) 1 (mt_requests m),
                 mt_durations := inc_by outc 1 (mt_durations m)\<rparr>
      in if 0 < cx_input_bytes c
         then m1\<lparr>mt_input_bytes := inc_by label (cx_input_bytes c) (mt_input_bytes m1),
                 mt_output_bytes := inc_by label (cx_output_bytes c) (mt_output_bytes m1)\<rparr>
         else m1)"

definition logging ::
  "('s, 'i, 'h, 'sess, 'json) libs \<Rightarrow> proxy \<Rightarrow> bool \<Rightarrow> ('s, 'i, 'sess) world \<Rightarrow> ('s, 'i, 'sess) world" where
  "logging L P failed w =
     (let w1 = take_active_permit L w;
          outc = (if failed then ''error'' else cx_outcome (wd_ctx w1))
      in on_metrics (record_metrics outc (metrics_extension P (wd_ctx w1)) (wd_ctx w1)) w1)"

text \<open>
  The line that \<open>logging\<close> writes, with \<open>error!\<close> where the request has failed and \<open>info!\<close> otherwise;
  the error is given by its text, the time since the start of the request in milliseconds.
\<close>

record log_line =
  ll_error :: "bytes option"
  ll_request_id :: bytes
  ll_method :: bytes
  ll_path :: bytes
  ll_extension :: bytes
  ll_outcome :: bytes
  ll_elapsed_ms :: nat

definition completed_line :: "bytes option \<Rightarrow> nat \<Rightarrow> request_context \<Rightarrow> log_line" where
  "completed_line error elapsed c =
     \<lparr>ll_error = error, ll_request_id = cx_request_id c, ll_method = cx_method c, ll_path = cx_path c,
      ll_extension = (case cx_extension c of Some e \<Rightarrow> e | None \<Rightarrow> ''none''),
      ll_outcome = (if error \<noteq> None then ''error'' else cx_outcome c),
      ll_elapsed_ms = elapsed mod 2 ^ 64\<rparr>"

section \<open>The connection to the upstream\<close>

definition COMPRESSION_LEVEL :: nat where "COMPRESSION_LEVEL = 6"

text \<open>The timeout in seconds.\<close>

definition UPSTREAM_CONNECT_TIMEOUT :: nat where "UPSTREAM_CONNECT_TIMEOUT = 3"

record http_peer =
  peer_address :: socket_addr
  peer_tls :: bool
  peer_sni :: bytes
  peer_connection_timeout :: "nat option"
  peer_total_connection_timeout :: "nat option"

definition upstream_peer :: "proxy \<Rightarrow> http_peer" where
  "upstream_peer P =
     \<lparr>peer_address = ec_upstream (px_config P), peer_tls = False, peer_sni = ''localhost'',
      peer_connection_timeout = Some UPSTREAM_CONNECT_TIMEOUT,
      peer_total_connection_timeout = Some UPSTREAM_CONNECT_TIMEOUT\<rparr>"

text \<open>The modules of a new session: response compression with its level.\<close>

definition init_downstream_modules :: "nat list \<Rightarrow> nat list" where
  "init_downstream_modules modules = modules @ [COMPRESSION_LEVEL]"

end
