(* ===== verification/Sample_Proxy.thy ===== *)
theory Sample_Proxy
  imports Handler Profiles_Correct Headers_Correct Config_Correct Admission_Correct
begin

text \<open>
  What the handlers rely on, collected for all parameters, and a concrete proxy on which the
  properties of the handlers are instantiated.
\<close>

definition libs_ok :: "('s, 'i, 'h, 'sess, 'json) libs \<Rightarrow> bool" where
  [wf_simps]: "libs_ok L \<longleftrightarrow>
     semaphore_ok (lib_semaphore L) \<and> header_ok (lib_headers L) \<and> memchr_ok (lib_memchr L)
     \<and> digest_ok (lib_digest L)
     \<and> (\<forall>n. hm_get_all (lib_headers L) n (ses_no_headers (lib_session L)) = [])"

record sample_session =
  ss_method :: bytes
  ss_path :: bytes
  ss_headers :: "(bytes \<times> bytes) list"
  ss_compression :: nat
  ss_written :: "bytes list"

definition sample_session_lib :: "(sample_session, (bytes \<times> bytes) list) session_lib" where
  "sample_session_lib =
     \<lparr>ses_method = ss_method, ses_path = ss_path, ses_headers = ss_headers,
      ses_adjust_compression = (\<lambda>n s. s\<lparr>ss_compression := n\<rparr>), ses_no_headers = [],
      ses_write_header = (\<lambda>status h eos s. Some s),
      ses_write_body = (\<lambda>b eos s. Some (s\<lparr>ss_written := ss_written s @ [b]\<rparr>))\<rparr>"

definition sample_libs :: "(nat \<times> nat list, nat, (bytes \<times> bytes) list, sample_session, bytes) libs" where
  "sample_libs =
     \<lparr>lib_semaphore = fifo_lib, lib_headers = list_header_lib, lib_session = sample_session_lib,
      lib_memchr = std_memchr, lib_codec = sample_codec, lib_digest = sample_digest, lib_parse_uri = sample_parse\<rparr>"

lemma sample_libs_ok: "libs_ok sample_libs"
  by (simp add: libs_ok_def sample_libs_def fifo_lib_ok list_header_lib_ok std_memchr_ok sample_digest_ok)
    (simp add: list_header_lib_def sample_session_lib_def al_get_all_def)

definition sample_effective_config :: effective_config where
  "sample_effective_config =
     \<lparr>ec_base_path = ''/b'', ec_listen = \<lparr>sa_ip = V4 [0, 0, 0, 0], sa_scope = 0, sa_port = 8080\<rparr>,
      ec_admin_listen = \<lparr>sa_ip = V4 [0, 0, 0, 0], sa_scope = 0, sa_port = 9090\<rparr>,
      ec_upstream = \<lparr>sa_ip = V4 [127, 0, 0, 1], sa_scope = 0, sa_port = 8000\<rparr>,
      ec_enabled_extensions = [''*''], ec_disabled_extensions = [], ec_enabled_rules = set ALL_RULES,
      ec_max_decoded_bytes = 80, ec_max_concurrent = 1, ec_max_queued = 0\<rparr>"

definition sample_proxy :: proxy where
  "sample_proxy = proxy_new sample_effective_config"

lemma sample_config_wf: "config_wf (px_config sample_proxy)"
proof -
  have "CHR ''%'' \<notin> set ''/b''" by simp
  from pct_bytes_id [OF this] have fix_b: "(pct_bytes ^^ i) ''/b'' = ''/b''" for i by (induction i) simp_all
  have "\<not> unsafe_text ''/b''" "utf8_valid ''/b''" "length (str_chars ''/b'') \<le> 1024" "\<not> suffix ''/'' ''/b''"
    by code_simp+
  then have "safe_base_path ''/b''" by (simp add: safe_base_path_def fix_b del: str_chars.simps)
  then show ?thesis
    by (simp add: config_wf_def sample_proxy_def proxy_new_def sample_effective_config_def socket_addrs_overlap_def
        is_unspecified_def extension_list_ok_def addr_wf_def octets_wf_def)
qed

text \<open>A world with a fresh request, one permit and no place in the queue.\<close>

definition sample_world :: "bytes \<Rightarrow> (nat \<times> nat list, nat, sample_session) world" where
  "sample_world path =
     \<lparr>wd_active = (1, []), wd_queued = (0, []), wd_woken = [], wd_metrics = metrics_new,
      wd_session = \<lparr>ss_method = ''GET'', ss_path = path, ss_headers = [(''if-none-match'', ''*'')],
                    ss_compression = 6, ss_written = []\<rparr>,
      wd_ctx = new_ctx ''id''\<rparr>"

definition bundle_path :: bytes where
  "bundle_path = ''/b/jsbundles/x/dist/x/a.js''"

abbreviation admitted_world :: "(nat \<times> nat list, nat, sample_session) world" where
  "admitted_world \<equiv> fst (request_filter sample_libs sample_proxy 0 (sample_world bundle_path))"

lemma sample_decision: "decide (px_policy sample_proxy) ''GET'' bundle_path = Rewrite JsBundle ''x'' False"
  by code_simp

lemma sample_request: "request_filter sample_libs sample_proxy 0 (sample_world bundle_path) = (admitted_world, Continue)"
proof -
  have "snd (request_filter sample_libs sample_proxy 0 (sample_world bundle_path)) = Continue" by code_simp
  then show ?thesis by (metis prod.collapse)
qed

end
