(* ===== verification/Handler_Correct.thy ===== *)
theory Handler_Correct
  imports Sample_Proxy
begin

text \<open>
  What the handlers do together: permits and gauges balance over a request that does not wait,
  and the context that the first handler leaves to the others.
\<close>

section \<open>Parts of the world\<close>

lemma on_ctx_sel [simp]:
  "wd_active (on_ctx f w) = wd_active w" "wd_queued (on_ctx f w) = wd_queued w"
  "wd_woken (on_ctx f w) = wd_woken w" "wd_metrics (on_ctx f w) = wd_metrics w"
  "wd_session (on_ctx f w) = wd_session w" "wd_ctx (on_ctx f w) = f (wd_ctx w)"
  by (simp_all add: on_ctx_def)

lemma on_metrics_sel [simp]:
  "wd_active (on_metrics f w) = wd_active w" "wd_queued (on_metrics f w) = wd_queued w"
  "wd_woken (on_metrics f w) = wd_woken w" "wd_metrics (on_metrics f w) = f (wd_metrics w)"
  "wd_session (on_metrics f w) = wd_session w" "wd_ctx (on_metrics f w) = wd_ctx w"
  by (simp_all add: on_metrics_def)

lemma disable_compression_sel [simp]:
  "wd_active (disable_compression L w) = wd_active w" "wd_queued (disable_compression L w) = wd_queued w"
  "wd_woken (disable_compression L w) = wd_woken w" "wd_metrics (disable_compression L w) = wd_metrics w"
  "wd_ctx (disable_compression L w) = wd_ctx w"
  by (simp_all add: disable_compression_def)

lemma gauges_sel [simp]:
  "mt_active (add_active n m) = mt_active m + n" "mt_queued (add_active n m) = mt_queued m"
  "mt_active (add_queued n m) = mt_active m" "mt_queued (add_queued n m) = mt_queued m + n"
  "mt_requests (add_active n m) = mt_requests m" "mt_requests (add_queued n m) = mt_requests m"
  "mt_durations (add_active n m) = mt_durations m" "mt_durations (add_queued n m) = mt_durations m"
  by (simp_all add: add_active_def add_queued_def)

lemma release_active_sel [simp]:
  "wd_queued (release_active L w) = wd_queued w" "wd_metrics (release_active L w) = wd_metrics w"
  "wd_session (release_active L w) = wd_session w" "wd_ctx (release_active L w) = wd_ctx w"
  by (simp_all add: release_active_def split: prod.split)

lemma release_queued_sel [simp]:
  "wd_active (release_queued L w) = wd_active w" "wd_metrics (release_queued L w) = wd_metrics w"
  "wd_session (release_queued L w) = wd_session w" "wd_ctx (release_queued L w) = wd_ctx w"
  by (simp_all add: release_queued_def split: prod.split)

section \<open>Permits and gauges\<close>

text \<open>
  The permits of the active semaphore that are available, held by this request, or handed by it
  to a waiter; the gauge without this request; and the same for the queue, whose permits are
  never held across handlers.
\<close>

definition active_total :: "('s, 'i, 'h, 'sess, 'json) libs \<Rightarrow> ('s, 'i, 'sess) world \<Rightarrow> nat" where
  "active_total L w =
     sem_permits (lib_semaphore L) (wd_active w) + of_bool (cx_active_permit (wd_ctx w)) + length (wd_woken w)"

definition balance ::
  "('s, 'i, 'h, 'sess, 'json) libs \<Rightarrow> ('s, 'i, 'sess) world \<Rightarrow> nat \<times> int \<times> nat \<times> int \<times> (bytes \<times> bytes \<Rightarrow> nat)" where
  "balance L w =
     (active_total L w, mt_active (wd_metrics w) - of_bool (cx_active_permit (wd_ctx w)),
      sem_permits (lib_semaphore L) (wd_queued w), mt_queued (wd_metrics w), mt_requests (wd_metrics w))"

definition no_queue_waiters :: "('s, 'i, 'h, 'sess, 'json) libs \<Rightarrow> ('s, 'i, 'sess) world \<Rightarrow> bool" where
  "no_queue_waiters L w \<longleftrightarrow> sem_waiting (lib_semaphore L) (wd_queued w) = []"

lemma balance_on_ctx: "cx_active_permit (f (wd_ctx w)) = cx_active_permit (wd_ctx w) \<Longrightarrow> balance L (on_ctx f w) = balance L w"
  by (simp add: balance_def active_total_def)

lemma balance_compression [simp]: "balance L (disable_compression L w) = balance L w"
  by (simp add: balance_def active_total_def)

lemma take_permit_balance:
  assumes "libs_ok L"
  shows "balance L (take_active_permit L w) = balance L w"
    and "\<not> cx_active_permit (wd_ctx (take_active_permit L w))"
    and "wd_queued (take_active_permit L w) = wd_queued w"
    and "wd_ctx (take_active_permit L w) = (wd_ctx w)\<lparr>cx_active_permit := False\<rparr>"
    and "wd_session (take_active_permit L w) = wd_session w"
proof -
  obtain s r where rel: "sem_release (lib_semaphore L) (wd_active w) = (s, r)" by fastforce
  from assms have "semaphore_ok (lib_semaphore L)" by (simp add: libs_ok_def)
  from sem_release_cases [OF this rel] rel show "balance L (take_active_permit L w) = balance L w"
    by (auto simp: balance_def active_total_def take_active_permit_def release_active_def)
qed (auto simp: take_active_permit_def)

lemma stop_rewrite_balance:
  assumes "libs_ok L"
  shows "balance L (stop_rewrite L outc w) = balance L w"
    and "wd_queued (stop_rewrite L outc w) = wd_queued w"
    and "wd_ctx (stop_rewrite L outc w) =
      (wd_ctx w)\<lparr>cx_rewriter := None, cx_outcome := outc, cx_active_permit := False\<rparr>"
  by (simp_all add: stop_rewrite_def take_permit_balance [OF assms] balance_on_ctx)

text \<open>An insertion of visible text never fails.\<close>

lemma insert_visible:
  assumes "header_ok H" "visible_ascii v"
  obtains h' where "insert_header H n v h = Ok h'" "hm_insert H n v h = Some h'"
    "\<And>m. hm_get_all H m h' = (if m = n then [v] else hm_get_all H m h)"
proof -
  from assms obtain h' where h: "hm_insert H n v h = Some h'" unfolding header_ok_def by blast
  then have "insert_header H n v h = Ok h'" by (simp add: insert_header_def)
  with h header_okD(1) [OF assms(1)] that show ?thesis by (metis header_map.get_all_put)
qed

lemma insert_header_not_Panic [simp]: "insert_header H n v h \<noteq> Panic"
  by (simp add: insert_header_def split: option.split)

lemma write_response_not_Panic [simp]: "write_response L status ct body extra session \<noteq> Panic"
  by (auto simp: write_response_def bind_outcome_Panic_iff Let_def split: option.splits)

text \<open>Admission, run without interruption.\<close>

lemma admit_resume_balance:
  assumes "libs_ok L" "no_queue_waiters L w" "\<not> cx_active_permit (wd_ctx w)"
  shows "sem_permits (lib_semaphore L) (wd_queued (admit_resume L w)) =
      Suc (sem_permits (lib_semaphore L) (wd_queued w))"
    and "sem_waiting (lib_semaphore L) (wd_queued (admit_resume L w)) = []"
    and "active_total L (admit_resume L w) = Suc (active_total L w)"
    and "wd_metrics (admit_resume L w) = add_active 1 (add_queued (-1) (wd_metrics w))"
    and "wd_ctx (admit_resume L w) = (wd_ctx w)\<lparr>cx_active_permit := True\<rparr>"
proof -
  obtain s r where rel: "sem_release (lib_semaphore L) (wd_queued w) = (s, r)" by fastforce
  from assms have "semaphore_ok (lib_semaphore L)" by (simp add: libs_ok_def)
  from sem_release_cases [OF this rel] assms(2)
  have s: "r = None" "sem_permits (lib_semaphore L) s = Suc (sem_permits (lib_semaphore L) (wd_queued w))"
    "sem_waiting (lib_semaphore L) s = []"
    by (auto simp: no_queue_waiters_def)
  show "sem_permits (lib_semaphore L) (wd_queued (admit_resume L w)) =
      Suc (sem_permits (lib_semaphore L) (wd_queued w))"
    "sem_waiting (lib_semaphore L) (wd_queued (admit_resume L w)) = []"
    "active_total L (admit_resume L w) = Suc (active_total L w)"
    using s rel assms(3) by (simp_all add: admit_resume_def active_total_def release_queued_def)
qed (simp_all add: admit_resume_def)

lemma admit_rewrite_cases:
  assumes "libs_ok L" "no_queue_waiters L w" "\<not> cx_active_permit (wd_ctx w)" "admit_rewrite L i w = (w', r)"
  shows "r \<noteq> Admit_Panicked
    \<and> (r \<noteq> Admit_Waits \<longrightarrow> balance L w' = balance L w \<and> no_queue_waiters L w')
    \<and> (\<exists>outc permit. wd_ctx w' = (wd_ctx w)\<lparr>cx_active_permit := permit, cx_outcome := outc\<rparr>
         \<and> (permit \<longleftrightarrow> r = Admitted True) \<and> outc \<in> {cx_outcome (wd_ctx w), ''queued'', ''queue_full''})"
proof -
  from assms(1) have sem: "semaphore_ok (lib_semaphore L)" by (simp add: libs_ok_def)
  have permit: "(wd_ctx w)\<lparr>cx_active_permit := False\<rparr> = wd_ctx w"
    using assms(3) by (cases "wd_ctx w") simp
  show ?thesis
  proof (cases "sem_try_acquire (lib_semaphore L) (wd_active w)")
    case (Some s)
    with assms(4) sem_try_Some [OF sem Some] assms(2,3) show ?thesis
      by (auto simp: admit_rewrite_def balance_def active_total_def no_queue_waiters_def
          intro!: exI [of _ True] exI [of _ "cx_outcome (wd_ctx w)"])
  next
    case none: None
    show ?thesis
    proof (cases "sem_try_acquire (lib_semaphore L) (wd_queued w)")
      case None
      define w1 where "w1 = on_ctx (\<lambda>c. c\<lparr>cx_outcome := ''queue_full''\<rparr>) (disable_compression L w)"
      from none None assms(4) have
        "(\<exists>session. w' = w1\<lparr>wd_session := session\<rparr>) \<and> r = Admitted False \<or> w' = w1 \<and> (\<exists>e. r = Admit_Failed e)"
        by (simp add: admit_rewrite_def Let_def w1_def split: outcome.splits) blast+
      then have w': "balance L w' = balance L w1 \<and> wd_queued w' = wd_queued w1 \<and> wd_ctx w' = wd_ctx w1"
        and r: "r \<noteq> Admit_Panicked" "r \<noteq> Admit_Waits" "r \<noteq> Admitted True"
        by (auto simp: balance_def active_total_def)
      have "balance L w1 = balance L w" by (simp add: w1_def balance_on_ctx)
      moreover have "wd_ctx w1 = (wd_ctx w)\<lparr>cx_active_permit := False, cx_outcome := ''queue_full''\<rparr>"
        using permit by (simp add: w1_def)
      ultimately show ?thesis
        using w' r assms(2) by (auto simp: no_queue_waiters_def w1_def)
    next
      case (Some q)
      define w1 where "w1 = on_ctx (\<lambda>c. c\<lparr>cx_outcome := ''queued''\<rparr>)
        (on_metrics (add_queued 1) (w\<lparr>wd_queued := q\<rparr>))"
      obtain s g where acq: "sem_acquire (lib_semaphore L) i (wd_active w1) = (s, g)" by fastforce
      with none Some assms(4) have r: "(w', r) =
          (if g then (admit_resume L (w1\<lparr>wd_active := s\<rparr>), Admitted True) else (w1\<lparr>wd_active := s\<rparr>, Admit_Waits))"
        by (simp add: admit_rewrite_def w1_def Let_def split: bool.splits)
      have q: "sem_permits (lib_semaphore L) (wd_queued w) = Suc (sem_permits (lib_semaphore L) q)"
        "sem_waiting (lib_semaphore L) q = []"
        using sem_try_Some [OF sem Some] assms(2) by (auto simp: no_queue_waiters_def)
      have "sem_permits (lib_semaphore L) (wd_active w) = 0" using none sem_try_None [OF sem] by blast
      with sem_acquire_cases [OF sem acq] have "\<not> g" by (auto simp: w1_def)
      with r have r: "w' = w1\<lparr>wd_active := s\<rparr>" "r = Admit_Waits" by simp_all
      moreover have "wd_ctx w1 = (wd_ctx w)\<lparr>cx_active_permit := False, cx_outcome := ''queued''\<rparr>"
        using permit by (simp add: w1_def)
      ultimately show ?thesis by auto
    qed
  qed
qed

section \<open>From the first handler to the last\<close>

text \<open>
  What the server does with one request that does not have to wait: it calls \<open>request_filter\<close> once,
  and then response and body filters in whatever number and order, whatever their results. Requests
  that wait and are resumed are the subject of \<open>Lifecycle_Correct\<close> and \<open>Concurrent\<close>.
\<close>

inductive serves ::
  "('s, 'i, 'h, 'sess, 'json) libs \<Rightarrow> proxy \<Rightarrow> 'i \<Rightarrow> ('s, 'i, 'sess) world \<Rightarrow> ('s, 'i, 'sess) world \<Rightarrow> bool"
  for L P i w0 where
  serves_request: "request_filter L P i w0 = (w, r) \<Longrightarrow> r \<noteq> Filter_Waits \<Longrightarrow> serves L P i w0 w"
| serves_response: "serves L P i w0 w \<Longrightarrow> response_filter L P w rsp = (w', x) \<Longrightarrow> serves L P i w0 w'"
| serves_body: "serves L P i w0 w \<Longrightarrow> response_body_filter L body eos (wd_ctx w) = (c, x) \<Longrightarrow>
    serves L P i w0 (w\<lparr>wd_ctx := c\<rparr>)"

inductive_cases serves_cases: "serves L P i w0 w"

definition outcome_names :: "bytes set" where
  "outcome_names = {''bypass'', ''rewrite'', ''queued'', ''queue_full'', ''upstream_status_bypass'',
     ''invalid_content_type'', ''unexpected_content_encoding'', ''not_modified''}"

text \<open>What every handler keeps of the context of a request.\<close>

definition ctx_kept :: "request_context \<Rightarrow> request_context \<Rightarrow> bool" where
  "ctx_kept c c' \<longleftrightarrow> cx_decision c' = cx_decision c \<and> cx_extension c' = cx_extension c
     \<and> cx_request_id c' = cx_request_id c \<and> cx_method c' = cx_method c \<and> cx_path c' = cx_path c
     \<and> (cx_outcome c' = cx_outcome c \<or> cx_outcome c' \<in> outcome_names)"

lemma build_rewriter_result:
  assumes "libs_ok L"
  shows "\<exists>p. build_selected_response_rewriter (lib_memchr L) (lib_codec L) profile (ec_base_path (px_config P))
        extension (ec_max_decoded_bytes (px_config P)) = Ok p
    \<and> build_rewriter L P profile extension w = (on_ctx (\<lambda>c. c\<lparr>cx_rewriter := Some p\<rparr>) w, Continue)"
  by (simp add: build_rewriter_def build_selected_Ok)

text \<open>
  The context of a request that goes on to the upstream: a rewriter and a permit exactly for a
  rewritten request with a body.
\<close>

definition request_ready :: "('s, 'i, 'h, 'sess, 'json) libs \<Rightarrow> proxy \<Rightarrow> request_context \<Rightarrow> bool" where
  "request_ready L P c \<longleftrightarrow>
     (case cx_decision c of
        Rewrite profile extension False \<Rightarrow>
          cx_active_permit c \<and> cx_extension c = Some extension
          \<and> (\<exists>p. cx_rewriter c = Some p
              \<and> build_selected_response_rewriter (lib_memchr L) (lib_codec L) profile
                  (ec_base_path (px_config P)) extension (ec_max_decoded_bytes (px_config P)) = Ok p)
      | Rewrite profile extension True \<Rightarrow>
          \<not> cx_active_permit c \<and> cx_extension c = Some extension \<and> cx_rewriter c = None
      | Bypass \<Rightarrow> \<not> cx_active_permit c \<and> cx_extension c = None \<and> cx_rewriter c = None)"

lemma request_filter_result:
  assumes "libs_ok L" "no_queue_waiters L w" "wd_ctx w = new_ctx rid" "request_filter L P i w = (w', r)"
  shows "r \<noteq> Filter_Panicked
    \<and> (r \<noteq> Filter_Waits \<longrightarrow> balance L w' = balance L w \<and> no_queue_waiters L w')
    \<and> cx_outcome (wd_ctx w') \<in> outcome_names
    \<and> cx_decision (wd_ctx w') =
      decide (px_policy P) (ses_method (lib_session L) (wd_session w)) (ses_path (lib_session L) (wd_session w))
    \<and> (r = Continue \<longrightarrow> request_ready L P (wd_ctx w'))
    \<and> \<not> cx_suppress_body (wd_ctx w')"
proof -
  define w1 where "w1 = on_ctx (begin_request L P (wd_session w)) w"
  have c1: "cx_outcome (wd_ctx w1) = ''bypass''" "cx_active_permit (wd_ctx w1) = False"
    "cx_rewriter (wd_ctx w1) = None" "cx_extension (wd_ctx w1) = None" "\<not> cx_suppress_body (wd_ctx w1)"
    "balance L w1 = balance L w" "no_queue_waiters L w1"
    "cx_decision (wd_ctx w1) =
      decide (px_policy P) (ses_method (lib_session L) (wd_session w)) (ses_path (lib_session L) (wd_session w))"
    using assms(2,3)
    by (simp_all add: w1_def begin_request_def Let_def new_ctx_def no_queue_waiters_def balance_on_ctx)
  show ?thesis
  proof (cases "cx_decision (wd_ctx w1)")
    case Bypass
    then have "w' = disable_compression L w1" "r = Continue"
      using assms(4) by (simp_all add: request_filter_def w1_def [symmetric])
    then show ?thesis using c1 Bypass by (simp add: no_queue_waiters_def outcome_names_def request_ready_def)
  next
    case (Rewrite profile extension head)
    define w2 where "w2 = on_ctx (\<lambda>c. c\<lparr>cx_extension := Some extension, cx_outcome := ''rewrite''\<rparr>) w1"
    have c2: "cx_outcome (wd_ctx w2) = ''rewrite''" "\<not> cx_active_permit (wd_ctx w2)"
      "cx_rewriter (wd_ctx w2) = None" "cx_extension (wd_ctx w2) = Some extension"
      "balance L w2 = balance L w" "no_queue_waiters L w2" "cx_decision (wd_ctx w2) = cx_decision (wd_ctx w1)"
      "\<not> cx_suppress_body (wd_ctx w2)"
      using c1 by (simp_all add: w2_def no_queue_waiters_def balance_on_ctx)
    show ?thesis
    proof (cases head)
      case True
      with assms(4) Rewrite have "w' = w2" "r = Continue"
        by (simp_all add: request_filter_def w1_def [symmetric] w2_def)
      with c2 Rewrite True show ?thesis by (simp add: outcome_names_def request_ready_def c1(8) [symmetric])
    next
      case False
      obtain w3 a where adm: "admit_rewrite L i w2 = (w3, a)" by fastforce
      from admit_rewrite_cases [OF assms(1) c2(6,2) adm] obtain outc permit
        where a: "a \<noteq> Admit_Panicked" "a \<noteq> Admit_Waits \<longrightarrow> balance L w3 = balance L w2 \<and> no_queue_waiters L w3"
          and c3: "wd_ctx w3 = (wd_ctx w2)\<lparr>cx_active_permit := permit, cx_outcome := outc\<rparr>"
            "permit \<longleftrightarrow> a = Admitted True" "outc \<in> {cx_outcome (wd_ctx w2), ''queued'', ''queue_full''}"
        by blast
      have res: "(w', r) = (case a of
            Admitted True \<Rightarrow> build_rewriter L P profile extension w3
          | Admitted False \<Rightarrow> (w3, Responded) | Admit_Failed e \<Rightarrow> (w3, Filter_Failed e)
          | Admit_Panicked \<Rightarrow> (w3, Filter_Panicked) | Admit_Waits \<Rightarrow> (w3, Filter_Waits))"
        using assms(4) Rewrite False adm
        by (simp add: request_filter_def w1_def [symmetric] w2_def [symmetric] Let_def split: admitted.split bool.split)
      have outc: "outc \<in> outcome_names" using c3(3) c2(1) by (auto simp: outcome_names_def)
      show ?thesis
      proof (cases "a = Admitted True")
        case True
        obtain p where p: "build_selected_response_rewriter (lib_memchr L) (lib_codec L) profile
            (ec_base_path (px_config P)) extension (ec_max_decoded_bytes (px_config P)) = Ok p"
          "build_rewriter L P profile extension w3 = (on_ctx (\<lambda>c. c\<lparr>cx_rewriter := Some p\<rparr>) w3, Continue)"
          using build_rewriter_result [OF assms(1)] by blast
        with res True a c3 c2 outc Rewrite False show ?thesis
          by (simp add: balance_on_ctx no_queue_waiters_def request_ready_def c1(8) [symmetric])
      next
        case False
        with res a c3 c2 outc show ?thesis
          by (cases a) (auto simp: c1(8) [symmetric] split: bool.splits)
      qed
    qed
  qed
qed

lemma scrub_response_result:
  assumes "libs_ok L" "scrub_response L etag w rsp = (w', x)"
  shows "balance L w' = balance L w \<and> wd_queued w' = wd_queued w \<and> ctx_kept (wd_ctx w) (wd_ctx w')"
proof -
  have "w' = w \<or> w' = stop_rewrite L ''not_modified'' (on_ctx (\<lambda>c. c\<lparr>cx_suppress_body := True, cx_rewriter := None\<rparr>) w)"
    using assms(2) by (auto simp: scrub_response_def Let_def split: outcome.splits option.splits if_splits)
  then show ?thesis
    by (auto simp: stop_rewrite_balance [OF assms(1)] balance_on_ctx ctx_kept_def outcome_names_def)
qed

lemma response_filter_result:
  assumes "libs_ok L" "response_filter L P w rsp = (w', x)"
  shows "balance L w' = balance L w \<and> wd_queued w' = wd_queued w \<and> ctx_kept (wd_ctx w) (wd_ctx w')"
proof -
  have "w' = w \<or> (\<exists>outc \<in> outcome_names. w' = stop_rewrite L outc w)
      \<or> (\<exists>etag r. scrub_response L etag w r = (w', x))"
    using assms(2)
    by (auto simp: response_filter_def Let_def outcome_names_def
        split: outcome.splits rewrite_decision.splits if_splits)
  then show ?thesis
  proof (elim disjE exE bexE)
    fix etag r assume "scrub_response L etag w r = (w', x)"
    then show ?thesis by (rule scrub_response_result [OF assms(1)])
  qed (simp_all add: stop_rewrite_balance [OF assms(1)] ctx_kept_def)
qed

lemma body_filter_result:
  "response_body_filter L body eos c = (c', x) \<Longrightarrow> ctx_kept c c' \<and> cx_active_permit c' = cx_active_permit c"
  by (auto simp: response_body_filter_def ctx_kept_def Let_def
      split: if_splits option.splits prod.splits outcome.splits)

lemma serves_result:
  assumes "serves L P i w0 w" "libs_ok L" "no_queue_waiters L w0" "wd_ctx w0 = new_ctx rid"
  shows "balance L w = balance L w0 \<and> no_queue_waiters L w \<and> cx_outcome (wd_ctx w) \<in> outcome_names
    \<and> cx_decision (wd_ctx w) =
      decide (px_policy P) (ses_method (lib_session L) (wd_session w0)) (ses_path (lib_session L) (wd_session w0))"
  using assms
proof (induction rule: serves.induct)
  case (serves_request w r)
  from request_filter_result [OF serves_request.prems serves_request.hyps(1)] serves_request.hyps(2) show ?case by simp
next
  case (serves_response w rsp w' x)
  from response_filter_result [OF serves_response.prems(1) serves_response.hyps(2)] serves_response.IH [OF serves_response.prems]
  show ?case by (auto simp: ctx_kept_def no_queue_waiters_def)
next
  case (serves_body w body eos c x)
  from body_filter_result [OF serves_body.hyps(2)] serves_body.IH [OF serves_body.prems]
  show ?case by (auto simp: ctx_kept_def no_queue_waiters_def balance_def active_total_def)
qed

lemma record_metrics_sel [simp]:
  "mt_active (record_metrics outc label c m) = mt_active m" "mt_queued (record_metrics outc label c m) = mt_queued m"
  "mt_requests (record_metrics outc label c m) = inc_by (outc, label) 1 (mt_requests m)"
  by (simp_all add: record_metrics_def Let_def)

lemma logging_balance:
  assumes "libs_ok L" "no_queue_waiters L w0" "wd_ctx w0 = new_ctx rid" "serves L P i w0 w"
    and "w' = logging L P failed w"
  shows "\<not> cx_active_permit (wd_ctx w')
    \<and> sem_permits (lib_semaphore L) (wd_active w') + length (wd_woken w') =
        sem_permits (lib_semaphore L) (wd_active w0) + length (wd_woken w0)
    \<and> sem_permits (lib_semaphore L) (wd_queued w') = sem_permits (lib_semaphore L) (wd_queued w0)
    \<and> mt_active (wd_metrics w') = mt_active (wd_metrics w0)
    \<and> mt_queued (wd_metrics w') = mt_queued (wd_metrics w0)
    \<and> (\<exists>outc \<in> insert ''error'' outcome_names. outc = (if failed then ''error'' else cx_outcome (wd_ctx w))
         \<and> mt_requests (wd_metrics w') = inc_by (outc, metrics_extension P (wd_ctx w)) 1 (mt_requests (wd_metrics w0)))"
proof -
  let ?t = "take_active_permit L w"
  note t = take_permit_balance [OF assms(1), of w]
  from serves_result [OF assms(4,1,2,3)] have w: "balance L w = balance L w0" "cx_outcome (wd_ctx w) \<in> outcome_names"
    by auto
  have label: "metrics_extension P (wd_ctx ?t) = metrics_extension P (wd_ctx w)"
    "cx_outcome (wd_ctx ?t) = cx_outcome (wd_ctx w)"
    by (simp_all add: t(4) metrics_extension_def)
  have w': "w' = on_metrics (record_metrics (if failed then ''error'' else cx_outcome (wd_ctx w))
      (metrics_extension P (wd_ctx w)) (wd_ctx ?t)) ?t"
    unfolding assms(5) logging_def Let_def label ..
  have "balance L ?t = balance L w0" using t(1) w(1) by simp
  moreover have "cx_active_permit (wd_ctx w0) = False" by (simp add: assms(3) new_ctx_def)
  ultimately show ?thesis
    using t(2) w(2) by (auto simp: w' balance_def active_total_def)
qed

text \<open>The sample request is admitted.\<close>

lemma sample_fresh: "no_queue_waiters sample_libs (sample_world path)" "wd_ctx (sample_world path) = new_ctx ''id''"
  by (simp_all add: no_queue_waiters_def sample_world_def sample_libs_def fifo_lib_def)

lemma sample_ready:
  "request_ready sample_libs sample_proxy (wd_ctx admitted_world)"
  "cx_decision (wd_ctx admitted_world) = Rewrite JsBundle ''x'' False"
  using request_filter_result [OF sample_libs_ok sample_fresh sample_request] sample_decision
  by (simp_all add: sample_libs_def sample_session_lib_def sample_world_def)

end
