(* ===== verification/Admission_Refinement.thy ===== *)
theory Admission_Refinement
  imports Handler_Correct
begin

text \<open>
  The handlers against the interleaved model of the admission: what \<open>admit_rewrite\<close>, its
  continuation and the return of a permit do to the semaphores and gauges is a sequence of
  atomic steps of the request. So the limits, the fairness and the progress of that model hold
  for the handlers of all requests, however they are interleaved.
\<close>

text \<open>The shared part of the world.\<close>

definition matches :: "('s, 'i) admission \<Rightarrow> ('s, 'i, 'sess) world \<Rightarrow> bool" where
  "matches a w \<longleftrightarrow> adm_active a = wd_active w \<and> adm_queued a = wd_queued w
     \<and> gauge_active a = mt_active (wd_metrics w) \<and> gauge_queued a = mt_queued (wd_metrics w)"

definition phase_after :: "admitted \<Rightarrow> phase" where
  "phase_after r = (case r of Admitted True \<Rightarrow> Rewriting | Admit_Waits \<Rightarrow> Waiting | _ \<Rightarrow> Rejected)"

definition reaches ::
  "('s, 'i) semaphore_lib \<Rightarrow> 'i \<Rightarrow> ('s, 'i) admission \<Rightarrow> ('s, 'i, 'sess) world \<Rightarrow> ('i \<Rightarrow> phase) \<Rightarrow> bool" where
  "reaches L i a w f \<longleftrightarrow> (\<exists>n c. admission_steps L a (replicate n i) c \<and> matches c w \<and> adm_phase c = f)"

lemma reaches_step:
  "admission_step L i a = Some b \<Longrightarrow> reaches L i b w f \<Longrightarrow> reaches L i a w f"
  unfolding reaches_def by (metis admission_steps_Cons replicate_Suc)

lemma reaches_now: "matches a w \<Longrightarrow> adm_phase a = f \<Longrightarrow> reaches L i a w f"
  unfolding reaches_def by (intro exI [of _ 0]) auto

lemma resume_refines:
  assumes "libs_ok L" "admission_inv (lib_semaphore L) mc mq a" "matches a w" "adm_phase a i = Granted"
  shows "reaches (lib_semaphore L) i a (admit_resume L w) ((adm_phase a)(i := Rewriting))"
proof -
  let ?S = "lib_semaphore L"
  obtain s r where rel: "sem_release ?S (adm_queued a) = (s, r)" by fastforce
  have sem: "semaphore_ok ?S" using assms(1) by (simp add: libs_ok_def)
  have "sem_waiting ?S (adm_queued a) = []" using assms(2) by (simp add: admission_inv_def)
  with sem_release_cases [OF sem rel] have r: "r = None" by auto
  define b where "b = set_phase i Dequeued (a\<lparr>adm_queued := s\<rparr>)"
  define b' where "b' = set_phase i Uncounted (b\<lparr>gauge_queued := gauge_queued b - 1\<rparr>)"
  define c where "c = set_phase i Rewriting (b'\<lparr>gauge_active := gauge_active b' + 1\<rparr>)"
  have steps: "admission_step ?S i a = Some b" "admission_step ?S i b = Some b'" "admission_step ?S i b' = Some c"
    using assms(4) rel r by (simp_all add: admission_step_def wake_def b_def b'_def c_def)
  have "matches c (admit_resume L w)"
    using assms(3) rel r by (auto simp: matches_def c_def b'_def b_def admit_resume_def release_queued_def)
  then have "reaches ?S i c (admit_resume L w) ((adm_phase a)(i := Rewriting))"
    by (rule reaches_now) (simp add: c_def b'_def b_def)
  with steps reaches_step show ?thesis by metis
qed

lemma admit_refines:
  assumes "libs_ok L" "matches a w" "adm_phase a i = Arriving" "admit_rewrite L i w = (w', r)"
  shows "reaches (lib_semaphore L) i a w' ((adm_phase a)(i := phase_after r))"
proof -
  let ?S = "lib_semaphore L"
  have sem: "semaphore_ok ?S" using assms(1) by (simp add: libs_ok_def)
  have eq: "adm_active a = wd_active w" "adm_queued a = wd_queued w"
    "gauge_active a = mt_active (wd_metrics w)" "gauge_queued a = mt_queued (wd_metrics w)"
    using assms(2) by (simp_all add: matches_def)
  show ?thesis
  proof (cases "sem_try_acquire ?S (wd_active w)")
    case (Some s)
    define b where "b = set_phase i Permitted (a\<lparr>adm_active := s\<rparr>)"
    define c where "c = set_phase i Rewriting (b\<lparr>gauge_active := gauge_active b + 1\<rparr>)"
    have steps: "admission_step ?S i a = Some b" "admission_step ?S i b = Some c"
      using assms(3) Some by (simp_all add: admission_step_def b_def c_def eq)
    have w': "w' = on_ctx (\<lambda>c. c\<lparr>cx_active_permit := True\<rparr>) (on_metrics (add_active 1) (w\<lparr>wd_active := s\<rparr>))"
      "r = Admitted True"
      using assms(4) Some by (simp_all add: admit_rewrite_def)
    have "reaches ?S i c w' ((adm_phase a)(i := phase_after r))"
      by (rule reaches_now) (simp_all add: matches_def c_def b_def w' eq phase_after_def)
    with steps reaches_step show ?thesis by metis
  next
    case none: None
    then have busy: "admission_step ?S i a = Some (set_phase i Busy a)"
      using assms(3) by (simp add: admission_step_def eq)
    show ?thesis
    proof (cases "sem_try_acquire ?S (wd_queued w)")
      case None
      define c where "c = set_phase i Rejected (set_phase i Busy a)"
      have step: "admission_step ?S i (set_phase i Busy a) = Some c"
        using None by (simp add: admission_step_def c_def eq)
      have shared: "wd_active w' = wd_active w" "wd_queued w' = wd_queued w" "wd_metrics w' = wd_metrics w"
        "phase_after r = Rejected"
        using assms(4) none None
        by (auto simp: admit_rewrite_def Let_def phase_after_def split: outcome.splits)
      have "reaches ?S i c w' ((adm_phase a)(i := phase_after r))"
        by (rule reaches_now) (simp_all add: matches_def c_def shared eq)
      with busy step reaches_step show ?thesis by metis
    next
      case (Some q)
      define b where "b = set_phase i Queue_Permitted ((set_phase i Busy a)\<lparr>adm_queued := q\<rparr>)"
      define b' where "b' = set_phase i Queue_Counted (b\<lparr>gauge_queued := gauge_queued b + 1\<rparr>)"
      define w1 where "w1 = on_ctx (\<lambda>c. c\<lparr>cx_outcome := ''queued''\<rparr>)
        (on_metrics (add_queued 1) (w\<lparr>wd_queued := q\<rparr>))"
      obtain s g where acq: "sem_acquire ?S i (wd_active w1) = (s, g)" by fastforce
      define c where "c = set_phase i (if g then Granted else Waiting) (b'\<lparr>adm_active := s\<rparr>)"
      have steps: "admission_step ?S i (set_phase i Busy a) = Some b" "admission_step ?S i b = Some b'"
        "admission_step ?S i b' = Some c"
        using Some acq by (simp_all add: admission_step_def b_def b'_def c_def eq w1_def)
      have "sem_permits ?S (wd_active w) = 0" using none sem_try_None [OF sem] by blast
      with sem_acquire_cases [OF sem acq] have g: "\<not> g" by (auto simp: w1_def)
      have w': "w' = w1\<lparr>wd_active := s\<rparr>" "r = Admit_Waits"
        using assms(4) none Some acq g by (simp_all add: admit_rewrite_def w1_def Let_def)
      have "reaches ?S i c w' ((adm_phase a)(i := phase_after r))"
        by (rule reaches_now) (simp_all add: matches_def c_def b'_def b_def w' w1_def eq g phase_after_def)
      with busy steps reaches_step show ?thesis by metis
    qed
  qed
qed

lemma give_back_refines:
  assumes "libs_ok L" "admission_inv (lib_semaphore L) mc mq a" "matches a w" "adm_phase a i = Rewriting"
    and "cx_active_permit (wd_ctx w)"
  shows "\<exists>ws. wd_woken (take_active_permit L w) = wd_woken w @ ws
    \<and> reaches (lib_semaphore L) i a (take_active_permit L w)
        (\<lambda>k. if k = i then Finished else if k \<in> set ws then Granted else adm_phase a k)"
proof -
  let ?S = "lib_semaphore L"
  have sem: "semaphore_ok ?S" using assms(1) by (simp add: libs_ok_def)
  obtain s r where rel: "sem_release ?S (adm_active a) = (s, r)" by fastforce
  let ?ws = "case r of Some j \<Rightarrow> [j] | None \<Rightarrow> []"
  have other: "j \<noteq> i" if "r = Some j" for j
  proof -
    have "adm_phase a j = Waiting"
      by (rule release_wakes [OF sem assms(2), of "adm_active a" s]) (simp_all add: rel that)
    with assms(4) show ?thesis by auto
  qed
  define b where "b = wake r (set_phase i Released (a\<lparr>adm_active := s\<rparr>))"
  define c where "c = set_phase i Finished (b\<lparr>gauge_active := gauge_active b - 1\<rparr>)"
  have b_i: "adm_phase b i = Released"
    using other by (cases r) (auto simp: b_def wake_def)
  have steps: "admission_step ?S i a = Some b" "admission_step ?S i b = Some c"
    using assms(4) rel b_i by (simp_all add: admission_step_def b_def c_def)
  have "matches c (take_active_permit L w)"
    using assms(3,5) rel by (auto simp: matches_def c_def b_def take_active_permit_def release_active_def)
  then have "reaches ?S i c (take_active_permit L w)
      (\<lambda>k. if k = i then Finished else if k \<in> set ?ws then Granted else adm_phase a k)"
    by (rule reaches_now) (use other in \<open>cases r; auto simp: c_def b_def wake_def fun_eq_iff\<close>)
  then have "reaches ?S i a (take_active_permit L w)
      (\<lambda>k. if k = i then Finished else if k \<in> set ?ws then Granted else adm_phase a k)"
    by (rule reaches_step [OF steps(1) reaches_step [OF steps(2)]])
  moreover have "wd_woken (take_active_permit L w) = wd_woken w @ ?ws"
    using assms(3,5) rel by (simp add: matches_def take_active_permit_def release_active_def)
  ultimately show ?thesis by blast
qed

text \<open>
  The handlers refine the interleaved admission: \<open>admit_rewrite\<close> leads an arriving request to a
  rewrite, to the queue or to its rejection by atomic steps of that request; its continuation
  leads a granted request to its rewrite; and giving the permit back finishes the request and
  grants the permit to the waiter that the semaphore names. Semaphores and gauges agree after
  each.
\<close>

theorem admission_refinement:
  assumes "libs_ok L" "admission_inv (lib_semaphore L) mc mq a" "matches a w"
  shows "(adm_phase a i = Arriving \<and> admit_rewrite L i w = (w', r) \<longrightarrow>
      reaches (lib_semaphore L) i a w' ((adm_phase a)(i := phase_after r)))
    \<and> (adm_phase a i = Granted \<longrightarrow>
      reaches (lib_semaphore L) i a (admit_resume L w) ((adm_phase a)(i := Rewriting)))
    \<and> (adm_phase a i = Rewriting \<and> cx_active_permit (wd_ctx w) \<longrightarrow>
      (\<exists>ws. wd_woken (take_active_permit L w) = wd_woken w @ ws
        \<and> reaches (lib_semaphore L) i a (take_active_permit L w)
            (\<lambda>k. if k = i then Finished else if k \<in> set ws then Granted else adm_phase a k)))"
  using admit_refines [OF assms(1,3)] resume_refines [OF assms] give_back_refines [OF assms] by blast

theorem admission_refinement_witness:
  "reaches fifo_lib 0 (admission_new fifo_lib 1 0)
     (fst (admit_rewrite sample_libs 0 (sample_world bundle_path))) ((\<lambda>_. Arriving)(0 := Rewriting))"
proof -
  let ?a = "admission_new fifo_lib 1 0 :: (nat \<times> nat list, nat) admission"
  have lib: "lib_semaphore sample_libs = fifo_lib" by (simp add: sample_libs_def)
  have inv: "admission_inv (lib_semaphore sample_libs) 1 0 ?a"
    unfolding lib by (rule admission_inv_new [OF fifo_lib_ok])
  have m: "matches ?a (sample_world bundle_path)"
    by (simp add: matches_def admission_new_def fifo_lib_def sample_world_def metrics_new_def)
  have "snd (admit_rewrite sample_libs 0 (sample_world bundle_path)) = Admitted True" by code_simp
  then have r: "admit_rewrite sample_libs 0 (sample_world bundle_path) =
      (fst (admit_rewrite sample_libs 0 (sample_world bundle_path)), Admitted True)"
    by (metis prod.collapse)
  have "adm_phase ?a 0 = Arriving" by (simp add: admission_new_def)
  with admission_refinement [OF sample_libs_ok inv m, of 0] r
  have "reaches (lib_semaphore sample_libs) 0 ?a (fst (admit_rewrite sample_libs 0 (sample_world bundle_path)))
      ((adm_phase ?a)(0 := phase_after (Admitted True)))"
    by blast
  then show ?thesis by (simp add: lib phase_after_def admission_new_def)
qed

end
