(* ===== verification/Request_Id.thy ===== *)
theory Request_Id
  imports Handler "HOL-Library.Word"
begin

text \<open>
  The request ids that \<open>src/proxy.rs\<close> generates: the system clock and a global counter, in
  hexadecimal. The counter is an \<open>AtomicU64\<close> that every new request increments in one step
  (\<open>fetch_add\<close>, which wraps), so the requests are numbered in the order of these steps; the
  clock is an input of which nothing is assumed.
\<close>

definition REQUEST_SEQUENCE :: "64 word" where
  "REQUEST_SEQUENCE = 1"

text \<open>
  The clock in nanoseconds since the epoch, \<open>None\<close> before it: \<open>unwrap_or_default\<close>. The new value
  of the counter is returned with the id.
\<close>

definition new_request_id :: "nat option \<Rightarrow> 64 word \<Rightarrow> bytes \<times> 64 word" where
  "new_request_id clock counter =
     (let nanos = (case clock of Some n \<Rightarrow> n | None \<Rightarrow> 0)
      in (''kserw-'' @ lower_hex nanos @ ''-'' @ lower_hex (unat counter), counter + 1))"

text \<open>The contexts of the requests of one process, given the clock at each.\<close>

fun new_contexts :: "nat option list \<Rightarrow> 64 word \<Rightarrow> request_context list" where
  "new_contexts [] counter = []"
| "new_contexts (clock # clocks) counter =
     (case new_request_id clock counter of
        (request_id, counter') \<Rightarrow> new_ctx request_id # new_contexts clocks counter')"

end
