(* ===== verification/Header_Spec.thy ===== *)
theory Header_Spec
  imports Headers_Correct
begin

text \<open>
  What the header decisions are meant to be, stated on the text of the header values and without
  the functions of \<open>Headers\<close>: the elements of a list, unencoded bodies, admitted content types,
  the derived tag, revalidation and the scope of an API path. Each is proved equal to the
  decision of the code.
\<close>

section \<open>Elements of a list\<close>

text \<open>Of the whitespace only blanks and tabs can stand in visible ASCII.\<close>

definition blank :: "byte \<Rightarrow> bool" where
  "blank b \<longleftrightarrow> b = CHR '' '' \<or> b = CHR 0x09"

definition strips_to :: "bytes \<Rightarrow> bytes \<Rightarrow> bool" where
  "strips_to s t \<longleftrightarrow> (\<exists>l r. s = l @ t @ r \<and> list_all blank l \<and> list_all blank r
     \<and> (t = [] \<or> \<not> blank (hd t) \<and> \<not> blank (last t)))"

text \<open>An item stands between two separators or ends of the value.\<close>

definition list_item :: "byte \<Rightarrow> bytes \<Rightarrow> bytes \<Rightarrow> bool" where
  "list_item c v item \<longleftrightarrow> c \<notin> set item
     \<and> (\<exists>before after. v = before @ item @ after
          \<and> (before = [] \<or> last before = c) \<and> (after = [] \<or> hd after = c))"

definition lists :: "bytes \<Rightarrow> bytes \<Rightarrow> bool" where
  "lists v t \<longleftrightarrow> visible_ascii v \<and> (\<exists>item. list_item CHR '','' v item \<and> strips_to item t)"

lemma visible_ws: "visible_ascii v \<Longrightarrow> b \<in> set v \<Longrightarrow> ws b \<longleftrightarrow> blank b"
proof -
  have n: "b = CHR '' '' \<longleftrightarrow> byte_val b = (32 :: nat)" "b = CHR 0x09 \<longleftrightarrow> byte_val b = (9 :: nat)"
    using of_char_eq_iff [where 'a = nat, of b "CHR '' ''"] of_char_eq_iff [where 'a = nat, of b "CHR 0x09"]
    by simp_all
  assume "visible_ascii v" "b \<in> set v"
  then have "(32 \<le> byte_val b \<and> byte_val b < (127 :: nat)) \<or> byte_val b = (9 :: nat)"
    by (auto simp: visible_ascii_def Let_def)
  then show ?thesis by (auto simp: ws_def blank_def n is_whitespace_def code_point_def Let_def)
qed

lemma strips_to_iff:
  assumes "visible_ascii s"
  shows "strips_to s t \<longleftrightarrow> str_trim s = t"
proof -
  have a: "ascii_text s" by (rule visible_ascii_text [OF assms])
  have ws: "ws b \<longleftrightarrow> blank b" if "b \<in> set s" for b by (rule visible_ws [OF assms that])
  show ?thesis
  proof
    assume "strips_to s t"
    then obtain l r where s: "s = l @ t @ r" and blanks: "list_all blank l" "list_all blank r"
      and ends: "t = [] \<or> \<not> blank (hd t) \<and> \<not> blank (last t)"
      unfolding strips_to_def by blast
    have l: "\<forall>b \<in> set l. ws b" and r: "\<forall>b \<in> set r. ws b"
      using blanks ws by (auto simp: s list_all_iff)
    have t: "t = [] \<or> \<not> ws (hd t) \<and> \<not> ws (last t)"
      using ends ws [of "hd t"] ws [of "last t"] by (cases "t = []") (auto simp: s)
    show "str_trim s = t"
    proof (cases "t = []")
      case True
      then have "\<forall>b \<in> set s. ws b" using s l r by auto
      then show ?thesis by (simp add: str_trim_ascii [OF a] True all_dropWhile)
    next
      case False
      have "dropWhile ws s = t @ r" using s l t False by (cases t) (auto simp: dropWhile_append2)
      moreover have "rev t \<noteq> [] \<and> \<not> ws (hd (rev t))" using False t by (simp add: hd_rev)
      then have "dropWhile ws (rev r @ rev t) = rev t" using r by (cases "rev t") (simp_all add: dropWhile_append)
      ultimately show ?thesis by (simp add: str_trim_ascii [OF a])
    qed
  next
    assume t: "str_trim s = t"
    let ?u = "dropWhile ws s"
    have "s = takeWhile ws s @ rev (dropWhile ws (rev ?u)) @ rev (takeWhile ws (rev ?u))"
      by (simp flip: rev_append)
    then have "s = takeWhile ws s @ t @ rev (takeWhile ws (rev ?u))"
      using t by (simp only: str_trim_ascii [OF a])
    moreover have "list_all blank (takeWhile ws s)" using ws by (auto simp: list_all_iff dest: set_takeWhileD)
    moreover have "list_all blank (rev (takeWhile ws (rev ?u)))"
      using ws by (auto simp: list_all_iff dest!: set_takeWhileD set_dropWhileD)
    moreover have "t = [] \<or> \<not> blank (hd t) \<and> \<not> blank (last t)"
    proof (cases "t = []")
      case False
      have "b \<in> set t \<Longrightarrow> b \<in> set s" for b using set_str_trim [OF a] t by blast
      with False have "ws (hd t) \<longleftrightarrow> blank (hd t)" "ws (last t) \<longleftrightarrow> blank (last t)" by (simp_all add: ws)
      with False trimmed_str_trim [OF a] t show ?thesis by (simp add: trimmed_def)
    qed simp
    ultimately show "strips_to s t"
      unfolding strips_to_def by (intro exI [of _ "takeWhile ws s"] exI [of _ "rev (takeWhile ws (rev ?u))"] conjI)
  qed
qed

lemma split_byte_items: "item \<in> set (split_byte c v) \<longleftrightarrow> list_item c v item"
proof
  show "item \<in> set (split_byte c v) \<Longrightarrow> list_item c v item"
  proof (induction v rule: length_induct)
    case (1 v)
    show ?case
    proof (cases "c \<in> set v")
      case False
      with 1 have "v = [] @ item @ []" "c \<notin> set item" by (simp_all add: split_byte_single)
      then show ?thesis unfolding list_item_def by blast
    next
      case True
      then obtain a b where v: "v = a @ c # b" "c \<notin> set a" by (meson split_list_first)
      with 1 consider "item = a" | "list_item c b item" by (fastforce simp: split_byte_append)
      then show ?thesis
      proof cases
        case 2
        then obtain before after where "c \<notin> set item" "b = before @ item @ after"
          "before = [] \<or> last before = c" "after = [] \<or> hd after = c" by (auto simp: list_item_def)
        with v show ?thesis
          unfolding list_item_def by (intro conjI exI [of _ "a @ c # before"] exI [of _ after]) auto
      next
        case 1
        with v show ?thesis unfolding list_item_def by (intro conjI exI [of _ "[]"] exI [of _ "c # b"]) auto
      qed
    qed
  qed
  assume "list_item c v item"
  then obtain before after where i: "c \<notin> set item" "v = before @ item @ after"
    and ends: "before = [] \<or> last before = c" "after = [] \<or> hd after = c" by (auto simp: list_item_def)
  have tail: "item \<in> set (split_byte c (item @ after))"
    using i(1) ends(2) by (cases after) (auto simp: split_byte_single split_byte_append)
  show "item \<in> set (split_byte c v)"
  proof (cases before rule: rev_cases)
    case (snoc p b)
    with ends(1) i(2) have "v = p @ c # item @ after" by simp
    with tail show ?thesis by (simp add: split_byte_at)
  qed (use i(2) tail in simp)
qed

lemma visible_item: "visible_ascii v \<Longrightarrow> item \<in> set (split_byte c v) \<Longrightarrow> visible_ascii item"
  using set_split_byte [of item c v] by (auto simp: visible_ascii_def)

lemma lists_iff: "lists v t \<longleftrightarrow> visible_ascii v \<and> t \<in> set (map str_trim (split_byte CHR '','' v))"
  unfolding lists_def split_byte_items [symmetric] using strips_to_iff visible_item by auto

section \<open>Revalidation and \<open>Vary\<close>\<close>

text \<open>A client has the tag when its \<open>If-None-Match\<close> lists it, or a star.\<close>

definition client_has :: "bytes option \<Rightarrow> bytes \<Rightarrow> bool" where
  "client_has header tag \<longleftrightarrow> (\<exists>v. header = Some v \<and> (lists v ''*'' \<or> lists v tag))"

lemma if_none_match_spec:
  "header_ok H \<Longrightarrow> if_none_match_matches H header tag \<longleftrightarrow> client_has header tag"
  by (cases header)
    (auto simp: if_none_match_matches_def client_has_def header_okD(4) lists_iff list_ex_iff image_iff
      eq_commute [of _ "str_trim _"])

definition line_lists :: "bytes list \<Rightarrow> bytes \<Rightarrow> bool" where
  "line_lists lines t \<longleftrightarrow> (\<exists>v \<in> set lines. lists v t)"

lemma vary_values_spec:
  "header_ok H \<Longrightarrow> t \<in> set (vary_values H h) \<longleftrightarrow> t \<noteq> [] \<and> line_lists (hm_get_all H ''vary'' h) t"
  by (auto simp: vary_values_def line_lists_def lists_iff header_okD(4) List.map_filter_def split: if_splits)

text \<open>The response varies with the encodings that the client accepts, or with everything.\<close>

definition varies_with_encoding :: "bytes list \<Rightarrow> bool" where
  "varies_with_encoding lines \<longleftrightarrow>
     (\<exists>t. line_lists lines t \<and> (t = ''*'' \<or> to_ascii_lowercase t = ''accept-encoding''))"

lemma vary_covers_spec:
  assumes "header_ok H"
  shows "vary_covers (vary_values H h) \<longleftrightarrow> varies_with_encoding (hm_get_all H ''vary'' h)"
proof -
  have low: "to_ascii_lowercase ''accept-encoding'' = ''accept-encoding''" by code_simp
  have "t \<noteq> []" if "t = ''*'' \<or> to_ascii_lowercase t = ''accept-encoding''" for t
    using that by (auto simp: to_ascii_lowercase_def)
  then show ?thesis
    unfolding vary_covers_def varies_with_encoding_def eq_ignore_ascii_case_def low Bex_def
      vary_values_spec [OF assms] by blast
qed

section \<open>Encodings and content types\<close>

text \<open>
  The bodies that are taken as not encoded, by the first line of \<open>Content-Encoding\<close>: there is
  none, it is blank, it is \<open>identity\<close> in any case, or it is no visible ASCII.
\<close>

definition unencoded :: "bytes option \<Rightarrow> bool" where
  "unencoded header \<longleftrightarrow>
     (\<forall>v. header = Some v \<longrightarrow>
        \<not> visible_ascii v \<or> list_all blank v \<or> to_ascii_lowercase v = ''identity'')"

lemma identity_encoding_spec:
  assumes "header_ok H"
  shows "is_identity_encoding H header \<longleftrightarrow> unencoded header"
proof (cases header)
  case (Some v)
  have "to_ascii_lowercase ''identity'' = ''identity''" by code_simp
  moreover have "str_trim v = [] \<longleftrightarrow> list_all blank v" if "visible_ascii v"
    using that visible_ws [OF that]
    by (auto simp: str_trim_ascii visible_ascii_text list_all_iff all_dropWhile)
  ultimately show ?thesis
    by (auto simp: Some unencoded_def is_identity_encoding_def header_okD(4) [OF assms] eq_ignore_ascii_case_def)
qed (simp add: is_identity_encoding_def unencoded_def)

text \<open>
  The media types that a profile admits: HTML for the two profiles of HTML documents, scripts,
  style sheets, JSON and HTML for the others, and plain text for the two \<open>index.js\<close> bundles.
\<close>

definition html_profile :: "rewrite_profile \<Rightarrow> bool" where
  "html_profile profile \<longleftrightarrow> profile \<in> {NamedProxyHtml, Ys1000Html}"

definition admitted_types :: "rewrite_profile \<Rightarrow> bytes set" where
  "admitted_types profile =
     {''text/html'', ''application/xhtml+xml''}
     \<union> (if html_profile profile then {}
        else {''text/javascript'', ''application/javascript'', ''application/x-javascript'',
              ''text/css'', ''application/json'', ''text/json''})
     \<union> (if profile \<in> {FrontendIndexJsBundle, Ys1000FrontendIndexJsBundle} then {''text/plain''} else {})"

text \<open>A \<open>charset\<close> parameter must name UTF-8; other parameters do not matter.\<close>

definition utf8_parameter :: "bytes \<Rightarrow> bool" where
  "utf8_parameter p \<longleftrightarrow>
     (\<forall>name charset. p = name @ ''='' @ charset \<and> CHR ''='' \<notin> set name
        \<and> to_ascii_lowercase (str_trim name) = ''charset'' \<longrightarrow>
          to_ascii_lowercase (trim_matches QUO (str_trim charset)) \<in> {''utf-8'', ''utf8''})"

definition admits_type :: "rewrite_profile \<Rightarrow> bytes option \<Rightarrow> bool" where
  "admits_type profile header \<longleftrightarrow>
     (\<exists>v media params. header = Some v \<and> visible_ascii v
        \<and> map str_trim (split_byte CHR '';'' v) = media # params
        \<and> to_ascii_lowercase media \<in> admitted_types profile \<and> (\<forall>p \<in> set params. utf8_parameter p))"

lemma media_allowed_spec: "media_allowed profile media \<longleftrightarrow> media \<in> admitted_types profile"
  by (cases profile) (auto simp: media_allowed_def admitted_types_def html_profile_def selects_html_by_response_content_type_def)

lemma parameter_ok_spec: "parameter_ok p \<longleftrightarrow> utf8_parameter p"
proof -
  have low: "to_ascii_lowercase ''charset'' = ''charset''" by code_simp
  have iff: "split_once ''='' p = Some (name, charset) \<longleftrightarrow> p = name @ ''='' @ charset \<and> CHR ''='' \<notin> set name" for name charset
    by (auto simp: split_once_byte_iff)
  have "parameter_ok p \<longleftrightarrow> (\<forall>name charset. split_once ''='' p = Some (name, charset)
      \<and> to_ascii_lowercase (str_trim name) = ''charset'' \<longrightarrow>
        to_ascii_lowercase (trim_matches QUO (str_trim charset)) \<in> {''utf-8'', ''utf8''})"
    by (auto simp: parameter_ok_def eq_ignore_ascii_case_def low split: option.split)
  then show ?thesis unfolding utf8_parameter_def iff by blast
qed

lemma content_type_spec:
  assumes "header_ok H"
  shows "is_rewritable_content_type H profile header \<longleftrightarrow> admits_type profile header"
proof (cases "\<exists>v. header = Some v \<and> visible_ascii v")
  case False
  then have "Option.bind header (hv_to_str H) = None"
    by (cases header) (auto simp: header_okD(4) [OF assms])
  with False show ?thesis by (auto simp: is_rewritable_content_type_def admits_type_def)
next
  case True
  then obtain v where v: "header = Some v" "visible_ascii v" by blast
  obtain media params where parts: "map str_trim (split_byte CHR '';'' v) = media # params"
    by (cases "map str_trim (split_byte CHR '';'' v)") auto
  from content_type_parts [OF assms v(2) parts] show ?thesis
    unfolding v(1) admits_type_def
    using v(2) parts by (simp add: media_allowed_spec parameter_ok_spec list_all_iff)
qed

section \<open>Entity tags\<close>

text \<open>The entity tags of RFC 9110.\<close>

definition etag_form :: "bytes \<Rightarrow> bool" where
  "etag_form v \<longleftrightarrow> (\<exists>weak opaque. weak \<in> {[], ''W/''} \<and> v = weak @ [QUO] @ opaque @ [QUO]
     \<and> (\<forall>b \<in> set opaque. let n = byte_val b :: nat in n = 0x21 \<or> (0x23 \<le> n \<and> n \<le> 0x7E) \<or> 0x80 \<le> n))"

text \<open>
  The tag of a rewritten body: a weak one with the digest of the upstream's tag, the base path,
  the extension and the version of the rules, when the upstream's tag has the form of one.
\<close>

definition response_tag :: "digest_lib \<Rightarrow> bytes \<Rightarrow> bytes \<Rightarrow> bytes option \<Rightarrow> bytes option" where
  "response_tag D base ext upstream =
     (case upstream of
        None \<Rightarrow> None
      | Some e \<Rightarrow>
          if etag_form e
          then Some (''W/'' @ [QUO] @ ''kserw-v34-''
                 @ b64_url_safe_no_pad D
                     (blake3 D (e @ [CHR 0x00] @ base @ [CHR 0x00] @ ext @ [CHR 0x00] @ ''v34'' @ [CHR 0x00]))
                 @ [QUO])
          else None)"

lemma etag_form_spec: "reliable_etag v = (if etag_form v then Some v else None)"
proof -
  have "reliable_etag v = Some w \<longleftrightarrow> w = v \<and> etag_form v" for w
    unfolding reliable_etag_iff etag_form_def by (simp add: list_all_iff etagc_def)
  then show ?thesis by (cases "reliable_etag v") auto
qed

lemma response_tag_spec:
  "response_tag D base ext upstream =
     map_option (\<lambda>e. derive_etag D e base ext) (Option.bind upstream reliable_etag)"
  by (cases upstream)
    (simp_all add: response_tag_def etag_form_spec derive_etag_def etag_preimage_def REWRITE_RULE_VERSION_def Let_def)

section \<open>API paths\<close>

text \<open>
  An API path gets the base path when there is one and the path is not yet below it; an API path
  has one of four markers anywhere in it.
\<close>

definition needs_base :: "bytes \<Rightarrow> bytes \<Rightarrow> bool" where
  "needs_base base path \<longleftrightarrow>
     base \<noteq> [] \<and> path \<noteq> base \<and> (\<nexists>rest. path = base @ ''/'' @ rest)
     \<and> (\<exists>marker \<in> {''/api/'', ''/apis/'', ''/kapi/'', ''/kapis/''}. \<exists>a b. path = a @ marker @ b)"

lemma api_uri_spec:
  "api_uri_with_base_path parse u base =
     (if needs_base base (uri_path u)
      then case parse (base @ (case uri_path_and_query u of Some pq \<Rightarrow> pq | None \<Rightarrow> uri_path u)) of
             Some u' \<Rightarrow> Ok (Some u')
           | None \<Rightarrow> Err ()
      else Ok None)"
proof -
  let ?path = "uri_path u"
  have "(?path = base \<or> (case strip_prefix base ?path of Some suf \<Rightarrow> prefix ''/'' suf | None \<Rightarrow> False))
      \<longleftrightarrow> ?path = base \<or> (\<exists>rest. ?path = base @ ''/'' @ rest)"
  proof (cases "strip_prefix base ?path")
    case None
    then have "?path \<noteq> base @ rest" for rest by (auto simp: strip_prefix_None_iff)
    then show ?thesis by (simp add: None)
  next
    case (Some suf)
    then have "?path = base @ suf" by (simp add: strip_prefix_Some_iff)
    then show ?thesis by (auto simp: Some prefix_def)
  qed
  moreover have "list_ex (\<lambda>marker. str_contains marker ?path) API_PATH_MARKERS \<longleftrightarrow>
      (\<exists>marker \<in> {''/api/'', ''/apis/'', ''/kapi/'', ''/kapis/''}. \<exists>a b. ?path = a @ marker @ b)"
    by (simp add: API_PATH_MARKERS_def str_contains_iff)
  ultimately have "(base = [] \<or> (?path = base \<or> (case strip_prefix base ?path of Some suf \<Rightarrow> prefix ''/'' suf | None \<Rightarrow> False))
      \<or> \<not> list_ex (\<lambda>marker. str_contains marker ?path) API_PATH_MARKERS) \<longleftrightarrow> \<not> needs_base base ?path"
    unfolding needs_base_def by blast
  then show ?thesis by (simp add: api_uri_with_base_path_def Let_def)
qed

text \<open>A path below the base path does not need it, whatever its markers.\<close>

lemma based_path: "prefix ''/'' path \<Longrightarrow> \<not> needs_base base (base @ path)"
  by (auto simp: needs_base_def prefix_def)

end
