(* ===== verification/Response_Correct.thy ===== *)
theory Response_Correct
  imports Handler_Correct Header_Spec
begin

text \<open>
  The headers that leave the proxy: what is sent to the upstream for each kind of request, and
  what becomes of the response that is rewritten, refused or revalidated.
\<close>

section \<open>The upstream request\<close>

definition conditional_headers :: "bytes set" where
  "conditional_headers = {''if-none-match'', ''if-modified-since'', ''range'', ''if-range''}"

lemma header_deletes:
  "header_ok H \<Longrightarrow> hm_get_all H m (fold (hm_remove H) ns h) = (if m \<in> set ns then [] else hm_get_all H m h)"
  unfolding header_ok_def by (elim conjE) (rule header_map.get_all_deletes)

lemma upstream_request_table:
  assumes "libs_ok L" "visible_ascii (cx_request_id c)" "G = hm_get_all (lib_headers L)"
  shows "(case upstream_request_filter L P c r of
      Ok r' \<Rightarrow>
        G ''x-request-id'' (ur_headers r') = [cx_request_id c]
        \<and> (case cx_decision c of
             Bypass \<Rightarrow> \<forall>n. n \<noteq> ''x-request-id'' \<longrightarrow> G n (ur_headers r') = G n (ur_headers r)
           | Rewrite profile extension head_only \<Rightarrow>
               G ''accept-encoding'' (ur_headers r') = [''identity'']
               \<and> (\<forall>n. n \<noteq> ''x-request-id'' \<longrightarrow> n \<noteq> ''accept-encoding'' \<longrightarrow>
                    G n (ur_headers r') =
                      (if \<not> html_profile profile \<and> n \<in> conditional_headers then [] else G n (ur_headers r))))
    | Err e \<Rightarrow> e = InternalError ''failed to prefix API request base path''
    | Panic \<Rightarrow> False)"
proof -
  let ?H = "lib_headers L"
  from assms(1) have H: "header_ok ?H" by (simp add: libs_ok_def)
  obtain h1 where h1: "insert_header ?H ''x-request-id'' (cx_request_id c) (ur_headers r) = Ok h1"
    "\<And>m. hm_get_all ?H m h1 = (if m = ''x-request-id'' then [cx_request_id c] else hm_get_all ?H m (ur_headers r))"
    by (rule insert_visible [OF H assms(2), of "''x-request-id''" "ur_headers r"]) (rule that)
  have "visible_ascii ''identity''" by code_simp
  then obtain h2 where h2: "insert_header ?H ''accept-encoding'' ''identity'' h1 = Ok h2"
    "\<And>m. hm_get_all ?H m h2 = (if m = ''accept-encoding'' then [''identity''] else hm_get_all ?H m h1)"
    by (rule insert_visible [OF H, of "''identity''" "''accept-encoding''" h1]) (rule that)
  have not_panic: "api_uri_with_base_path (lib_parse_uri L) u b \<noteq> Panic" for u b
    by (simp add: api_uri_with_base_path_def Let_def split: option.split)
  show ?thesis
  proof (cases "api_uri_with_base_path (lib_parse_uri L) (ur_uri r) (ec_base_path (px_config P))")
    case (Ok u)
    have html: "should_force_unconditional_full_response profile \<longleftrightarrow> \<not> html_profile profile" for profile
      by (simp add: should_force_unconditional_full_response_def selects_html_by_response_content_type_def html_profile_def)
    show ?thesis
    proof (cases "cx_decision c")
      case Bypass
      with Ok h1 show ?thesis by (simp add: upstream_request_filter_def assms(3))
    next
      case (Rewrite profile extension head_only)
      let ?force = "should_force_unconditional_full_response profile"
      define h3 where "h3 = (if ?force then fold (hm_remove ?H)
        [''if-none-match'', ''if-modified-since'', ''range'', ''if-range''] h2 else h2)"
      have h3: "hm_get_all ?H m h3 = (if ?force \<and> m \<in> conditional_headers then [] else hm_get_all ?H m h2)" for m
        unfolding h3_def conditional_headers_def by (simp add: header_okD(2) [OF H])
      have other: "''x-request-id'' \<notin> conditional_headers" "''accept-encoding'' \<notin> conditional_headers"
        by (simp_all add: conditional_headers_def)
      have "\<exists>r'. upstream_request_filter L P c r = Ok r' \<and> ur_headers r' = h3"
        using Ok Rewrite h1(1) h2(1)
        by (simp add: upstream_request_filter_def Let_def h3_def)
      then obtain r' where r': "upstream_request_filter L P c r = Ok r'" "ur_headers r' = h3" by blast
      show ?thesis unfolding r' assms(3) using Rewrite other by (simp add: r' h3 h2(2) h1(2) html)
    qed
  qed (use h1 not_panic in \<open>simp_all add: upstream_request_filter_def\<close>)
qed

text \<open>
  C27. The upstream always gets the request id; for a rewritten request it is asked for an identity
  encoding. When the profile is one of scripts or style sheets, the conditional and range headers
  are dropped, so that the upstream answers with the whole body; for the two profiles of HTML
  documents, which may turn out not to be rewritten, they are kept. Every other header is passed
  on, and a bypassed request keeps all of them. The only error is a URI that cannot be parsed.
\<close>

theorem upstream_request_headers:
  assumes "libs_ok L" "visible_ascii (cx_request_id c)" "G = hm_get_all (lib_headers L)"
  shows "(case upstream_request_filter L P c r of
      Ok r' \<Rightarrow>
        G ''x-request-id'' (ur_headers r') = [cx_request_id c]
        \<and> (case cx_decision c of
             Bypass \<Rightarrow> \<forall>n. n \<noteq> ''x-request-id'' \<longrightarrow> G n (ur_headers r') = G n (ur_headers r)
           | Rewrite profile extension head_only \<Rightarrow>
               G ''accept-encoding'' (ur_headers r') = [''identity'']
               \<and> (\<forall>n. n \<noteq> ''x-request-id'' \<longrightarrow> n \<noteq> ''accept-encoding'' \<longrightarrow>
                    G n (ur_headers r') =
                      (if \<not> html_profile profile \<and> n \<in> conditional_headers then [] else G n (ur_headers r))))
    | Err e \<Rightarrow> e = InternalError ''failed to prefix API request base path''
    | Panic \<Rightarrow> False)"
  by (rule upstream_request_table [OF assms])

text \<open>A request for a part of a resource, and the sample context with another profile.\<close>

definition range_request :: "bytes \<Rightarrow> (bytes \<times> bytes) list upstream_request" where
  "range_request path =
     \<lparr>ur_uri = \<lparr>uri_path = path, uri_path_and_query = Some path\<rparr>, ur_headers = [(''range'', ''bytes=0-9'')]\<rparr>"

definition sample_ctx :: "rewrite_profile \<Rightarrow> request_context" where
  "sample_ctx profile = (wd_ctx admitted_world)\<lparr>cx_decision := Rewrite profile ''x'' False\<rparr>"

lemma sample_ctx_sel: "cx_decision (sample_ctx profile) = Rewrite profile ''x'' False" "visible_ascii (cx_request_id (sample_ctx profile))"
  by (simp_all add: sample_ctx_def) code_simp

theorem upstream_request_headers_witness:
  "\<exists>r' r''. upstream_request_filter sample_libs sample_proxy (sample_ctx JsBundle) (range_request bundle_path) = Ok r'
     \<and> hm_get_all list_header_lib ''range'' (ur_headers r') = []
     \<and> hm_get_all list_header_lib ''accept-encoding'' (ur_headers r') = [''identity'']
     \<and> upstream_request_filter sample_libs sample_proxy (sample_ctx NamedProxyHtml) (range_request bundle_path) = Ok r''
     \<and> hm_get_all list_header_lib ''range'' (ur_headers r'') = [''bytes=0-9'']"
proof -
  have lib: "lib_headers sample_libs = list_header_lib" by (simp add: sample_libs_def)
  have range: "hm_get_all list_header_lib ''range'' (ur_headers (range_request bundle_path)) = [''bytes=0-9'']"
    by (simp add: range_request_def list_header_lib_def al_get_all_def)
  note headers = upstream_request_headers [OF sample_libs_ok sample_ctx_sel(2) refl, where P = sample_proxy,
      where r = "range_request bundle_path", unfolded sample_ctx_sel(1) lib]
  have "case upstream_request_filter sample_libs sample_proxy (sample_ctx JsBundle) (range_request bundle_path) of
      Ok r' \<Rightarrow> True | _ \<Rightarrow> False"
    "case upstream_request_filter sample_libs sample_proxy (sample_ctx NamedProxyHtml) (range_request bundle_path) of
      Ok r' \<Rightarrow> True | _ \<Rightarrow> False"
    by code_simp+
  with headers [of JsBundle] headers [of NamedProxyHtml] range show ?thesis
    by (auto simp: conditional_headers_def html_profile_def split: outcome.splits)
qed

section \<open>The upstream URI\<close>

lemma safe_base_no_query:
  assumes "safe_base_path base" "c = CHR ''?'' \<or> c = CHR ''#''"
  shows "c \<notin> set base"
proof
  assume "c \<in> set base"
  then obtain a b where base: "base = a @ [c] @ b" by (auto dest: split_list)
  from assms(1) base have safe: "utf8_valid base" "\<not> unsafe_text base"
    by (auto simp: safe_base_path_def dest: spec [of _ 0])
  have c: "utf8_valid [c]" using assms(2) by (auto intro!: utf8_valid_ascii)
  have "str_chars base = str_chars a @ str_chars [c] @ str_chars b"
    using utf8_valid_needle(1) [OF safe(1) [unfolded base] c] c
    by (simp add: base str_chars_append del: append_Cons str_chars.simps)
  moreover have "ascii_text [c]" using assms(2) by (auto simp: ascii_text_def)
  from str_chars_ascii [OF this] have "str_chars [c] = [[c]]" by (simp del: str_chars.simps)
  ultimately have "contains_forbidden_character base"
    using assms(2) by (auto simp: contains_forbidden_iff forbidden_def)
  with safe(2) show False by (simp add: unsafe_text_def)
qed

text \<open>The new URI is the old one below the base path.\<close>

lemma based_uri:
  assumes "parse_ok parse" "uri_wf u" "safe_base_path base" "base \<noteq> []"
    and "target = (case uri_path_and_query u of Some pq \<Rightarrow> pq | None \<Rightarrow> uri_path u)" "parse (base @ target) = Some u'"
  shows "uri_path u' = base @ uri_path u \<and> uri_path_and_query u' = Some (base @ target)"
proof -
  have q: "CHR ''?'' \<notin> set base" "CHR ''#'' \<notin> set base" using safe_base_no_query [OF assms(3)] by blast+
  have "CHR ''#'' \<notin> set target" and path: "takeWhile (\<lambda>c. c \<noteq> CHR ''?'') target = uri_path u"
    using assms(2,5) by (auto simp: uri_wf_def takeWhile_eq_all_conv split: option.splits)
  moreover have "prefix ''/'' (base @ target)" using assms(3,4) by (auto simp: safe_base_path_def prefix_def)
  moreover have "takeWhile (\<lambda>c. c \<noteq> CHR ''?'') (base @ target) = base @ uri_path u"
    using q(1) path by (subst takeWhile_append2) auto
  ultimately show ?thesis
    using assms(1) [unfolded parse_ok_def, rule_format, of "base @ target" u'] assms(6) q(2) by simp
qed

text \<open>
  C37. API requests are put below the base path, whether they are rewritten or not: when there is a
  base path, the path has one of the four API markers and is neither the base path nor below it,
  the upstream gets the old path below the base path and the old query; otherwise it gets the URI
  unchanged. Either way the URI sent does not need the prefix, so that it is never added twice.
  The request fails only where the prefixed URI cannot be parsed.
\<close>

theorem api_base_path_added:
  assumes "libs_ok L" "visible_ascii (cx_request_id c)" "parse_ok (lib_parse_uri L)" "config_wf (px_config P)"
    and "uri_wf (ur_uri r)" "base = ec_base_path (px_config P)"
    and "target = (case uri_path_and_query (ur_uri r) of Some pq \<Rightarrow> pq | None \<Rightarrow> uri_path (ur_uri r))"
  shows "(case upstream_request_filter L P c r of
      Ok r' \<Rightarrow>
        (if needs_base base (uri_path (ur_uri r))
         then uri_path (ur_uri r') = base @ uri_path (ur_uri r) \<and> uri_path_and_query (ur_uri r') = Some (base @ target)
         else ur_uri r' = ur_uri r)
        \<and> \<not> needs_base base (uri_path (ur_uri r'))
    | Err e \<Rightarrow> needs_base base (uri_path (ur_uri r)) \<and> lib_parse_uri L (base @ target) = None
        \<and> e = InternalError ''failed to prefix API request base path''
    | Panic \<Rightarrow> False)"
proof -
  let ?H = "lib_headers L" and ?path = "uri_path (ur_uri r)"
  from assms(1) have H: "header_ok ?H" by (simp add: libs_ok_def)
  obtain h1 where h1: "insert_header ?H ''x-request-id'' (cx_request_id c) (ur_headers r) = Ok h1"
    by (rule insert_visible [OF H assms(2), of "''x-request-id''" "ur_headers r"]) (rule that)
  have "visible_ascii ''identity''" by code_simp
  then obtain h2 where h2: "insert_header ?H ''accept-encoding'' ''identity'' h1 = Ok h2"
    by (rule insert_visible [OF H, of "''identity''" "''accept-encoding''" h1]) (rule that)
  have sent: "\<exists>r'. upstream_request_filter L P c r = Ok r' \<and> ur_uri r' = (case u of Some u' \<Rightarrow> u' | None \<Rightarrow> ur_uri r)"
    if "api_uri_with_base_path (lib_parse_uri L) (ur_uri r) base = Ok u" for u
    using that h1 h2 by (auto simp: upstream_request_filter_def Let_def assms(6) split: rewrite_decision.split)
  have base: "safe_base_path base" using assms(4,6) by (simp add: config_wf_def)
  have slash: "prefix ''/'' ?path" using assms(5) by (simp add: uri_wf_def)
  show ?thesis
  proof (cases "needs_base base ?path")
    case False
    with sent [of None] show ?thesis by (auto simp: api_uri_spec)
  next
    case need: True
    then have "base \<noteq> []" by (simp add: needs_base_def)
    show ?thesis
    proof (cases "lib_parse_uri L (base @ target)")
      case None
      with need h1 show ?thesis by (simp add: upstream_request_filter_def api_uri_spec assms(6,7))
    next
      case (Some u)
      note new = based_uri [OF assms(3,5) base \<open>base \<noteq> []\<close> assms(7) Some]
      from need Some sent [of "Some u"] obtain r' where "upstream_request_filter L P c r = Ok r'" "ur_uri r' = u"
        by (auto simp: api_uri_spec assms(7))
      with new need based_path [OF slash, of base] show ?thesis by simp
    qed
  qed
qed

theorem api_base_path_added_witness:
  "list_all (\<lambda>path.
      case upstream_request_filter sample_libs sample_proxy (sample_ctx JsBundle) (range_request path) of
        Ok r' \<Rightarrow> uri_path (ur_uri r') = ''/b'' @ path
      | _ \<Rightarrow> False)
     [''/api/x'', ''/x/apis/y'', ''/kapi/x'', ''/kapis/x'']"
proof -
  have "case upstream_request_filter sample_libs sample_proxy (sample_ctx JsBundle) (range_request path) of
      Ok r' \<Rightarrow> uri_path (ur_uri r') = ''/b'' @ path | _ \<Rightarrow> False"
    if path: "path \<in> {''/api/x'', ''/x/apis/y'', ''/kapi/x'', ''/kapis/x''}" for path
  proof -
    let ?r = "range_request path"
    have sample: "lib_parse_uri sample_libs = sample_parse" "ec_base_path (px_config sample_proxy) = ''/b''"
      by (simp_all add: sample_libs_def sample_proxy_def proxy_new_def sample_effective_config_def)
    have wf: "uri_wf (ur_uri ?r)" using path by (auto simp: uri_wf_def range_request_def)
    have need: "needs_base ''/b'' path"
      using path unfolding needs_base_def
      by (auto intro: exI [of _ "[]"] exI [of _ "''/x''"] exI [of _ "''x''"] exI [of _ "''y''"])
    note result = api_base_path_added [OF sample_libs_ok sample_ctx_sel(2) _ sample_config_wf wf refl refl,
        unfolded sample, OF sample_parse_ok, of JsBundle]
    with need show ?thesis by (simp add: range_request_def sample_parse_def split: outcome.splits)
  qed
  then show ?thesis by simp
qed

section \<open>What the context keeps of the request\<close>

lemma admit_rewrite_client:
  "cx_request_id (wd_ctx (fst (admit_rewrite L i w))) = cx_request_id (wd_ctx w)"
  "cx_client_if_none_match (wd_ctx (fst (admit_rewrite L i w))) = cx_client_if_none_match (wd_ctx w)"
  by (simp_all add: admit_rewrite_def admit_resume_def Let_def split: option.split outcome.split prod.split bool.split)

lemma build_rewriter_client:
  "cx_request_id (wd_ctx (fst (build_rewriter L P profile ext w))) = cx_request_id (wd_ctx w)"
  "cx_client_if_none_match (wd_ctx (fst (build_rewriter L P profile ext w))) = cx_client_if_none_match (wd_ctx w)"
  by (simp_all add: build_rewriter_def split: outcome.split)

lemma request_filter_client:
  fixes L P i w
  defines "h \<equiv> ses_headers (lib_session L) (wd_session w)" and "c \<equiv> wd_ctx (fst (request_filter L P i w))"
  shows "cx_request_id c =
      (case request_id_header (lib_headers L) h of Some v \<Rightarrow> v | None \<Rightarrow> cx_request_id (wd_ctx w))"
    and "cx_client_if_none_match c = hm_get (lib_headers L) ''if-none-match'' h"
proof -
  let ?w1 = "on_ctx (begin_request L P (wd_session w)) w"
  have "cx_request_id c = cx_request_id (wd_ctx ?w1) \<and> cx_client_if_none_match c = cx_client_if_none_match (wd_ctx ?w1)"
  proof (cases "cx_decision (wd_ctx ?w1)")
    case Bypass
    then show ?thesis by (simp add: c_def request_filter_def Let_def)
  next
    case (Rewrite profile ext head)
    let ?w2 = "on_ctx (\<lambda>c. c\<lparr>cx_extension := Some ext, cx_outcome := ''rewrite''\<rparr>) ?w1"
    obtain w3 a where adm: "admit_rewrite L i ?w2 = (w3, a)" by fastforce
    with admit_rewrite_client [of L i ?w2]
    have "cx_request_id (wd_ctx w3) = cx_request_id (wd_ctx ?w1)"
      "cx_client_if_none_match (wd_ctx w3) = cx_client_if_none_match (wd_ctx ?w1)" by simp_all
    with Rewrite adm build_rewriter_client [of L P profile ext w3] show ?thesis
      by (auto simp: c_def request_filter_def Let_def split: admitted.split bool.split)
  qed
  then show "cx_request_id c =
      (case request_id_header (lib_headers L) h of Some v \<Rightarrow> v | None \<Rightarrow> cx_request_id (wd_ctx w))"
    "cx_client_if_none_match c = hm_get (lib_headers L) ''if-none-match'' h"
    by (simp_all add: begin_request_def Let_def h_def)
qed

section \<open>The response\<close>

text \<open>The headers of a response after scrubbing, before its entity tag is decided.\<close>

lemma scrubbed_headers:
  assumes "header_ok H"
  obtains h1 h2 where "insert_header H ''accept-ranges'' ''none'' (fold (hm_remove H) STALE_HEADERS h) = Ok h1"
    "ensure_vary_accept_encoding H h1 = Some h2" "varies_with_encoding (hm_get_all H ''vary'' h2)"
    "\<And>t. t \<noteq> [] \<Longrightarrow> line_lists (hm_get_all H ''vary'' h) t \<Longrightarrow> line_lists (hm_get_all H ''vary'' h2) t"
    "hm_get_all H ''accept-ranges'' h2 = [''none'']"
    "\<And>n. n \<in> set STALE_HEADERS \<Longrightarrow> n \<noteq> ''accept-ranges'' \<Longrightarrow> hm_get_all H n h2 = []"
    "\<And>n. n \<notin> set STALE_HEADERS \<Longrightarrow> n \<noteq> ''vary'' \<Longrightarrow> hm_get_all H n h2 = hm_get_all H n h"
proof -
  have "visible_ascii ''none''" by code_simp
  then obtain h1 where h1: "insert_header H ''accept-ranges'' ''none'' (fold (hm_remove H) STALE_HEADERS h) = Ok h1"
    "\<And>m. hm_get_all H m h1 = (if m = ''accept-ranges'' then [''none'']
       else hm_get_all H m (fold (hm_remove H) STALE_HEADERS h))"
    by (rule insert_visible [OF assms, of "''none''" "''accept-ranges''" "fold (hm_remove H) STALE_HEADERS h"]) (rule that)
  from ensure_vary_ok [OF assms, of h1] obtain h2 where h2: "ensure_vary_accept_encoding H h1 = Some h2"
    "vary_covers (vary_values H h2)" "prefix (vary_values H h1) (vary_values H h2)"
    "\<And>n. n \<noteq> ''vary'' \<Longrightarrow> hm_get_all H n h2 = hm_get_all H n h1" by blast
  have stale: "''vary'' \<notin> set STALE_HEADERS" "''accept-ranges'' \<in> set STALE_HEADERS"
    by (simp_all add: STALE_HEADERS_def)
  have vary: "hm_get_all H ''vary'' h1 = hm_get_all H ''vary'' h"
    using stale(1) by (simp add: h1(2) header_deletes [OF assms])
  show ?thesis
  proof (rule that [OF h1(1) h2(1) h2(2) [unfolded vary_covers_spec [OF assms]]])
    show "line_lists (hm_get_all H ''vary'' h2) t" if "t \<noteq> []" "line_lists (hm_get_all H ''vary'' h) t" for t
    proof -
      from that have "t \<in> set (vary_values H h1)" by (simp add: vary_values_spec [OF assms] vary)
      then have "t \<in> set (vary_values H h2)" using set_mono_prefix [OF h2(3)] by blast
      then show ?thesis by (simp add: vary_values_spec [OF assms])
    qed
    show "hm_get_all H ''accept-ranges'' h2 = [''none'']" using h1(2) h2(4) by simp
    show "hm_get_all H n h2 = []" if "n \<in> set STALE_HEADERS" "n \<noteq> ''accept-ranges''" for n
    proof -
      from that stale have "n \<noteq> ''vary''" by auto
      with that show ?thesis by (simp add: h2(4) h1(2) header_deletes [OF assms])
    qed
    show "hm_get_all H n h2 = hm_get_all H n h" if "n \<notin> set STALE_HEADERS" "n \<noteq> ''vary''" for n
    proof -
      from that stale have "n \<noteq> ''accept-ranges''" by auto
      with that show ?thesis by (simp add: h2(4) h1(2) header_deletes [OF assms])
    qed
  qed
qed

text \<open>
  The headers that describe the upstream's bytes (their length, coding, digests, range and date)
  are gone; the caches are told what changed, and what else the response varied with is kept.
\<close>

definition byte_headers :: "bytes list" where
  "byte_headers =
     [''content-length'', ''content-encoding'', ''content-range'', ''last-modified'',
      ''content-md5'', ''content-digest'', ''repr-digest'', ''digest'']"

definition headers_scrubbed :: "'h header_lib \<Rightarrow> 'h \<Rightarrow> 'h \<Rightarrow> bool" where
  "headers_scrubbed H h h' \<longleftrightarrow>
     hm_get_all H ''accept-ranges'' h' = [''none''] \<and> varies_with_encoding (hm_get_all H ''vary'' h')
     \<and> (\<forall>t. t \<noteq> [] \<and> line_lists (hm_get_all H ''vary'' h) t \<longrightarrow> line_lists (hm_get_all H ''vary'' h') t)
     \<and> (\<forall>n \<in> set byte_headers. hm_get_all H n h' = [])
     \<and> (\<forall>n. n \<notin> set byte_headers \<union> {''accept-ranges'', ''vary'', ''etag'', ''cache-control'', ''content-type''} \<longrightarrow>
          hm_get_all H n h' = hm_get_all H n h)"

lemma stale_headers: "set STALE_HEADERS = insert ''accept-ranges'' (set byte_headers)"
  by (auto simp: STALE_HEADERS_def byte_headers_def)

lemma byte_headers_fresh: "''accept-ranges'' \<notin> set byte_headers"
  by (simp add: byte_headers_def)

text \<open>The result of scrubbing: the response with the headers \<open>h'\<close>, as the entity tag decides.\<close>

definition scrub_outcome ::
  "('s, 'i, 'h, 'sess, 'json) libs \<Rightarrow> bytes option \<Rightarrow> ('s, 'i, 'sess) world \<Rightarrow> 'h response \<Rightarrow> 'h
    \<Rightarrow> ('s, 'i, 'sess) world \<times> (proxy_error, 'h response) outcome \<Rightarrow> bool"
where
  "scrub_outcome L etag w rsp h' result \<longleftrightarrow>
     (case etag of
        None \<Rightarrow> result = (w, Ok (rsp\<lparr>rsp_headers := h'\<rparr>))
          \<and> hm_get_all (lib_headers L) ''content-type'' h' = hm_get_all (lib_headers L) ''content-type'' (rsp_headers rsp)
          \<and> hm_get_all (lib_headers L) ''etag'' h' = []
          \<and> hm_get_all (lib_headers L) ''cache-control'' h' = [''no-store'']
      | Some tag \<Rightarrow>
          hm_get_all (lib_headers L) ''etag'' h' = [tag]
          \<and> hm_get_all (lib_headers L) ''cache-control'' h' = hm_get_all (lib_headers L) ''cache-control'' (rsp_headers rsp)
          \<and> (if client_has (cx_client_if_none_match (wd_ctx w)) tag
             then result =
                 (stop_rewrite L ''not_modified'' (on_ctx (\<lambda>c. c\<lparr>cx_suppress_body := True, cx_rewriter := None\<rparr>) w),
                  Ok (rsp\<lparr>rsp_status := 304, rsp_headers := h'\<rparr>))
               \<and> hm_get_all (lib_headers L) ''content-type'' h' = []
             else result = (w, Ok (rsp\<lparr>rsp_headers := h'\<rparr>))
               \<and> hm_get_all (lib_headers L) ''content-type'' h' =
                   hm_get_all (lib_headers L) ''content-type'' (rsp_headers rsp)))"

lemma scrub_response_cases:
  assumes "libs_ok L" "\<And>tag. etag = Some tag \<Longrightarrow> visible_ascii tag"
  obtains h' where "headers_scrubbed (lib_headers L) (rsp_headers rsp) h'"
    "scrub_outcome L etag w rsp h' (scrub_response L etag w rsp)"
proof -
  define H where "H = lib_headers L"
  from assms(1) have H: "header_ok H" by (simp add: libs_ok_def H_def)
  obtain h1 h2 where h: "insert_header H ''accept-ranges'' ''none'' (fold (hm_remove H) STALE_HEADERS (rsp_headers rsp)) = Ok h1"
    "ensure_vary_accept_encoding H h1 = Some h2" "varies_with_encoding (hm_get_all H ''vary'' h2)"
    "\<And>t. t \<noteq> [] \<Longrightarrow> line_lists (hm_get_all H ''vary'' (rsp_headers rsp)) t \<Longrightarrow> line_lists (hm_get_all H ''vary'' h2) t"
    "hm_get_all H ''accept-ranges'' h2 = [''none'']"
    "\<And>n. n \<in> set STALE_HEADERS \<Longrightarrow> n \<noteq> ''accept-ranges'' \<Longrightarrow> hm_get_all H n h2 = []"
    "\<And>n. n \<notin> set STALE_HEADERS \<Longrightarrow> n \<noteq> ''vary'' \<Longrightarrow> hm_get_all H n h2 = hm_get_all H n (rsp_headers rsp)"
    by (rule scrubbed_headers [OF H, of "rsp_headers rsp"]) (rule that)
  have fresh: "''etag'' \<notin> set STALE_HEADERS" "''cache-control'' \<notin> set STALE_HEADERS"
    "''content-type'' \<notin> set STALE_HEADERS" "''vary'' \<notin> set STALE_HEADERS"
    by (simp_all add: STALE_HEADERS_def)
  have scrubbed: "headers_scrubbed H (rsp_headers rsp) h'"
    if same: "\<And>n. n \<notin> {''etag'', ''cache-control'', ''content-type''} \<Longrightarrow> hm_get_all H n h' = hm_get_all H n h2" for h'
  proof -
    have "hm_get_all H ''vary'' h' = hm_get_all H ''vary'' h2" by (rule same) simp
    moreover have "hm_get_all H n h' = []" if "n \<in> set STALE_HEADERS" "n \<noteq> ''accept-ranges''" for n
    proof -
      from that fresh have "n \<notin> {''etag'', ''cache-control'', ''content-type''}" by auto
      with same h(6) [OF that] show ?thesis by simp
    qed
    moreover have "hm_get_all H ''accept-ranges'' h' = [''none'']" using same [of "''accept-ranges''"] h(5) by simp
    moreover have "hm_get_all H n h' = hm_get_all H n (rsp_headers rsp)"
      if "n \<notin> set STALE_HEADERS \<union> {''vary'', ''etag'', ''cache-control'', ''content-type''}" for n
      using that same [of n] h(7) [of n] by simp
    ultimately show ?thesis
      using h(3,4) byte_headers_fresh by (auto simp: headers_scrubbed_def stale_headers)
  qed
  show ?thesis
  proof (cases etag)
    case None
    have "visible_ascii ''no-store''" by code_simp
    then obtain h3 where h3: "insert_header H ''cache-control'' ''no-store'' (hm_remove H ''etag'' h2) = Ok h3"
      "\<And>m. hm_get_all H m h3 = (if m = ''cache-control'' then [''no-store''] else hm_get_all H m (hm_remove H ''etag'' h2))"
      by (rule insert_visible [OF H, of "''no-store''" "''cache-control''" "hm_remove H ''etag'' h2"]) (rule that)
    have all: "hm_get_all H m h3 = (if m = ''cache-control'' then [''no-store''] else if m = ''etag'' then [] else hm_get_all H m h2)" for m
      by (simp add: h3(2) header_okD(2) [OF H])
    show ?thesis
      by (rule that [of h3, folded H_def, OF scrubbed])
        (use None h h3(1) fresh in \<open>simp_all add: all scrub_response_def scrub_outcome_def Let_def flip: H_def\<close>)
  next
    case (Some tag)
    then have "visible_ascii tag" by (rule assms(2))
    then obtain h3 where h3: "insert_header H ''etag'' tag h2 = Ok h3"
      "\<And>m. hm_get_all H m h3 = (if m = ''etag'' then [tag] else hm_get_all H m h2)"
      by (rule insert_visible [OF H, of tag "''etag''" h2]) (rule that)
    show ?thesis
    proof (cases "client_has (cx_client_if_none_match (wd_ctx w)) tag")
      case True
      have all: "hm_get_all H m (hm_remove H ''content-type'' h3) =
          (if m = ''content-type'' then [] else if m = ''etag'' then [tag] else hm_get_all H m h2)" for m
        by (simp add: h3(2) header_okD(2) [OF H])
      show ?thesis
        by (rule that [of "hm_remove H ''content-type'' h3", folded H_def, OF scrubbed])
          (use Some True h h3(1) fresh in \<open>simp_all add: all scrub_response_def scrub_outcome_def Let_def if_none_match_spec [OF H] flip: H_def\<close>)
    next
      case False
      show ?thesis
        by (rule that [of h3, folded H_def, OF scrubbed])
          (use Some False h h3 fresh in
            \<open>simp_all add: scrub_response_def scrub_outcome_def Let_def if_none_match_spec [OF H] flip: H_def\<close>)
    qed
  qed
qed

text \<open>The response with its request id, and the checks on it.\<close>

definition with_request_id :: "'h header_lib \<Rightarrow> bytes \<Rightarrow> 'h \<Rightarrow> 'h \<Rightarrow> bool" where
  "with_request_id H request_id h h0 \<longleftrightarrow>
     hm_get_all H ''x-request-id'' h0 = [request_id]
     \<and> (\<forall>n. n \<noteq> ''x-request-id'' \<longrightarrow> hm_get_all H n h0 = hm_get_all H n h)"

definition rewritable_response :: "'h header_lib \<Rightarrow> rewrite_profile \<Rightarrow> 'h response \<Rightarrow> bool" where
  "rewritable_response H profile rsp \<longleftrightarrow>
     rsp_status rsp = 200
     \<and> admits_type profile (hm_get H ''content-type'' (rsp_headers rsp))
     \<and> unencoded (hm_get H ''content-encoding'' (rsp_headers rsp))"

lemma hm_get_cong: "hm_get_all H n h = hm_get_all H n h' \<Longrightarrow> hm_get H n h = hm_get H n h'"
  by (simp add: hm_get_def)

lemma derived_etag_cong:
  "hm_get_all (lib_headers L) ''etag'' h = hm_get_all (lib_headers L) ''etag'' h' \<Longrightarrow>
     derived_etag L P c h = derived_etag L P c h'"
  by (simp add: derived_etag_def hm_get_def)

lemma derived_etag_tag:
  "derived_etag L P c h =
     response_tag (lib_digest L) (ec_base_path (px_config P)) (case cx_extension c of Some e \<Rightarrow> e | None \<Rightarrow> [])
       (hm_get (lib_headers L) ''etag'' h)"
  by (simp add: derived_etag_def response_tag_spec)

lemma derived_etag_visible: "libs_ok L \<Longrightarrow> derived_etag L P c h = Some tag \<Longrightarrow> visible_ascii tag"
  by (auto simp: derived_etag_def libs_ok_def elim: derived_etag_form)

lemma response_filter_start:
  assumes "libs_ok L" "visible_ascii (cx_request_id (wd_ctx w))" "cx_decision (wd_ctx w) = Rewrite profile ext head"
  obtains h0 where "with_request_id (lib_headers L) (cx_request_id (wd_ctx w)) (rsp_headers rsp) h0"
    "response_filter L P w rsp =
      (if rsp_status rsp \<noteq> 200 then (stop_rewrite L ''upstream_status_bypass'' w, Ok (rsp\<lparr>rsp_headers := h0\<rparr>))
       else if \<not> admits_type profile (hm_get (lib_headers L) ''content-type'' (rsp_headers rsp))
       then (stop_rewrite L ''invalid_content_type'' w,
             if html_profile profile then Ok (rsp\<lparr>rsp_headers := h0\<rparr>)
             else Err (HTTPStatus 502 ''target rewrite response has a non-text Content-Type''))
       else if \<not> unencoded (hm_get (lib_headers L) ''content-encoding'' (rsp_headers rsp))
       then (stop_rewrite L ''unexpected_content_encoding'' w,
             Err (HTTPStatus 502 ''target rewrite response was not decoded by the upstream''))
       else scrub_response L (derived_etag L P (wd_ctx w) (rsp_headers rsp)) w (rsp\<lparr>rsp_headers := h0\<rparr>))"
proof -
  let ?H = "lib_headers L"
  from assms(1) have H: "header_ok ?H" by (simp add: libs_ok_def)
  obtain h0 where h0: "insert_header ?H ''x-request-id'' (cx_request_id (wd_ctx w)) (rsp_headers rsp) = Ok h0"
    "\<And>m. hm_get_all ?H m h0 = (if m = ''x-request-id'' then [cx_request_id (wd_ctx w)] else hm_get_all ?H m (rsp_headers rsp))"
    by (rule insert_visible [OF H assms(2), of "''x-request-id''" "rsp_headers rsp"]) (rule that)
  have id: "with_request_id ?H (cx_request_id (wd_ctx w)) (rsp_headers rsp) h0"
    using h0(2) by (simp add: with_request_id_def)
  have get: "hm_get ?H ''content-type'' h0 = hm_get ?H ''content-type'' (rsp_headers rsp)"
    "hm_get ?H ''content-encoding'' h0 = hm_get ?H ''content-encoding'' (rsp_headers rsp)"
    "derived_etag L P (wd_ctx w) h0 = derived_etag L P (wd_ctx w) (rsp_headers rsp)"
    by (rule hm_get_cong derived_etag_cong, simp add: h0(2))+
  show ?thesis
    by (rule that [OF id])
      (simp add: response_filter_def h0(1) assms(3) Let_def get content_type_spec [OF H] identity_encoding_spec [OF H]
        selects_html_by_response_content_type_def html_profile_def)
qed

lemma response_filter_scrubs:
  assumes "libs_ok L" "visible_ascii (cx_request_id (wd_ctx w))" "cx_decision (wd_ctx w) = Rewrite profile ext head"
    and "rewritable_response (lib_headers L) profile rsp"
  obtains h0 h' where "with_request_id (lib_headers L) (cx_request_id (wd_ctx w)) (rsp_headers rsp) h0"
    "headers_scrubbed (lib_headers L) h0 h'"
    "scrub_outcome L (derived_etag L P (wd_ctx w) (rsp_headers rsp)) w rsp h' (response_filter L P w rsp)"
proof -
  let ?etag = "derived_etag L P (wd_ctx w) (rsp_headers rsp)"
  obtain h0 where h0: "with_request_id (lib_headers L) (cx_request_id (wd_ctx w)) (rsp_headers rsp) h0"
    "response_filter L P w rsp = scrub_response L ?etag w (rsp\<lparr>rsp_headers := h0\<rparr>)"
    by (rule response_filter_start [OF assms(1-3), of rsp P])
      (rule that, assumption, use assms(4) in \<open>simp add: rewritable_response_def\<close>)
  have vis: "visible_ascii tag" if "?etag = Some tag" for tag
    by (rule derived_etag_visible [OF assms(1) that])
  obtain h' where h': "headers_scrubbed (lib_headers L) (rsp_headers (rsp\<lparr>rsp_headers := h0\<rparr>)) h'"
    "scrub_outcome L ?etag w (rsp\<lparr>rsp_headers := h0\<rparr>) h' (response_filter L P w rsp)"
    by (rule scrub_response_cases [where etag = ?etag and w = w and rsp = "rsp\<lparr>rsp_headers := h0\<rparr>", OF assms(1) vis])
      (assumption, rule that, assumption, simp only: h0(2))
  have same: "hm_get_all (lib_headers L) ''content-type'' h0 = hm_get_all (lib_headers L) ''content-type'' (rsp_headers rsp)"
    "hm_get_all (lib_headers L) ''cache-control'' h0 = hm_get_all (lib_headers L) ''cache-control'' (rsp_headers rsp)"
    using h0(1) by (simp_all add: with_request_id_def)
  show ?thesis
    by (rule that [OF h0(1)]) (use h' in \<open>auto simp: scrub_outcome_def same split: option.splits\<close>)
qed

text \<open>The rewriting is given up: no rewriter, no permit, and the body is not compressed again.\<close>

definition rewriting_stopped ::
  "('s, 'i, 'h, 'sess, 'json) libs \<Rightarrow> ('s, 'i, 'sess) world \<Rightarrow> ('s, 'i, 'sess) world \<Rightarrow> bool" where
  "rewriting_stopped L w w' \<longleftrightarrow> cx_rewriter (wd_ctx w') = None \<and> \<not> cx_active_permit (wd_ctx w')
     \<and> wd_session w' = ses_adjust_compression (lib_session L) 0 (wd_session w)"

lemma stop_rewrite_stopped:
  assumes "libs_ok L" "wd_session v = wd_session w"
  shows "rewriting_stopped L w (stop_rewrite L outc v)"
  using assms(2)
  by (simp add: rewriting_stopped_def stop_rewrite_balance(3) [OF assms(1)])
    (simp add: stop_rewrite_def take_permit_balance(5) [OF assms(1)] disable_compression_def)

lemma response_filter_table:
  assumes "libs_ok L" "visible_ascii (cx_request_id (wd_ctx w))" "request_ready L P (wd_ctx w)"
    and "cx_decision (wd_ctx w) = Rewrite profile ext head" "response_filter L P w rsp = (w', x)"
    and "H = lib_headers L" "h = rsp_headers rsp"
    and "tag = response_tag (lib_digest L) (ec_base_path (px_config P)) ext (hm_get H ''etag'' h)"
  shows "(cx_active_permit (wd_ctx w') \<longleftrightarrow> cx_rewriter (wd_ctx w') \<noteq> None)
    \<and> (if rewritable_response H profile rsp
       then \<exists>rsp' h0. x = Ok rsp' \<and> with_request_id H (cx_request_id (wd_ctx w)) h h0
         \<and> headers_scrubbed H h0 (rsp_headers rsp')
         \<and> (case tag of
              Some t \<Rightarrow> hm_get_all H ''etag'' (rsp_headers rsp') = [t]
                \<and> hm_get_all H ''cache-control'' (rsp_headers rsp') = hm_get_all H ''cache-control'' h
            | None \<Rightarrow> hm_get_all H ''etag'' (rsp_headers rsp') = []
                \<and> hm_get_all H ''cache-control'' (rsp_headers rsp') = [''no-store''])
         \<and> (rsp_status rsp' = 304 \<and> rewriting_stopped L w w'
              \<or> rsp_status rsp' = 200 \<and> wd_ctx w' = wd_ctx w \<and> wd_session w' = wd_session w
                \<and> hm_get_all H ''content-type'' (rsp_headers rsp') = hm_get_all H ''content-type'' h)
       else rewriting_stopped L w w'
         \<and> (if rsp_status rsp \<noteq> 200 \<or> html_profile profile \<and> \<not> admits_type profile (hm_get H ''content-type'' h)
            then \<exists>h0. with_request_id H (cx_request_id (wd_ctx w)) h h0 \<and> x = Ok (rsp\<lparr>rsp_headers := h0\<rparr>)
            else \<exists>m. x = Err (HTTPStatus 502 m)))"
proof -
  have ready: "cx_active_permit (wd_ctx w) \<longleftrightarrow> cx_rewriter (wd_ctx w) \<noteq> None" "cx_extension (wd_ctx w) = Some ext"
    using assms(3,4) by (cases head; auto simp: request_ready_def)+
  note stop = stop_rewrite_stopped [OF assms(1)]
  have balanced: "cx_active_permit (wd_ctx w') \<longleftrightarrow> cx_rewriter (wd_ctx w') \<noteq> None" if "rewriting_stopped L w w'"
    using that by (simp add: rewriting_stopped_def)
  have tag: "tag = derived_etag L P (wd_ctx w) h" by (simp add: derived_etag_tag ready(2) assms(6,8))
  show ?thesis
  proof (cases "rewritable_response H profile rsp")
    case False
    obtain h0 where h0: "with_request_id H (cx_request_id (wd_ctx w)) h h0" "(w', x) =
      (if rsp_status rsp \<noteq> 200 then (stop_rewrite L ''upstream_status_bypass'' w, Ok (rsp\<lparr>rsp_headers := h0\<rparr>))
       else if \<not> admits_type profile (hm_get H ''content-type'' h)
       then (stop_rewrite L ''invalid_content_type'' w,
             if html_profile profile then Ok (rsp\<lparr>rsp_headers := h0\<rparr>)
             else Err (HTTPStatus 502 ''target rewrite response has a non-text Content-Type''))
       else if \<not> unencoded (hm_get H ''content-encoding'' h)
       then (stop_rewrite L ''unexpected_content_encoding'' w,
             Err (HTTPStatus 502 ''target rewrite response was not decoded by the upstream''))
       else scrub_response L (derived_etag L P (wd_ctx w) h) w (rsp\<lparr>rsp_headers := h0\<rparr>))"
      by (rule response_filter_start [OF assms(1,2,4), of rsp P]) (use assms(5-7) in simp)
    then have "rewriting_stopped L w w'"
      using False stop by (auto simp: rewritable_response_def assms(7) split: if_splits)
    with False h0 balanced show ?thesis
      by (auto simp: rewritable_response_def assms(7) split: if_splits)
  next
    case True
    have status: "rsp_status rsp = 200" using True by (simp add: rewritable_response_def)
    obtain h0 h' where h': "with_request_id H (cx_request_id (wd_ctx w)) h h0" "headers_scrubbed H h0 h'"
      "scrub_outcome L tag w rsp h' (w', x)"
      using response_filter_scrubs [OF assms(1,2,4) True [unfolded assms(6)], of P] assms(5-7) tag by metis
    show ?thesis
    proof (cases tag)
      case None
      with h' status ready(1) True show ?thesis by (auto simp: scrub_outcome_def assms(6,7))
    next
      case (Some t)
      show ?thesis
      proof (cases "client_has (cx_client_if_none_match (wd_ctx w)) t")
        case match: True
        with Some h' have "rewriting_stopped L w w'" by (simp add: scrub_outcome_def stop)
        with match Some h' True balanced show ?thesis by (auto simp: scrub_outcome_def assms(6,7))
      next
        case False
        with Some h' status ready(1) True show ?thesis by (auto simp: scrub_outcome_def assms(6,7))
      qed
    qed
  qed
qed

text \<open>
  C10. What becomes of the response to a rewritten request. It is rewritten when it has status 200, a
  media type that the profile admits (and no charset but UTF-8) and an encoding that counts as
  none: the first line of \<open>Content-Encoding\<close> is absent, blank, \<open>identity\<close> or no visible ASCII. Then
  the headers that describe the upstream's bytes are gone, ranges are refused, \<open>Vary\<close> keeps what it
  listed and covers the encodings, and there is either the derived tag and the upstream's
  \<open>Cache-Control\<close>, or no tag and \<open>no-store\<close>; status, content type and context are unchanged, or it
  is a 304. In every other case the rewriter is gone, the permit given back and the compression
  off: a status other than 200, and a response to an HTML profile that is no HTML, pass with
  nothing but the request id added; the rest is the error 502. Nothing panics.
\<close>

theorem response_prepared:
  assumes "libs_ok L" "visible_ascii (cx_request_id (wd_ctx w))" "request_ready L P (wd_ctx w)"
    and "cx_decision (wd_ctx w) = Rewrite profile ext head" "response_filter L P w rsp = (w', x)"
    and "H = lib_headers L" "h = rsp_headers rsp"
    and "tag = response_tag (lib_digest L) (ec_base_path (px_config P)) ext (hm_get H ''etag'' h)"
  shows "(cx_active_permit (wd_ctx w') \<longleftrightarrow> cx_rewriter (wd_ctx w') \<noteq> None)
    \<and> (if rewritable_response H profile rsp
       then \<exists>rsp' h0. x = Ok rsp' \<and> with_request_id H (cx_request_id (wd_ctx w)) h h0
         \<and> headers_scrubbed H h0 (rsp_headers rsp')
         \<and> (case tag of
              Some t \<Rightarrow> hm_get_all H ''etag'' (rsp_headers rsp') = [t]
                \<and> hm_get_all H ''cache-control'' (rsp_headers rsp') = hm_get_all H ''cache-control'' h
            | None \<Rightarrow> hm_get_all H ''etag'' (rsp_headers rsp') = []
                \<and> hm_get_all H ''cache-control'' (rsp_headers rsp') = [''no-store''])
         \<and> (rsp_status rsp' = 304 \<and> rewriting_stopped L w w'
              \<or> rsp_status rsp' = 200 \<and> wd_ctx w' = wd_ctx w \<and> wd_session w' = wd_session w
                \<and> hm_get_all H ''content-type'' (rsp_headers rsp') = hm_get_all H ''content-type'' h)
       else rewriting_stopped L w w'
         \<and> (if rsp_status rsp \<noteq> 200 \<or> html_profile profile \<and> \<not> admits_type profile (hm_get H ''content-type'' h)
            then \<exists>h0. with_request_id H (cx_request_id (wd_ctx w)) h h0 \<and> x = Ok (rsp\<lparr>rsp_headers := h0\<rparr>)
            else \<exists>m. x = Err (HTTPStatus 502 m)))"
  by (rule response_filter_table [OF assms])

text \<open>The response of the sample upstream.\<close>

definition sample_response :: "bytes \<Rightarrow> (bytes \<times> bytes) list response" where
  "sample_response content_type =
     \<lparr>rsp_status = 200,
      rsp_headers = [(''content-type'', content_type), (''content-length'', ''9''), (''etag'', [QUO, CHR ''e'', QUO])]\<rparr>"

definition plain_response :: "(bytes \<times> bytes) list response" where
  "plain_response = \<lparr>rsp_status = 200, rsp_headers = [(''content-type'', ''text/css'')]\<rparr>"

definition encoded_response :: "(bytes \<times> bytes) list response" where
  "encoded_response =
     \<lparr>rsp_status = 200, rsp_headers = [(''content-type'', ''text/css''), (''content-encoding'', ''gzip'')]\<rparr>"

lemma sample_request_id: "visible_ascii (cx_request_id (wd_ctx admitted_world))"
  by code_simp

text \<open>A style sheet is prepared, an image refused, and an encoded style sheet too.\<close>

theorem response_prepared_witness:
  "(\<exists>w' rsp'. response_filter sample_libs sample_proxy admitted_world plain_response = (w', Ok rsp')
       \<and> hm_get_all list_header_lib ''cache-control'' (rsp_headers rsp') = [''no-store''])
   \<and> (\<exists>m. snd (response_filter sample_libs sample_proxy admitted_world (sample_response ''image/png'')) = Err (HTTPStatus 502 m))
   \<and> (\<exists>m. snd (response_filter sample_libs sample_proxy admitted_world encoded_response) = Err (HTTPStatus 502 m))"
proof -
  note table = response_prepared [OF sample_libs_ok sample_request_id sample_ready prod.collapse [symmetric] refl refl refl]
  have lib: "lib_headers sample_libs = list_header_lib" by (simp add: sample_libs_def)
  have css: "admits_type JsBundle (Some ''text/css'')" "\<not> admits_type JsBundle (Some ''image/png'')"
    by (simp_all flip: content_type_spec [OF list_header_lib_ok]) code_simp+
  have none: "unencoded None" "\<not> unencoded (Some ''gzip'')"
    by (simp_all flip: identity_encoding_spec [OF list_header_lib_ok]) code_simp+
  have get: "hm_get list_header_lib ''content-type'' (rsp_headers plain_response) = Some ''text/css''"
    "hm_get list_header_lib ''content-encoding'' (rsp_headers plain_response) = None"
    "hm_get list_header_lib ''etag'' (rsp_headers plain_response) = None"
    "hm_get list_header_lib ''content-type'' (rsp_headers (sample_response ''image/png'')) = Some ''image/png''"
    "hm_get list_header_lib ''content-type'' (rsp_headers encoded_response) = Some ''text/css''"
    "hm_get list_header_lib ''content-encoding'' (rsp_headers encoded_response) = Some ''gzip''"
    by code_simp+
  have status: "rsp_status plain_response = 200" "rsp_status (sample_response ct) = 200" "rsp_status encoded_response = 200" for ct
    by (simp_all add: plain_response_def sample_response_def encoded_response_def)
  have rewritable: "rewritable_response list_header_lib JsBundle plain_response"
    "\<not> rewritable_response list_header_lib JsBundle (sample_response ''image/png'')"
    "\<not> rewritable_response list_header_lib JsBundle encoded_response"
    using css none by (simp_all add: rewritable_response_def get status)
  obtain rsp' where "snd (response_filter sample_libs sample_proxy admitted_world plain_response) = Ok rsp'"
    "hm_get_all list_header_lib ''cache-control'' (rsp_headers rsp') = [''no-store'']"
    using table [of plain_response, unfolded lib] rewritable(1) by (auto simp: get response_tag_def)
  then have "\<exists>w' rsp'. response_filter sample_libs sample_proxy admitted_world plain_response = (w', Ok rsp')
      \<and> hm_get_all list_header_lib ''cache-control'' (rsp_headers rsp') = [''no-store'']"
    by (metis prod.collapse)
  moreover have "\<not> html_profile JsBundle" by (simp add: html_profile_def)
  ultimately show ?thesis
    using table [of "sample_response ''image/png''", unfolded lib] table [of encoded_response, unfolded lib] rewritable(2,3) status
    by simp
qed

text \<open>
  C13. Revalidation: the response to a rewritten request becomes a 304 exactly when the upstream's tag
  has the form of one and the first line of the request's \<open>If-None-Match\<close> lists the tag that is
  derived from it, or a star; a client without that header, or with other tags only, gets the
  whole response. A 304 has the derived tag and no content type, the rewriting is given up and
  every chunk of the upstream's body is dropped.
\<close>

theorem not_modified_response:
  assumes "libs_ok L" "visible_ascii (cx_request_id (wd_ctx w))" "no_queue_waiters L w0" "wd_ctx w0 = new_ctx rid"
    and "request_filter L P i w0 = (w1, Continue)" "wd_ctx w = wd_ctx w1" "cx_decision (wd_ctx w) = Rewrite profile ext head"
    and "H = lib_headers L" "rewritable_response H profile rsp"
    and "client = hm_get H ''if-none-match'' (ses_headers (lib_session L) (wd_session w0))"
    and "tag = response_tag (lib_digest L) (ec_base_path (px_config P)) ext (hm_get H ''etag'' (rsp_headers rsp))"
  shows "\<exists>w' rsp'. response_filter L P w rsp = (w', Ok rsp')
    \<and> (if \<exists>t. tag = Some t \<and> client_has client t
       then rsp_status rsp' = 304 \<and> hm_get_all H ''content-type'' (rsp_headers rsp') = []
         \<and> hm_get H ''etag'' (rsp_headers rsp') = tag
         \<and> rewriting_stopped L w w' \<and> cx_outcome (wd_ctx w') = ''not_modified''
         \<and> (\<forall>body eos. response_body_filter L body eos (wd_ctx w') = (wd_ctx w', Ok None))
       else rsp_status rsp' = 200 \<and> wd_ctx w' = wd_ctx w)"
proof (rule response_filter_scrubs [OF assms(1,2,7) assms(9) [unfolded assms(8)], of P])
  fix h0 h'
  from request_filter_result [OF assms(1,3,4,5)] assms(6) have "request_ready L P (wd_ctx w)" by simp
  then have "cx_extension (wd_ctx w) = Some ext" using assms(7) by (cases head) (auto simp: request_ready_def)
  then have tag: "derived_etag L P (wd_ctx w) (rsp_headers rsp) = tag" by (simp add: derived_etag_tag assms(8,11))
  have client: "cx_client_if_none_match (wd_ctx w) = client"
    using request_filter_client(2) [of L P i w0] by (simp add: assms(5,6,8,10))
  have status: "rsp_status rsp = 200" using assms(9) by (simp add: rewritable_response_def)
  assume out: "scrub_outcome L (derived_etag L P (wd_ctx w) (rsp_headers rsp)) w rsp h' (response_filter L P w rsp)"
  show ?thesis
  proof (cases "\<exists>t. tag = Some t \<and> client_has client t")
    case True
    then obtain t where t: "tag = Some t" "client_has client t" by blast
    let ?v = "on_ctx (\<lambda>c. c\<lparr>cx_suppress_body := True, cx_rewriter := None\<rparr>) w"
    have "response_filter L P w rsp = (stop_rewrite L ''not_modified'' ?v, Ok (rsp\<lparr>rsp_status := 304, rsp_headers := h'\<rparr>))"
      "hm_get_all H ''content-type'' h' = []" "hm_get_all H ''etag'' h' = [t]"
      using out t by (simp_all add: tag scrub_outcome_def client assms(8))
    then show ?thesis
      using t stop_rewrite_stopped [OF assms(1), of ?v w]
      by (auto simp: hm_get_def stop_rewrite_balance(3) [OF assms(1)] response_body_filter_def)
  next
    case False
    with out status show ?thesis
      by (auto simp: tag scrub_outcome_def client split: option.splits)
  qed
qed

text \<open>The sample client sends a star; a client without \<open>If-None-Match\<close> gets the body.\<close>

definition bare_world :: "(nat \<times> nat list, nat, sample_session) world" where
  "bare_world = (sample_world bundle_path)\<lparr>wd_session := (wd_session (sample_world bundle_path))\<lparr>ss_headers := []\<rparr>\<rparr>"

theorem not_modified_response_witness:
  "(\<exists>w' rsp'. response_filter sample_libs sample_proxy admitted_world (sample_response ''text/css'') = (w', Ok rsp')
     \<and> rsp_status rsp' = 304 \<and> \<not> cx_active_permit (wd_ctx w'))
   \<and> (\<exists>w' rsp'. response_filter sample_libs sample_proxy (fst (request_filter sample_libs sample_proxy 0 bare_world))
        (sample_response ''text/css'') = (w', Ok rsp') \<and> rsp_status rsp' = 200)"
proof -
  let ?rsp = "sample_response ''text/css''" and ?bare = "fst (request_filter sample_libs sample_proxy 0 bare_world)"
  have lib: "lib_headers sample_libs = list_header_lib" by (simp add: sample_libs_def)
  have css: "admits_type JsBundle (Some ''text/css'')" "unencoded None"
    by (simp_all flip: content_type_spec [OF list_header_lib_ok] identity_encoding_spec [OF list_header_lib_ok]) code_simp+
  have get: "hm_get list_header_lib ''content-type'' (rsp_headers ?rsp) = Some ''text/css''"
    "hm_get list_header_lib ''content-encoding'' (rsp_headers ?rsp) = None"
    "hm_get list_header_lib ''etag'' (rsp_headers ?rsp) = Some [QUO, CHR ''e'', QUO]"
    "hm_get list_header_lib ''if-none-match'' (ses_headers (lib_session sample_libs) (wd_session bare_world)) = None"
    "hm_get list_header_lib ''if-none-match'' (ses_headers (lib_session sample_libs) (wd_session (sample_world bundle_path)))
      = Some ''*''"
    by code_simp+
  have "rsp_status ?rsp = 200" by (simp add: sample_response_def)
  with css have rewritable: "rewritable_response list_header_lib JsBundle ?rsp" by (simp add: rewritable_response_def get)
  have "reliable_etag [QUO, CHR ''e'', QUO] \<noteq> None" by code_simp
  then have tag: "\<exists>t. response_tag (lib_digest sample_libs) (ec_base_path (px_config sample_proxy)) ''x'' (Some [QUO, CHR ''e'', QUO]) = Some t"
    by (auto simp: response_tag_spec)
  have star: "client_has (Some ''*'') t" for t
    unfolding client_has_def lists_iff by (intro exI conjI refl disjI1) code_simp+
  have none: "\<not> client_has None t" for t by (simp add: client_has_def)
  have bare: "no_queue_waiters sample_libs bare_world" "wd_ctx bare_world = new_ctx ''id''"
    using sample_fresh [of bundle_path] by (simp_all add: bare_world_def no_queue_waiters_def)
  have "snd (request_filter sample_libs sample_proxy 0 bare_world) = Continue" by code_simp
  then have run: "request_filter sample_libs sample_proxy 0 bare_world = (?bare, Continue)" by (metis prod.collapse)
  have id: "visible_ascii (cx_request_id (wd_ctx ?bare))" by code_simp
  have decision: "cx_decision (wd_ctx ?bare) = Rewrite JsBundle ''x'' False" by code_simp
  from not_modified_response [OF sample_libs_ok id bare run refl decision lib [symmetric] rewritable refl refl]
  have "\<exists>w' rsp'. response_filter sample_libs sample_proxy ?bare ?rsp = (w', Ok rsp') \<and> rsp_status rsp' = 200"
    using none by (auto simp: get)
  moreover from not_modified_response [OF sample_libs_ok sample_request_id sample_fresh sample_request refl sample_ready(2)
      lib [symmetric] rewritable refl refl]
  have "\<exists>w' rsp'. response_filter sample_libs sample_proxy admitted_world ?rsp = (w', Ok rsp')
      \<and> rsp_status rsp' = 304 \<and> \<not> cx_active_permit (wd_ctx w')"
    using tag star by (auto simp: get rewriting_stopped_def)
  ultimately show ?thesis by blast
qed

end
