(* ===== verification/Request_Id_Correct.thy ===== *)
theory Request_Id_Correct
  imports Request_Id Response_Correct
begin

text \<open>
  Generated request ids are distinct, are header values and are short enough to be accepted as a
  request id by the next proxy; the id of a request, generated or sent by the client, is the one
  that reaches the upstream and the client.
\<close>

section \<open>Generated ids\<close>

lemma lower_hex_no_dash: "CHR ''-'' \<notin> set (lower_hex n)"
  using lower_hex_digits [of "CHR ''-''" n] by auto

lemma request_id_counter:
  "''kserw-'' @ lower_hex m @ ''-'' @ lower_hex n = ''kserw-'' @ lower_hex m' @ ''-'' @ lower_hex n' \<longleftrightarrow>
     m = m' \<and> n = n'"
proof
  assume eq: "''kserw-'' @ lower_hex m @ ''-'' @ lower_hex n = ''kserw-'' @ lower_hex m' @ ''-'' @ lower_hex n'"
  then have "split_once ''-'' (lower_hex m @ CHR ''-'' # lower_hex n) =
      split_once ''-'' (lower_hex m' @ CHR ''-'' # lower_hex n')" by simp
  moreover have "split_once ''-'' (lower_hex a @ CHR ''-'' # lower_hex b) = Some (lower_hex a, lower_hex b)" for a b
    using lower_hex_no_dash by (simp add: split_once_byte_iff)
  ultimately show "m = m' \<and> n = n'" by (simp add: lower_hex_inject)
qed simp

lemma new_contexts_id:
  "k < length clocks \<Longrightarrow> new_contexts clocks counter ! k =
     new_ctx (fst (new_request_id (clocks ! k) (counter + of_nat k)))"
proof (induction clocks arbitrary: counter k)
  case (Cons clock clocks)
  then show ?case
    by (cases k) (simp_all add: new_request_id_def Let_def add.assoc)
qed simp

lemma length_new_contexts [simp]: "length (new_contexts clocks counter) = length clocks"
  by (induction clocks counter rule: new_contexts.induct) (auto split: prod.split)

lemma generated_id_header:
  assumes "\<forall>n. clock = Some n \<longrightarrow> n < 2 ^ 128"
  shows "visible_ascii (fst (new_request_id clock counter))
    \<and> fst (new_request_id clock counter) \<noteq> [] \<and> length (fst (new_request_id clock counter)) \<le> 55"
proof -
  let ?nanos = "case clock of Some n \<Rightarrow> n | None \<Rightarrow> 0"
  have "?nanos < 16 ^ 32" using assms by (simp split: option.split)
  then have "length (lower_hex ?nanos) \<le> 32"
    unfolding lower_hex_def by (intro radix_digits_length) auto
  moreover have "unat counter < 2 ^ LENGTH(64)" by (rule unsigned_less)
  then have "unat counter < 16 ^ 16" by simp
  then have "length (lower_hex (unat counter)) \<le> 16"
    unfolding lower_hex_def by (intro radix_digits_length) auto
  moreover have "visible_ascii (lower_hex n)" for n
    using lower_hex_digits [of _ n] by (fastforce simp: visible_ascii_def Let_def)
  moreover have "visible_ascii ''kserw-''" "visible_ascii ''-''" by code_simp+
  moreover have "visible_ascii (a @ b) \<longleftrightarrow> visible_ascii a \<and> visible_ascii b" for a b
    by (auto simp: visible_ascii_def)
  ultimately show ?thesis
    by (simp add: new_request_id_def Let_def del: append_Cons append_Nil)
qed

lemma of_nat_word_inject: "j < 2 ^ 64 \<Longrightarrow> k < 2 ^ 64 \<Longrightarrow> (of_nat j :: 64 word) = of_nat k \<longleftrightarrow> j = k"
  by (simp add: word_of_nat_eq_iff take_bit_nat_eq_self)

text \<open>
  C18. The requests of one process get different request ids, whatever the clock shows, until the
  counter has gone round: among any 2^64 consecutive requests. Each id is a header value of at
  most 55 bytes.
\<close>

theorem request_ids_distinct:
  assumes "length clocks \<le> 2 ^ 64" "\<forall>n. Some n \<in> set clocks \<longrightarrow> n < 2 ^ 128"
  shows "distinct (map cx_request_id (new_contexts clocks counter))
    \<and> (\<forall>c \<in> set (new_contexts clocks counter).
         visible_ascii (cx_request_id c) \<and> cx_request_id c \<noteq> [] \<and> length (cx_request_id c) \<le> 55)"
proof
  have id: "cx_request_id (new_contexts clocks counter ! k) = fst (new_request_id (clocks ! k) (counter + of_nat k))"
    if "k < length clocks" for k
    using that by (simp add: new_contexts_id new_ctx_def)
  show "distinct (map cx_request_id (new_contexts clocks counter))"
    unfolding distinct_conv_nth
  proof (intro allI impI)
    fix j k
    assume "j < length (map cx_request_id (new_contexts clocks counter))"
      and "k < length (map cx_request_id (new_contexts clocks counter))" and "j \<noteq> k"
    then have jk: "j < length clocks" "k < length clocks" "j < 2 ^ 64" "k < 2 ^ 64" using assms(1) by auto
    then have "unat (counter + of_nat j) \<noteq> unat (counter + of_nat k)"
      using of_nat_word_inject [of j k] \<open>j \<noteq> k\<close> by (simp add: word_unat_eq_iff [symmetric])
    then show "map cx_request_id (new_contexts clocks counter) ! j \<noteq> map cx_request_id (new_contexts clocks counter) ! k"
      using jk(1,2) id request_id_counter by (simp add: new_request_id_def Let_def)
  qed
  show "\<forall>c \<in> set (new_contexts clocks counter).
      visible_ascii (cx_request_id c) \<and> cx_request_id c \<noteq> [] \<and> length (cx_request_id c) \<le> 55"
  proof
    fix c
    assume "c \<in> set (new_contexts clocks counter)"
    then obtain k where k: "k < length clocks" "c = new_contexts clocks counter ! k"
      by (auto simp: in_set_conv_nth)
    have "\<forall>n. clocks ! k = Some n \<longrightarrow> n < 2 ^ 128"
      using assms(2) nth_mem [OF k(1)] by auto
    from generated_id_header [OF this, of "counter + of_nat k"] id [OF k(1)] k(2)
    show "visible_ascii (cx_request_id c) \<and> cx_request_id c \<noteq> [] \<and> length (cx_request_id c) \<le> 55"
      by simp
  qed
qed

theorem request_ids_distinct_witness:
  "map cx_request_id (new_contexts [Some 255, None, Some 255] REQUEST_SEQUENCE) =
     [''kserw-ff-1'', ''kserw-0-2'', ''kserw-ff-3'']
   \<and> distinct (map cx_request_id (new_contexts [Some 255, None, Some 255] REQUEST_SEQUENCE))"
proof
  show "map cx_request_id (new_contexts [Some 255, None, Some 255] REQUEST_SEQUENCE) =
      [''kserw-ff-1'', ''kserw-0-2'', ''kserw-ff-3'']" by code_simp
  have "length [Some 255, None, Some 255 :: nat option] \<le> 2 ^ 64"
    "\<forall>n. Some n \<in> set [Some 255, None, Some 255] \<longrightarrow> n < (2 :: nat) ^ 128" by simp_all
  then show "distinct (map cx_request_id (new_contexts [Some 255, None, Some 255] REQUEST_SEQUENCE))"
    by (rule request_ids_distinct [THEN conjunct1])
qed

section \<open>The way of a request id\<close>

lemma request_filter_id:
  "cx_request_id (wd_ctx (fst (request_filter L P i w))) =
     (case request_id_header (lib_headers L) (ses_headers (lib_session L) (wd_session w)) of
        Some v \<Rightarrow> v | None \<Rightarrow> cx_request_id (wd_ctx w))"
  by (rule request_filter_client(1))

lemma request_id_header_visible:
  "header_ok H \<Longrightarrow> request_id_header H h = Some v \<Longrightarrow> visible_ascii v \<and> v \<noteq> [] \<and> length v \<le> 128"
  by (auto simp: request_id_header_def bind_eq_Some_conv header_okD(4) split: if_splits)

lemma request_id_visible:
  assumes "libs_ok L" "visible_ascii rid" "wd_ctx w0 = new_ctx rid" "request_filter L P i w0 = (w, r)"
  shows "visible_ascii (cx_request_id (wd_ctx w))"
proof -
  have "header_ok (lib_headers L)" using assms(1) by (simp add: libs_ok_def)
  with request_filter_id [of L P i w0] assms(2-4) show ?thesis
    by (auto simp: new_ctx_def dest: request_id_header_visible split: option.splits)
qed

lemma response_filter_request_id:
  assumes "libs_ok L" "visible_ascii (cx_request_id (wd_ctx w))" "response_filter L P w rsp = (w', Ok rsp')"
  shows "hm_get_all (lib_headers L) ''x-request-id'' (rsp_headers rsp') = [cx_request_id (wd_ctx w)]"
proof -
  let ?G = "hm_get_all (lib_headers L) ''x-request-id''"
  have H: "header_ok (lib_headers L)" using assms(1) by (simp add: libs_ok_def)
  show ?thesis
  proof (cases "cx_decision (wd_ctx w)")
    case Bypass
    obtain h0 where "insert_header (lib_headers L) ''x-request-id'' (cx_request_id (wd_ctx w)) (rsp_headers rsp) = Ok h0"
      "\<And>m. hm_get_all (lib_headers L) m h0 =
        (if m = ''x-request-id'' then [cx_request_id (wd_ctx w)] else hm_get_all (lib_headers L) m (rsp_headers rsp))"
      by (rule insert_visible [OF H assms(2), of "''x-request-id''" "rsp_headers rsp"]) (rule that)
    with Bypass assms(3) show ?thesis by (auto simp: response_filter_def)
  next
    case (Rewrite profile ext head)
    show ?thesis
    proof (rule response_filter_start [OF assms(1,2) Rewrite, of rsp P])
      fix h0
      assume "with_request_id (lib_headers L) (cx_request_id (wd_ctx w)) (rsp_headers rsp) h0"
      then have h0: "?G h0 = [cx_request_id (wd_ctx w)]" by (simp add: with_request_id_def)
      let ?etag = "derived_etag L P (wd_ctx w) (rsp_headers rsp)"
      have scrub: "?G (rsp_headers rsp') = [cx_request_id (wd_ctx w)]"
        if "scrub_response L ?etag w (rsp\<lparr>rsp_headers := h0\<rparr>) = (w', Ok rsp')"
      proof (rule scrub_response_cases [where etag = ?etag and w = w and rsp = "rsp\<lparr>rsp_headers := h0\<rparr>", OF assms(1)])
        show "visible_ascii tag" if "?etag = Some tag" for tag
          by (rule derived_etag_visible [OF assms(1) that])
        fix h'
        assume h': "headers_scrubbed (lib_headers L) (rsp_headers (rsp\<lparr>rsp_headers := h0\<rparr>)) h'"
          and out: "scrub_outcome L ?etag w (rsp\<lparr>rsp_headers := h0\<rparr>) h'
            (scrub_response L ?etag w (rsp\<lparr>rsp_headers := h0\<rparr>))"
        have "rsp_headers rsp' = h'"
          using out that by (auto simp: scrub_outcome_def split: option.splits if_splits)
        with h' h0 show ?thesis by (simp add: headers_scrubbed_def byte_headers_def)
      qed
      assume "response_filter L P w rsp =
        (if rsp_status rsp \<noteq> 200 then (stop_rewrite L ''upstream_status_bypass'' w, Ok (rsp\<lparr>rsp_headers := h0\<rparr>))
         else if \<not> admits_type profile (hm_get (lib_headers L) ''content-type'' (rsp_headers rsp))
         then (stop_rewrite L ''invalid_content_type'' w,
               if html_profile profile then Ok (rsp\<lparr>rsp_headers := h0\<rparr>)
               else Err (HTTPStatus 502 ''target rewrite response has a non-text Content-Type''))
         else if \<not> unencoded (hm_get (lib_headers L) ''content-encoding'' (rsp_headers rsp))
         then (stop_rewrite L ''unexpected_content_encoding'' w,
               Err (HTTPStatus 502 ''target rewrite response was not decoded by the upstream''))
         else scrub_response L ?etag w (rsp\<lparr>rsp_headers := h0\<rparr>))"
      with assms(3) h0 scrub show ?thesis by (auto split: if_splits)
    qed
  qed
qed

text \<open>
  C26. One id per request: the client's \<open>X-Request-ID\<close>, when it is a text of at most 128 bytes and
  not empty, and otherwise the generated one. It is sent to the upstream, and it is the only
  request id of the response, whatever becomes of the rewriting.
\<close>

theorem request_id_forwarded:
  assumes "libs_ok L" "\<forall>n. clock = Some n \<longrightarrow> n < 2 ^ 128"
    and "wd_ctx w0 = new_ctx (fst (new_request_id clock counter))" "request_filter L P i w0 = (w, r)"
    and "rid = (case request_id_header (lib_headers L) (ses_headers (lib_session L) (wd_session w0)) of
                 Some v \<Rightarrow> v | None \<Rightarrow> fst (new_request_id clock counter))"
    and "G = hm_get_all (lib_headers L) ''x-request-id''"
  shows "rid \<noteq> [] \<and> length rid \<le> 128 \<and> visible_ascii rid
    \<and> (\<forall>u u'. upstream_request_filter L P (wd_ctx w) u = Ok u' \<longrightarrow> G (ur_headers u') = [rid])
    \<and> (\<forall>rsp w' rsp'. response_filter L P w rsp = (w', Ok rsp') \<longrightarrow> G (rsp_headers rsp') = [rid])"
proof -
  have H: "header_ok (lib_headers L)" using assms(1) by (simp add: libs_ok_def)
  have id: "cx_request_id (wd_ctx w) = rid"
    using request_filter_id [of L P i w0] assms(3-5) by (auto simp: new_ctx_def split: option.split)
  have good: "rid \<noteq> [] \<and> length rid \<le> 128 \<and> visible_ascii rid"
    using generated_id_header [OF assms(2), of counter] request_id_header_visible [OF H] assms(5)
    by (auto split: option.splits)
  with id have vis: "visible_ascii (cx_request_id (wd_ctx w))" by simp
  have "G (ur_headers u') = [rid]" if "upstream_request_filter L P (wd_ctx w) u = Ok u'" for u u'
    using upstream_request_table [OF assms(1) vis refl, where P = P and r = u] that by (simp add: id assms(6))
  with good response_filter_request_id [OF assms(1) vis, of P] show ?thesis by (auto simp: id assms(6))
qed

theorem request_id_forwarded_witness:
  "(case snd (response_filter sample_libs sample_proxy
       (fst (request_filter sample_libs sample_proxy 0
          ((sample_world bundle_path)\<lparr>wd_ctx := new_ctx (fst (new_request_id (Some 255) 1))\<rparr>)))
       (sample_response ''text/css'')) of
      Ok rsp' \<Rightarrow> hm_get_all list_header_lib ''x-request-id'' (rsp_headers rsp') = [''kserw-ff-1''] | _ \<Rightarrow> False)"
proof -
  let ?w0 = "(sample_world bundle_path)\<lparr>wd_ctx := new_ctx (fst (new_request_id (Some 255) 1))\<rparr>"
  let ?w = "fst (request_filter sample_libs sample_proxy 0 ?w0)"
  let ?r = "response_filter sample_libs sample_proxy ?w (sample_response ''text/css'')"
  have lib: "lib_headers sample_libs = list_header_lib" by (simp add: sample_libs_def)
  have none: "request_id_header list_header_lib (ses_headers (lib_session sample_libs) (wd_session (sample_world bundle_path))) = None"
    by code_simp
  have gen: "fst (new_request_id (Some 255) 1) = ''kserw-ff-1''" by code_simp
  have "\<forall>n. Some 255 = Some n \<longrightarrow> n < (2 :: nat) ^ 128" by simp
  note flow = request_id_forwarded [where w0 = ?w0 and w = ?w and counter = 1,
      OF sample_libs_ok this _ prod.collapse [symmetric] refl refl]
  have "case snd ?r of Ok rsp' \<Rightarrow> True | _ \<Rightarrow> False" by code_simp
  then obtain rsp' where "snd ?r = Ok rsp'" by (auto split: outcome.splits)
  moreover from this have "?r = (fst ?r, Ok rsp')" by (metis prod.collapse)
  ultimately show ?thesis using flow by (simp add: none gen lib del: fst_conv)
qed

end
