(* ===== verification/Body_Correct.thy ===== *)
theory Body_Correct
  imports Request_Id_Correct
begin

text \<open>
  The way of a body through the handlers: the chunks of a rewritten response come out as the
  rewriting of the whole body, and a request that is passed through is not touched.
\<close>

section \<open>Delivering a body\<close>

text \<open>
  The server calls \<open>response_body_filter\<close> for each chunk, the last one with the end-of-stream
  flag, and sends what it returns until the first error.
\<close>

definition chunk_bytes :: "bytes option \<Rightarrow> bytes" where
  "chunk_bytes b = (case b of Some x \<Rightarrow> x | None \<Rightarrow> [])"

fun deliver :: "('s, 'i, 'h, 'sess, 'json) libs \<Rightarrow> request_context \<Rightarrow> bytes option list \<Rightarrow> (proxy_error, bytes) outcome" where
  "deliver L c [] = Ok []"
| "deliver L c (b # bs) =
     (case response_body_filter L b (bs = []) c of
        (c1, Ok out) \<Rightarrow>
          (case deliver L c1 bs of
             Ok rest \<Rightarrow> Ok (chunk_bytes out @ rest)
           | r \<Rightarrow> r)
      | (c1, Err e) \<Rightarrow> Err e
      | (c1, Panic) \<Rightarrow> Panic)"

lemma chunked_run_Cons:
  "chunked_run push finish s (c # cs) =
     (case push s c of
        (Ok x, s1) \<Rightarrow>
          (case chunked_run push finish s1 cs of Ok y \<Rightarrow> Ok (x @ y) | r \<Rightarrow> r)
      | (Err e, s1) \<Rightarrow> Err e
      | (Panic, s1) \<Rightarrow> Panic)"
  by (auto simp: chunked_run_def split: prod.split outcome.split)

lemma chunk_bytes_output [simp]:
  "chunk_bytes (if x = [] then None else Some x) = x" "chunk_bytes None = []" "chunk_bytes (Some x) = x"
  by (simp_all add: chunk_bytes_def)

lemma deliver_run:
  "\<not> cx_suppress_body c \<Longrightarrow> cx_rewriter c = Some p \<Longrightarrow> bs \<noteq> [] \<Longrightarrow>
     deliver L c bs =
       map_outcome_err (\<lambda>_. rewrite_failed)
         (chunked_run (pipeline_push (lib_memchr L)) (pipeline_finish (lib_memchr L)) p (map chunk_bytes bs))"
proof (induction bs arbitrary: c p)
  case (Cons b bs)
  let ?push = "pipeline_push (lib_memchr L)" and ?finish = "pipeline_finish (lib_memchr L)"
  obtain r p1 where push: "?push p (chunk_bytes b) = (r, p1)" by fastforce
  obtain q p2 where fin: "?finish p1 = (q, p2)" by fastforce
  show ?case
  proof (cases r)
    case (Ok x)
    show ?thesis
    proof (cases "bs = []")
      case True
      with Cons.prems push fin Ok show ?thesis
        by (cases q) (simp_all add: response_body_filter_def Let_def chunked_run_def flip: chunk_bytes_def)
    next
      case False
      define c1 where "c1 = c\<lparr>cx_input_bytes := wrapping_add (cx_input_bytes c) (length (chunk_bytes b)),
        cx_rewriter := Some p1, cx_output_bytes := wrapping_add (cx_output_bytes c) (length x)\<rparr>"
      have filter: "response_body_filter L b False c = (c1, Ok (if x = [] then None else Some x))"
        using Cons.prems push Ok by (simp add: response_body_filter_def Let_def c1_def flip: chunk_bytes_def)
      have IH: "deliver L c1 bs = map_outcome_err (\<lambda>_. rewrite_failed) (chunked_run ?push ?finish p1 (map chunk_bytes bs))"
        by (rule Cons.IH) (use Cons.prems False in \<open>simp_all add: c1_def\<close>)
      show ?thesis
        using False push Ok
        by (cases "chunked_run ?push ?finish p1 (map chunk_bytes bs)")
          (simp_all add: filter IH chunked_run_Cons del: if_split)
    qed
  qed (use Cons.prems push in
      \<open>simp_all add: response_body_filter_def Let_def chunked_run_Cons flip: chunk_bytes_def\<close>)
qed simp

lemma safe_base_path_utf8: "safe_base_path b \<Longrightarrow> utf8_valid b"
  by (auto simp: safe_base_path_def dest: spec [of _ 0])

lemma delivered_body:
  assumes "libs_ok L" "config_wf (px_config P)" "no_queue_waiters L w0" "wd_ctx w0 = new_ctx rid"
    and "request_filter L P i w0 = (w, Continue)" "cx_decision (wd_ctx w) = Rewrite profile ext False"
    and "visible_ascii rid" "utf8_valid (ses_path (lib_session L) (wd_session w0))"
    and "response_filter L P w rsp = (w', Ok rsp')" "cx_rewriter (wd_ctx w') \<noteq> None"
    and "bs \<noteq> []" "body = concat (map chunk_bytes bs)"
  shows "deliver L (wd_ctx w') bs =
    (if utf8_valid body \<and> length body \<le> ec_max_decoded_bytes (px_config P)
        \<and> texts_fit (profile_literals profile (ec_base_path (px_config P)) ext) body
     then Ok (profile_spec (lib_codec L) profile (ec_base_path (px_config P)) ext body)
     else Err (HTTPStatus 502 ''response rewrite failed''))"
proof -
  let ?base = "ec_base_path (px_config P)" and ?max = "ec_max_decoded_bytes (px_config P)"
  let ?run = "chunked_run (pipeline_push (lib_memchr L)) (pipeline_finish (lib_memchr L))"
  from request_filter_result [OF assms(1,3,4,5)]
  have ready: "request_ready L P (wd_ctx w)" "\<not> cx_suppress_body (wd_ctx w)"
    and dec: "cx_decision (wd_ctx w) =
      decide (px_policy P) (ses_method (lib_session L) (wd_session w0)) (ses_path (lib_session L) (wd_session w0))"
    by simp_all
  have ext: "utf8_valid ext"
    by (rule decide_utf8 [OF dec [symmetric, unfolded assms(6)] assms(8)])
  from response_filter_table [OF assms(1) request_id_visible [OF assms(1,7,4,5)] ready(1) assms(6,9) refl refl refl] assms(10)
  have same: "wd_ctx w' = wd_ctx w" by (auto simp: rewriting_stopped_def split: if_splits)
  from ready(1) assms(6) obtain p where p: "cx_rewriter (wd_ctx w) = Some p"
    "build_selected_response_rewriter (lib_memchr L) (lib_codec L) profile ?base ext ?max = Ok p"
    by (auto simp: request_ready_def)
  have M: "memchr_ok (lib_memchr L)" using assms(1) by (simp add: libs_ok_def)
  have base: "utf8_valid ?base" using assms(2) by (auto simp: config_wf_def intro: safe_base_path_utf8)
  have deliver: "deliver L (wd_ctx w') bs = map_outcome_err (\<lambda>_. rewrite_failed) (?run p (map chunk_bytes bs))"
    by (rule deliver_run) (use ready(2) p(1) assms(11) same in simp_all)
  note run = profile_run [OF M base ext p(2), of "map chunk_bytes bs", folded assms(12)]
  show ?thesis
  proof (cases "?run p (map chunk_bytes bs)")
    case (Ok v)
    then show ?thesis using run [of v] by (simp add: deliver)
  next
    case (Err e)
    then have "?run p (map chunk_bytes bs) \<noteq> Ok v" for v by simp
    with run [of "profile_spec (lib_codec L) profile ?base ext body"] Err show ?thesis
      by (auto simp: deliver rewrite_failed_def)
  next
    case Panic
    then show ?thesis using profile_run_not_Panic [OF M p(2)] by blast
  qed
qed

text \<open>
  C1. The whole way of a rewritten body: after \<open>request_filter\<close> and \<open>response_filter\<close> have let the
  rewriting through, the chunks that the upstream sends, however it cuts them, are answered with
  the rewriting of the whole body when it is valid UTF-8 within the configured size (and its
  texts fit into the address space), and otherwise with the error 502; nothing panics.
\<close>

theorem response_body_rewritten:
  assumes "libs_ok L" "config_wf (px_config P)" "no_queue_waiters L w0" "wd_ctx w0 = new_ctx rid"
    and "request_filter L P i w0 = (w, Continue)" "cx_decision (wd_ctx w) = Rewrite profile ext False"
    and "visible_ascii rid" "utf8_valid (ses_path (lib_session L) (wd_session w0))"
    and "response_filter L P w rsp = (w', Ok rsp')" "cx_rewriter (wd_ctx w') \<noteq> None"
    and "bs \<noteq> []" "body = concat (map chunk_bytes bs)"
  shows "deliver L (wd_ctx w') bs =
    (if utf8_valid body \<and> length body \<le> ec_max_decoded_bytes (px_config P)
        \<and> texts_fit (profile_literals profile (ec_base_path (px_config P)) ext) body
     then Ok (profile_spec (lib_codec L) profile (ec_base_path (px_config P)) ext body)
     else Err (HTTPStatus 502 ''response rewrite failed''))"
  by (rule delivered_body [OF assms])

theorem response_body_rewritten_witness:
  "deliver sample_libs (wd_ctx (fst (response_filter sample_libs sample_proxy admitted_world plain_response)))
     [Some ''a`//${window.'', None, Some ''location.host}/''] = Ok ''a`//${window.location.host}/b/''"
proof -
  let ?bs = "[Some ''a`//${window.'', None, Some ''location.host}/'']"
  let ?body = "concat (map chunk_bytes ?bs)"
  let ?r = "response_filter sample_libs sample_proxy admitted_world plain_response"
  have "case snd ?r of Ok rsp' \<Rightarrow> True | _ \<Rightarrow> False" by code_simp
  then obtain rsp' where "snd ?r = Ok rsp'" by (auto split: outcome.splits)
  then have r: "?r = (fst ?r, Ok rsp')" by (metis prod.collapse)
  have "case cx_rewriter (wd_ctx (fst ?r)) of Some p \<Rightarrow> True | None \<Rightarrow> False" by code_simp
  then have kept: "cx_rewriter (wd_ctx (fst ?r)) \<noteq> None" by (auto split: option.splits)
  have id: "visible_ascii ''id''" by code_simp
  have path: "utf8_valid (ses_path (lib_session sample_libs) (wd_session (sample_world bundle_path)))" by code_simp
  have conf: "ec_base_path (px_config sample_proxy) = ''/b''" "ec_max_decoded_bytes (px_config sample_proxy) = 80"
    by (simp_all add: sample_proxy_def proxy_new_def sample_effective_config_def)
  have "utf8_valid ?body" "length ?body \<le> 80" by code_simp+
  moreover have "texts_fit (profile_literals JsBundle ''/b'' ''x'') ?body"
    by (simp add: texts_fit_def literal_steps_def usize_max_def host_step_def Let_def)
  moreover have "profile_spec sample_codec JsBundle ''/b'' ''x'' ?body = ''a`//${window.location.host}/b/''" by code_simp
  moreover have "lib_codec sample_libs = sample_codec" by (simp add: sample_libs_def)
  ultimately show ?thesis
    using response_body_rewritten [OF sample_libs_ok sample_config_wf sample_fresh sample_request sample_ready(2)
        id path r kept, of ?bs ?body]
    by (simp add: conf del: deliver.simps)
qed

text \<open>
  C25. A request that is not rewritten passes through untouched: it takes no permit and moves no
  gauge, the compression of its session is turned off, so that the body is not encoded again, its
  response keeps its status and every header but the request id, and its body is forwarded chunk
  by chunk.
\<close>

theorem bypass_transparent:
  assumes "libs_ok L" "no_queue_waiters L w0" "wd_ctx w0 = new_ctx rid"
    and "request_filter L P i w0 = (w, r)" "visible_ascii rid"
    and "decide (px_policy P) (ses_method (lib_session L) (wd_session w0)) (ses_path (lib_session L) (wd_session w0)) = Bypass"
  shows "r = Continue \<and> balance L w = balance L w0 \<and> \<not> cx_active_permit (wd_ctx w)
    \<and> wd_session w = ses_adjust_compression (lib_session L) 0 (wd_session w0)
    \<and> wd_active w = wd_active w0 \<and> wd_queued w = wd_queued w0 \<and> wd_woken w = wd_woken w0
    \<and> wd_metrics w = wd_metrics w0
    \<and> (\<exists>h0. with_request_id (lib_headers L) (cx_request_id (wd_ctx w)) (rsp_headers rsp) h0
         \<and> response_filter L P w rsp = (w, Ok (rsp\<lparr>rsp_headers := h0\<rparr>)))
    \<and> response_body_filter L body eos (wd_ctx w) = (wd_ctx w, Ok body)"
proof -
  have start: "cx_decision (wd_ctx (on_ctx (begin_request L P (wd_session w0)) w0)) = Bypass"
    using assms(6) by (simp add: begin_request_def Let_def)
  have r: "r = Continue" "w = disable_compression L (on_ctx (begin_request L P (wd_session w0)) w0)"
    using assms(4) start by (simp_all add: request_filter_def Let_def)
  have kept: "wd_session w = ses_adjust_compression (lib_session L) 0 (wd_session w0)"
    "wd_active w = wd_active w0" "wd_queued w = wd_queued w0" "wd_woken w = wd_woken w0" "wd_metrics w = wd_metrics w0"
    by (simp_all add: r(2)) (simp add: disable_compression_def)
  from request_filter_result [OF assms(1-4)] r(1) assms(6)
  have w: "cx_decision (wd_ctx w) = Bypass" "request_ready L P (wd_ctx w)" "\<not> cx_suppress_body (wd_ctx w)"
    "balance L w = balance L w0"
    by simp_all
  from w(1,2) have none: "cx_rewriter (wd_ctx w) = None" "\<not> cx_active_permit (wd_ctx w)"
    by (simp_all add: request_ready_def)
  have H: "header_ok (lib_headers L)" using assms(1) by (simp add: libs_ok_def)
  obtain h0 where h0: "insert_header (lib_headers L) ''x-request-id'' (cx_request_id (wd_ctx w)) (rsp_headers rsp) = Ok h0"
    "\<And>m. hm_get_all (lib_headers L) m h0 =
       (if m = ''x-request-id'' then [cx_request_id (wd_ctx w)] else hm_get_all (lib_headers L) m (rsp_headers rsp))"
    by (rule insert_visible [OF H request_id_visible [OF assms(1,5,3,4)], of "''x-request-id''" "rsp_headers rsp"]) (rule that)
  then have "with_request_id (lib_headers L) (cx_request_id (wd_ctx w)) (rsp_headers rsp) h0"
    by (simp add: with_request_id_def)
  moreover have "response_filter L P w rsp = (w, Ok (rsp\<lparr>rsp_headers := h0\<rparr>))"
    using h0(1) w(1) by (simp add: response_filter_def)
  moreover have "response_body_filter L body eos (wd_ctx w) = (wd_ctx w, Ok body)"
    using none w(3) by (simp add: response_body_filter_def)
  ultimately show ?thesis using r(1) w(4) none(2) kept by blast
qed

theorem bypass_transparent_witness:
  "response_body_filter sample_libs (Some ''x'') True
     (wd_ctx (fst (request_filter sample_libs sample_proxy 0 (sample_world ''/b/other'')))) =
   (wd_ctx (fst (request_filter sample_libs sample_proxy 0 (sample_world ''/b/other''))), Ok (Some ''x''))
   \<and> ss_compression (wd_session (fst (request_filter sample_libs sample_proxy 0 (sample_world ''/b/other'')))) = 0"
proof -
  let ?r = "request_filter sample_libs sample_proxy 0 (sample_world ''/b/other'')"
  have "visible_ascii ''id''" by code_simp
  moreover have "decide (px_policy sample_proxy) (ses_method (lib_session sample_libs) (wd_session (sample_world ''/b/other'')))
      (ses_path (lib_session sample_libs) (wd_session (sample_world ''/b/other''))) = Bypass"
    by code_simp
  ultimately have "response_body_filter sample_libs (Some ''x'') True (wd_ctx (fst ?r)) = (wd_ctx (fst ?r), Ok (Some ''x''))
      \<and> wd_session (fst ?r) = ses_adjust_compression (lib_session sample_libs) 0 (wd_session (sample_world ''/b/other''))"
    using bypass_transparent [OF sample_libs_ok sample_fresh [of "''/b/other''"] prod.collapse [symmetric],
        where P = sample_proxy and i = 0 and body = "Some ''x''" and eos = True]
    by blast
  then show ?thesis by (simp add: sample_libs_def sample_session_lib_def)
qed

end
