(* ===== verification/Text_Correct.thy ===== *)
theory Text_Correct
  imports Body_Correct
begin

text \<open>
  The rewriting keeps text text: every step of a pipeline, the literal rules, the expression
  patterns and the metadata, turns valid UTF-8 into valid UTF-8.
\<close>

section \<open>Expression patterns\<close>

lemma identifier_ascii: "is_ascii_identifier_continue b \<Longrightarrow> byte_val b < (128 :: nat)"
  by (auto simp: is_ascii_identifier_continue_def is_ascii_identifier_start_def is_ascii_alphabetic_def
      is_ascii_digit_def Let_def)

lemma ascii_append: "ascii (s @ t) \<longleftrightarrow> ascii s \<and> ascii t"
  by (auto simp: ascii_def)

lemma segment_ascii: "segment xs = Some (s, r) \<Longrightarrow> ascii s"
  by (auto simp: segment_def ascii_def is_ascii_identifier_continue_def intro!: identifier_ascii
      dest!: set_takeWhileD split: list.splits if_splits)

lemma expression_ascii: "expression syn xs = Some (e, r) \<Longrightarrow> ascii e"
proof (induction syn xs arbitrary: e rule: expression.induct)
  case (1 syn xs)
  obtain s r1 where s: "segment xs = Some (s, r1)"
    using "1.prems" by (auto simp: expression.simps [of syn xs] split: option.splits)
  show ?case
  proof (cases "syn = MemberExpression \<and> r1 \<noteq> [] \<and> hd r1 = CHR ''.''")
    case True
    then obtain e1 where "expression syn (tl r1) = Some (e1, r)" "e = s @ CHR ''.'' # e1"
      using "1.prems" [unfolded expression.simps [of syn xs]] s by (auto split: option.splits)
    with "1.IH" [OF s refl True] segment_ascii [OF s] show ?thesis
      by (auto simp: ascii_def)
  next
    case False
    with "1.prems" segment_ascii [OF s] expression_last [OF s False] show ?thesis by auto
  qed
qed

definition pattern_utf8 :: "pattern_rewriter \<Rightarrow> bool" where
  "pattern_utf8 pr \<longleftrightarrow> ascii (pr_prefix pr) \<and> ascii (pr_suffix pr)
     \<and> (case pr_replacement pr of Replace_Prefix p \<Rightarrow> utf8_valid p | Replace_Template t \<Rightarrow> utf8_valid t)"

lemma pattern_at_ascii:
  assumes "pattern_at pr xs = Some (e, r)"
  shows "ascii e"
  using assms by (auto simp: pattern_at_def split: if_splits option.splits intro: expression_ascii)

lemma replacement_utf8:
  assumes "pattern_utf8 pr" "ascii e"
  shows "utf8_valid (replacement_spec pr e)"
proof (cases "pr_replacement pr")
  case (Replace_Prefix p)
  with assms show ?thesis
    by (simp add: replacement_spec_def pattern_utf8_def utf8_valid_append ascii_valid)
next
  case (Replace_Template t)
  have "utf8_valid MARKER" "MARKER \<noteq> []" by (simp_all add: MARKER_def utf8_valid_ascii)
  with Replace_Template assms show ?thesis
    by (simp add: replacement_spec_def pattern_utf8_def literal_spec_utf8 ascii_valid)
qed

text \<open>Bytes of a longer sequence are copied one by one, so a part of it may have gone before.\<close>

lemma pattern_spec_utf8:
  "pattern_utf8 pr \<Longrightarrow> utf8_valid (seen @ xs) \<Longrightarrow> utf8_valid (seen @ pattern_spec pr prev xs)"
proof (induction pr prev xs arbitrary: seen rule: pattern_spec.induct)
  case (2 pr prev x xs)
  show ?case
  proof (cases "after_identifier prev \<or> pattern_at pr (x # xs) = None")
    case True
    then have "pattern_spec pr prev (x # xs) = x # pattern_spec pr (Some x) xs"
      by (auto simp: pattern_spec.simps(2))
    moreover have "utf8_valid ((seen @ [x]) @ pattern_spec pr (Some x) xs)"
      using True "2.IH"(1) [of "seen @ [x]"] "2.IH"(2) [of "seen @ [x]"] "2.prems" by auto
    ultimately show ?thesis by simp
  next
    case False
    then obtain e r where match: "\<not> after_identifier prev" "pattern_at pr (x # xs) = Some (e, r)" by auto
    from pattern_at_append [OF match(2)] have whole: "utf8_valid (seen @ (pr_prefix pr @ e @ pr_suffix pr) @ r)"
      and ne: "pr_prefix pr @ e @ pr_suffix pr \<noteq> []" using "2.prems"(2) by simp_all
    have ascii: "ascii e" by (rule pattern_at_ascii [OF match(2)])
    have "utf8_valid (pr_prefix pr @ e @ pr_suffix pr)"
      using "2.prems"(1) ascii by (intro ascii_valid) (simp add: ascii_append pattern_utf8_def)
    from utf8_valid_needle [OF whole this ne] have split: "utf8_valid seen" "utf8_valid ([] @ r)" by simp_all
    have "utf8_valid ([] @ pattern_spec pr (last_byte (replacement_spec pr e)) r)"
      by (rule "2.IH"(3) [OF match(1,2) refl "2.prems"(1) split(2)])
    with match split(1) replacement_utf8 [OF "2.prems"(1) ascii] show ?thesis
      by (simp add: pattern_spec.simps(2) utf8_valid_append)
  qed
qed simp

lemma pattern_steps_utf8:
  "\<forall>pr \<in> set prs. pattern_utf8 pr \<Longrightarrow> utf8_valid x \<Longrightarrow> utf8_valid (pattern_steps prs x)"
  by (induction prs arbitrary: x)
    (auto simp: pattern_steps_def pattern_spec_utf8 [where seen = "[]", simplified])

lemma profile_patterns_utf8:
  assumes "utf8_valid base_path"
  shows "\<forall>pr \<in> set (profile_patterns profile base_path). pattern_utf8 pr"
  using assms by (cases profile)
    (simp_all add: pattern_utf8_def pattern_start_def response_member_expression_rules_def
      response_template_rules_def ascii_def utf8_valid_append utf8_valid_ascii_Cons)

section \<open>Metadata\<close>

lemma payload_utf8:
  assumes "codec_ok C" "utf8_valid enc"
  shows "utf8_valid (payload_spec C d enc)"
proof (cases "rewrite_mig_meta_payload C d enc")
  case (Some new)
  then obtain b where "new = b64_encode C b"
    by (auto simp: rewrite_mig_meta_payload_def bind_eq_Some_conv split: if_splits)
  then have "\<forall>b \<in> set new. byte_val b < (128 :: nat)" using assms(1) unfolding codec_ok_def by blast
  with Some show ?thesis by (simp add: payload_spec_def utf8_valid_ascii)
qed (simp add: payload_spec_def assms(2))

lemma whitespace_ascii: "is_ascii_whitespace b \<Longrightarrow> byte_val b < (128 :: nat)"
  by (auto simp: is_ascii_whitespace_def Let_def)

lemma assignment_value_ascii: "assignment_value xs = Some (a, q, r) \<Longrightarrow> ascii a"
  by (auto simp: assignment_value_def ascii_def intro: whitespace_ascii dest!: set_takeWhileD
      split: list.splits if_splits)

lemma mig_spec_utf8:
  "codec_ok C \<Longrightarrow> utf8_valid xs \<Longrightarrow> utf8_valid (mig_spec C d xs)"
proof (induction C d xs rule: mig_spec.induct)
  case (1 C d xs)
  note eq = mig_spec.simps [of C d xs]
  show ?case
  proof (cases "first_occ ASSIGNMENT xs")
    case None
    with "1.prems" show ?thesis by (simp add: mig_spec.simps)
  next
    case (Some i)
    let ?rest = "drop (i + 16) xs"
    have "xs = take i xs @ ASSIGNMENT @ ?rest"
      using first_occ_take_drop [OF Some] by (metis ASSIGNMENT_length append.assoc append_take_drop_id)
    with "1.prems"(2) have "utf8_valid (take i xs @ ASSIGNMENT @ ?rest)" by simp
    moreover have ASSIGNMENT: "utf8_valid ASSIGNMENT" "ASSIGNMENT \<noteq> []" by (simp_all add: ASSIGNMENT_def utf8_valid_ascii)
    ultimately have "utf8_valid (take i xs)" and rest: "utf8_valid ?rest" by (rule utf8_valid_needle)+
    moreover have "take (i + 16) xs = take i xs @ ASSIGNMENT"
      using first_occ_take_drop [OF Some] by (simp add: ASSIGNMENT_length)
    ultimately have head: "utf8_valid (take (i + 16) xs)" using ASSIGNMENT(1) by (simp add: utf8_valid_append)
    show ?thesis
    proof (cases "assignment_value ?rest")
      case None
      with "1.IH"(1) [OF Some None "1.prems"(1) rest] head show ?thesis by (simp add: eq Some utf8_valid_append)
    next
      case found: (Some v)
      obtain a q r where v: "v = (a, q, r)" by (cases v) auto
      from assignment_value_append [OF found [unfolded v]] assignment_value_ascii [OF found [unfolded v]] rest
      have parts: "ascii a" "utf8_valid r" "q = APO \<or> q = QUO" by (auto simp: utf8_valid_ascii_append)
      show ?thesis
      proof (cases "split_once [q] r")
        case None
        with parts head show ?thesis
          by (simp add: eq Some found v utf8_valid_append ascii_valid)
      next
        case split: (Some s)
        obtain enc post where s: "s = (enc, post)" by (cases s)
        have "utf8_valid [q]" using parts(3) by (auto intro!: utf8_valid_ascii)
        moreover have "utf8_valid (enc @ [q] @ post)"
          using split parts(2) by (simp add: s split_once_byte_iff)
        ultimately have "utf8_valid enc" "utf8_valid post" using utf8_valid_needle by blast+
        with "1.IH"(2) [OF Some found v [symmetric] refl split s [symmetric]] payload_utf8 [OF "1.prems"(1)] "1.prems"(1) parts head \<open>utf8_valid [q]\<close>
        show ?thesis
          by (simp add: eq Some found v split s utf8_valid_append ascii_valid utf8_valid_append [of "[q]", simplified])
      qed
    qed
  qed
qed

section \<open>The body of a response\<close>

lemma profile_spec_utf8:
  assumes "codec_ok C" "utf8_valid base_path" "utf8_valid extension" "utf8_valid x"
  shows "utf8_valid (profile_spec C profile base_path extension x)"
proof -
  have "utf8_valid (pattern_steps (profile_patterns profile base_path)
      (literal_steps (profile_literals profile base_path extension) x))"
    using assms(2-4) by (intro pattern_steps_utf8 profile_patterns_utf8 literal_steps_utf8 profile_literals_utf8)
  then show ?thesis unfolding profile_spec_def Let_def using mig_spec_utf8 [OF assms(1)] by presburger
qed

text \<open>
  C17. A rewritten response is text: the chunks that the client receives, put together, are valid
  UTF-8, and they are only sent to their end for a body that is valid UTF-8 itself; whatever its
  profile, however the upstream has cut the body, and whatever a page has put into its metadata.
\<close>

theorem delivered_text:
  assumes "libs_ok L" "codec_ok (lib_codec L)" "config_wf (px_config P)" "no_queue_waiters L w0" "wd_ctx w0 = new_ctx rid"
    and "request_filter L P i w0 = (w, Continue)" "cx_decision (wd_ctx w) = Rewrite profile ext False"
    and "visible_ascii rid" "utf8_valid (ses_path (lib_session L) (wd_session w0))"
    and "response_filter L P w rsp = (w', Ok rsp')" "cx_rewriter (wd_ctx w') \<noteq> None"
    and "bs \<noteq> []" "deliver L (wd_ctx w') bs = Ok v"
  shows "utf8_valid v \<and> utf8_valid (concat (map chunk_bytes bs))"
proof -
  let ?base = "ec_base_path (px_config P)"
  from request_filter_result [OF assms(1,4,5,6)] have "cx_decision (wd_ctx w) =
      decide (px_policy P) (ses_method (lib_session L) (wd_session w0)) (ses_path (lib_session L) (wd_session w0))"
    by simp
  from decide_utf8 [OF this [symmetric, unfolded assms(7)] assms(9)] have ext: "utf8_valid ext" .
  have base: "utf8_valid ?base" using assms(3) by (auto simp: config_wf_def intro: safe_base_path_utf8)
  from delivered_body [OF assms(1,3-12) refl] assms(13)
  have "utf8_valid (concat (map chunk_bytes bs))"
    "v = profile_spec (lib_codec L) profile ?base ext (concat (map chunk_bytes bs))"
    by (simp_all split: if_splits)
  with profile_spec_utf8 [OF assms(2) base ext] show ?thesis by simp
qed

theorem delivered_text_witness:
  "\<exists>v. deliver sample_libs (wd_ctx (fst (response_filter sample_libs sample_proxy admitted_world plain_response)))
      [Some ''a`//${window.'', None, Some ''location.host}/''] = Ok v \<and> utf8_valid v"
proof -
  let ?bs = "[Some ''a`//${window.'', None, Some ''location.host}/'']"
  let ?r = "response_filter sample_libs sample_proxy admitted_world plain_response"
  have "case snd ?r of Ok rsp' \<Rightarrow> True | _ \<Rightarrow> False" by code_simp
  then obtain rsp' where "snd ?r = Ok rsp'" by (auto split: outcome.splits)
  then have r: "?r = (fst ?r, Ok rsp')" by (metis prod.collapse)
  have "case cx_rewriter (wd_ctx (fst ?r)) of Some p \<Rightarrow> True | None \<Rightarrow> False" by code_simp
  then have kept: "cx_rewriter (wd_ctx (fst ?r)) \<noteq> None" by (auto split: option.splits)
  have id: "visible_ascii ''id''" by code_simp
  have path: "utf8_valid (ses_path (lib_session sample_libs) (wd_session (sample_world bundle_path)))" by code_simp
  have codec: "codec_ok (lib_codec sample_libs)" by (simp add: sample_libs_def sample_codec_ok)
  have sent: "deliver sample_libs (wd_ctx (fst ?r)) ?bs = Ok ''a`//${window.location.host}/b/''" by code_simp
  from delivered_text [OF sample_libs_ok codec sample_config_wf sample_fresh sample_request sample_ready(2) id path r kept _ sent]
  have "utf8_valid ''a`//${window.location.host}/b/''" by simp
  with sent show ?thesis by blast
qed

end
