(* ===== verification/Rewrite_Again.thy ===== *)
theory Rewrite_Again
  imports Profiles_Correct
begin

text \<open>
  Rewriting what has been rewritten. A rewriter that appends a suffix is idempotent when its
  needle starts with a byte that occurs nowhere else in the needle or the suffix, because then
  no insertion makes a new occurrence; this is the rewriter of the two kinds of JavaScript
  bundles. Rules that replace their sources settle when no replacement, wherever it is put,
  touches an occurrence of a source; this is the case of proxied pages and of the legacy
  script, and not for every base path.
\<close>

section \<open>Appending a suffix twice\<close>

lemma literal_spec_tail:
  assumes "src = c # t"
  shows "c \<notin> set u \<Longrightarrow> prefix u (literal_spec (Append (src @ s) s) src seen y) \<longleftrightarrow> prefix u y"
proof (induction u arbitrary: y seen)
  case (Cons a u)
  show ?case
  proof (cases y)
    case (Cons x xs)
    have "literal_spec (Append (src @ s) s) src seen y = x # literal_spec (Append (src @ s) s) src (seen @ [x]) xs"
      if "\<not> prefix src y"
      using that by (simp add: Cons literal_spec.simps)
    moreover have "\<not> prefix (a # u) y \<and> \<not> prefix (a # u) (literal_spec (Append (src @ s) s) src seen y)"
      if "prefix src y"
      using that Cons.prems literal_spec_match [of src y] by (auto simp: assms Cons)
    ultimately show ?thesis
      using Cons.IH [of "seen @ [x]" xs] Cons.prems by (cases "prefix src y") (auto simp: Cons)
  qed simp
qed simp

lemma literal_spec_past:
  assumes "src = c # t"
  shows "c \<notin> set u \<Longrightarrow> \<exists>seen'. literal_spec m src seen (u @ y) = u @ literal_spec m src seen' y"
proof (induction u arbitrary: seen)
  case (Cons a u)
  then obtain seen' where "literal_spec m src (seen @ [a]) (u @ y) = u @ literal_spec m src seen' y" by fastforce
  with Cons.prems show ?case by (auto simp: literal_spec.simps assms)
qed auto

lemma append_suffix_idempotent:
  assumes "src = c # t" "c \<notin> set t" "c \<notin> set s"
  shows "literal_spec (Append (src @ s) s) src seen' (literal_spec (Append (src @ s) s) src seen x) =
    literal_spec (Append (src @ s) s) src seen x"
proof (induction "length x" arbitrary: x seen seen' rule: less_induct)
  case less
  let ?T = "literal_spec (Append (src @ s) s) src"
  show ?case
  proof (cases x)
    case x: (Cons b xs)
    show ?thesis
    proof (cases "prefix src x")
      case False
      then have T: "?T seen x = b # ?T (seen @ [b]) xs" by (simp add: x literal_spec.simps)
      have "\<not> prefix src (b # ?T (seen @ [b]) xs)"
        using False literal_spec_tail [OF assms(1,2)] by (simp add: x assms(1))
      then have "?T seen' (b # ?T (seen @ [b]) xs) = b # ?T (seen' @ [b]) (?T (seen @ [b]) xs)"
        by (simp add: literal_spec.simps(2) [of _ _ seen'])
      also have "?T (seen' @ [b]) (?T (seen @ [b]) xs) = ?T (seen @ [b]) xs"
        by (rule less) (simp add: x)
      finally show ?thesis by (simp only: T)
    next
      case True
      then obtain rest where rest: "x = src @ rest" by (auto simp: prefix_def)
      have T: "?T sn (src @ y) = (if prefix s y then src else src @ s) @ ?T (sn @ src) y" for sn y
        using literal_spec_match [of src "src @ y"] by (simp add: assms(1))
      have again: "?T sn (?T (seen @ src) rest) = ?T (seen @ src) rest" for sn
        by (rule less) (simp add: rest assms(1))
      show ?thesis
      proof (cases "prefix s rest")
        case True
        then have "prefix s (?T (seen @ src) rest)" by (simp add: literal_spec_tail [OF assms(1,3)])
        with True show ?thesis by (simp add: rest T again)
      next
        case False
        obtain sn where "?T (seen' @ src) (s @ ?T (seen @ src) rest) = s @ ?T sn (?T (seen @ src) rest)"
          using literal_spec_past [OF assms(1,3)] by blast
        with False show ?thesis by (simp add: rest T again)
      qed
    qed
  qed simp
qed

section \<open>Exact rules\<close>

text \<open>
  A replacement is inert for a needle when no occurrence of the needle in a text around the
  replacement touches it. Then the needle occurs in the output only if it occurs in the input,
  and the source of the rule occurs no more.
\<close>

definition inert :: "bytes \<Rightarrow> bytes \<Rightarrow> bool" where
  "inert w rep \<longleftrightarrow>
     (\<forall>a b i. occurs_at w (a @ rep @ b) i \<longrightarrow> i + length w \<le> length a \<or> length a + length rep \<le> i)"

lemma exact_spec_occurs:
  assumes "src \<noteq> []" "inert w rep" "occurs_at w (literal_spec (Exact rep) src seen x) i"
  shows "w \<noteq> src \<and> (\<exists>j. occurs_at w x j)"
  using assms(3)
proof (induction "length x" arbitrary: x seen i rule: less_induct)
  case less
  show ?case
  proof (cases "first_occ src x")
    case None
    with less.prems have "occurs_at w x i" by (simp add: literal_spec_none)
    with None show ?thesis by (auto simp: first_occ_None_iff)
  next
    case (Some k)
    let ?rest = "drop (k + length src) x"
    have k: "occurs_at src x k" "\<And>j. j < k \<Longrightarrow> \<not> occurs_at src x j" "k + length src \<le> length x"
      using Some by (auto simp: first_occ_Some_iff dest: occurs_at_bound)
    define y where "y = literal_spec (Exact rep) src (seen @ take k x @ src) ?rest"
    have occ: "occurs_at w (take k x @ rep @ y) i"
      using less.prems literal_spec_first [OF assms(1) Some] by (simp add: y_def)
    with assms(2) have "i + length w \<le> length (take k x) \<or> length (take k x) + length rep \<le> i"
      unfolding inert_def by blast
    then show ?thesis
    proof
      assume i: "i + length w \<le> length (take k x)"
      with occ have "occurs_at w (take k x) i" by (simp add: occurs_at_append_iff)
      then have "occurs_at w x i" using occurs_at_append1 [of w "take k x" i "drop k x"] by simp
      moreover have "w \<noteq> src"
      proof
        assume "w = src"
        moreover from this i assms(1) k(3) have "i < k" by (cases src) auto
        ultimately show False using k(2) \<open>occurs_at w x i\<close> by blast
      qed
      ultimately show ?thesis by blast
    next
      assume i: "length (take k x) + length rep \<le> i"
      with occ have "occurs_at w y (i - (length (take k x) + length rep))"
        using occurs_at_drop [of "length (take k x @ rep)" "take k x @ rep @ y" w "i - (length (take k x) + length rep)"] by simp
      then have "w \<noteq> src \<and> (\<exists>j. occurs_at w ?rest j)"
        unfolding y_def by (rule less.hyps [rotated]) (use k(3) assms(1) in \<open>cases src; simp\<close>)
      then show ?thesis using k(3) by (auto simp: occurs_at_drop)
    qed
  qed
qed

lemma inertI:
  assumes "rep \<noteq> []" "hd rep \<notin> set (tl w)"
    and "\<And>p. p < length rep \<Longrightarrow> \<not> prefix w (drop p rep) \<and> \<not> prefix (drop p rep) w"
  shows "inert w rep"
  unfolding inert_def
proof (intro allI impI, rule ccontr)
  fix a b i
  assume "occurs_at w (a @ rep @ b) i" and no: "\<not> (i + length w \<le> length a \<or> length a + length rep \<le> i)"
  then obtain p q where eq: "a @ rep @ b = p @ w @ q" "length p = i" by (auto simp: occurs_at_iff_split)
  show False
  proof (cases "i < length a")
    case True
    have "hd rep = (a @ rep @ b) ! length a" using assms(1) by (simp add: nth_append hd_conv_nth)
    also have "\<dots> = w ! (length a - i)"
    proof -
      from True no have "length a - i < length w" by auto
      with True eq(2) show ?thesis unfolding eq(1) by (simp add: nth_append)
    qed
    also have "\<dots> = tl w ! (length a - i - 1)" using True no by (cases w) (auto simp: nth_Cons')
    also have "\<dots> \<in> set (tl w)" using True no by (intro nth_mem) auto
    finally show False using assms(2) by simp
  next
    case False
    have "drop i (a @ rep @ b) = drop i (p @ w @ q)" by (simp only: eq(1))
    with False no eq(2) have "drop (i - length a) rep @ b = w @ q" by simp
    moreover have "i - length a < length rep" using no False by auto
    ultimately show False
      using assms(3) [of "i - length a"] by (metis prefixI prefix_same_cases)
  qed
qed

definition bounded_by :: "byte set \<Rightarrow> bytes \<Rightarrow> bool" where
  "bounded_by B u \<longleftrightarrow> (case u of [] \<Rightarrow> False | c # t \<Rightarrow> c \<in> B \<and> set t \<inter> B = {})"

lemma bounded_inert:
  assumes "bounded_by B w" "bounded_by B rep" "\<And>z. \<not> prefix w (rep @ z)"
  shows "inert w rep"
proof -
  obtain c t d u where w: "w = c # t" "c \<in> B" "set t \<inter> B = {}" and rep: "rep = d # u" "d \<in> B" "set u \<inter> B = {}"
    using assms(1,2) by (auto simp: bounded_by_def split: list.splits)
  show ?thesis
  proof (rule inertI)
    fix p assume p: "p < length rep"
    show "\<not> prefix w (drop p rep) \<and> \<not> prefix (drop p rep) w"
    proof (cases p)
      case 0
      have "\<not> prefix rep w" using assms(3) by (auto simp: prefix_def)
      with 0 assms(3) [of "[]"] show ?thesis by simp
    next
      case (Suc k)
      with p rep have "drop p rep = u ! k # drop (Suc k) u" "u ! k \<in> set u"
        by (simp_all add: Cons_nth_drop_Suc)
      with rep w show ?thesis by auto
    qed
  qed (use w rep in auto)
qed

text \<open>A list of such rules leaves none of its sources, so that applying it again changes nothing.\<close>

definition rules_settle :: "(bytes \<times> bytes) list \<Rightarrow> bool" where
  "rules_settle rules \<longleftrightarrow>
     (\<forall>(src, rep) \<in> set rules. src \<noteq> [] \<and> (\<forall>(src', rep') \<in> set rules. inert src rep'))"

lemma rules_settleD:
  "rules_settle rules \<Longrightarrow> (src, rep) \<in> set rules \<Longrightarrow> src \<noteq> []"
  "rules_settle rules \<Longrightarrow> (src, rep) \<in> set rules \<Longrightarrow> (src', rep') \<in> set rules \<Longrightarrow> inert src rep'"
  by (force simp: rules_settle_def)+

lemma exact_steps_occurs:
  assumes "rules_settle all_rules" "(w, r) \<in> set all_rules"
  shows "set rules \<subseteq> set all_rules \<Longrightarrow> occurs_at w (literal_steps (exact_steps rules) x) i \<Longrightarrow>
    w \<notin> fst ` set rules \<and> (\<exists>j. occurs_at w x j)"
proof (induction rules arbitrary: x i)
  case Nil
  then show ?case by (auto simp: exact_steps_def literal_steps_def)
next
  case (Cons rule rules)
  obtain src rep where rule: "rule = (src, rep)" by (cases rule)
  from Cons.prems(1) have "(src, rep) \<in> set all_rules" by (simp add: rule)
  then have "src \<noteq> []" "inert w rep"
    using rules_settleD(1) [OF assms(1)] rules_settleD(2) [OF assms] by blast+
  note once = exact_spec_occurs [OF this]
  from Cons.prems have "occurs_at w (literal_steps (exact_steps rules) (literal_spec (Exact rep) src [] x)) i"
    by (simp add: exact_steps_def literal_steps_def rule)
  from Cons.IH [OF _ this] Cons.prems(1) obtain j where
    "w \<notin> fst ` set rules" "occurs_at w (literal_spec (Exact rep) src [] x) j" by auto
  with once [of "[]" x j] show ?case by (auto simp: rule)
qed

lemma exact_steps_settled:
  assumes "rules_settle rules"
  shows "\<forall>(m, src) \<in> set (exact_steps rules). first_occ src (literal_steps (exact_steps rules) x) = None"
proof clarify
  fix m src
  assume "(m, src) \<in> set (exact_steps rules)"
  then obtain rep where rule: "(src, rep) \<in> set rules" by (auto simp: exact_steps_def)
  then have "src \<in> fst ` set rules" by force
  with exact_steps_occurs [OF assms rule subset_refl]
  show "first_occ src (literal_steps (exact_steps rules) x) = None"
    by (auto simp: first_occ_None_iff)
qed

section \<open>The profiles\<close>

definition boundaries :: "byte list" where
  "boundaries = [CHR '' '', CHR 0x09, CHR 0x0D, CHR 0x0A, CHR 0x0C]"

lemma bounded_rules_settle:
  assumes "\<And>src rep. (src, rep) \<in> set rules \<Longrightarrow> bounded_by B src \<and> bounded_by B rep"
    and "\<And>src rep src' rep' z. (src, rep) \<in> set rules \<Longrightarrow> (src', rep') \<in> set rules \<Longrightarrow> \<not> prefix src (rep' @ z)"
  shows "rules_settle rules"
  unfolding rules_settle_def
proof clarify
  fix src rep
  assume r: "(src, rep) \<in> set rules"
  have "src \<noteq> []" using assms(1) [OF r] by (auto simp: bounded_by_def)
  moreover have "inert src rep'" if "(src', rep') \<in> set rules" for src' rep'
    using assms(1) [OF r] assms(1) [OF that] assms(2) [OF r that] by (blast intro: bounded_inert)
  ultimately show "src \<noteq> [] \<and> (\<forall>(src', rep') \<in> set rules. inert src rep')" by blast
qed

lemma attribute_rules_settle:
  assumes "set base_path \<inter> set boundaries = {}" "set root \<inter> set boundaries = {}" "\<not> prefix root (base_path @ root)"
  shows "rules_settle (attribute_rules base_path root)"
proof (rule bounded_rules_settle [where B = "set boundaries"])
  have "\<not> prefix root (base_path @ root @ z)" for z
    using assms(3) prefix_length_prefix [of root "base_path @ root @ z" "base_path @ root"] by auto
  then show "\<not> prefix src (rep' @ z)"
    if "(src, rep) \<in> set (attribute_rules base_path root)" "(src', rep') \<in> set (attribute_rules base_path root)"
    for src rep src' rep' z
    using that by (auto simp: attribute_rules_def)
qed (use assms in \<open>auto simp: attribute_rules_def bounded_by_def boundaries_def\<close>)

text \<open>For which base paths and extensions a profile is idempotent.\<close>

fun settles :: "rewrite_profile \<Rightarrow> bytes \<Rightarrow> bytes \<Rightarrow> bool" where
  "settles NamedProxyHtml base_path extension \<longleftrightarrow>
     extension \<noteq> ''kubekey'' \<and> set (base_path @ extension) \<inter> set boundaries = {}
     \<and> \<not> prefix (''/proxy/'' @ extension @ ''/'') (base_path @ ''/proxy/'' @ extension @ ''/'')"
| "settles JsBundle base_path extension \<longleftrightarrow> CHR ''`'' \<notin> set base_path"
| "settles FrontendIndexJsBundle base_path extension \<longleftrightarrow> CHR ''`'' \<notin> set base_path"
| "settles KubekeyAssetJs base_path extension \<longleftrightarrow>
     prefix ''/'' base_path
     \<and> (\<forall>p < length base_path. \<not> prefix KUBEKEY_LEGACY_ROOT (drop p base_path) \<and> \<not> prefix (drop p base_path) KUBEKEY_LEGACY_ROOT)"
| "settles _ base_path extension \<longleftrightarrow> False"

lemma host_step_settles:
  assumes "CHR ''`'' \<notin> set base_path"
  shows "literal_steps [host_step base_path] (literal_steps [host_step base_path] x) = literal_steps [host_step base_path] x"
proof -
  let ?s = "trim_start_matches CHR ''/'' base_path @ ''/''"
  have "location_host = CHR ''`'' # ''//${window.location.host}/''" "CHR ''`'' \<notin> set ''//${window.location.host}/''"
    by (simp_all add: location_host_def)
  moreover have "CHR ''`'' \<notin> set ?s"
    using assms by (auto simp: trim_start_matches_def dest: set_dropWhileD)
  ultimately have "literal_spec (Append (location_host @ ?s) ?s) location_host []
      (literal_spec (Append (location_host @ ?s) ?s) location_host [] x) =
    literal_spec (Append (location_host @ ?s) ?s) location_host [] x"
    by (rule append_suffix_idempotent)
  then show ?thesis
    by (simp add: literal_steps_def host_step_def Let_def)
qed

lemma page_steps_settle:
  assumes "settles NamedProxyHtml base_path extension"
  shows "rules_settle (page_steps base_path extension)"
proof -
  have "set (''/proxy/'' @ extension @ ''/'') \<inter> set boundaries = {}" if "set extension \<inter> set boundaries = {}"
    using that by (auto simp: boundaries_def)
  with assms show ?thesis
    using attribute_rules_settle [of base_path "''/proxy/'' @ extension @ ''/''"]
    by (simp add: page_steps_def Int_Un_distrib2)
qed

lemma legacy_root_settles:
  assumes "settles KubekeyAssetJs base_path extension"
  shows "rules_settle [(KUBEKEY_LEGACY_ROOT, base_path)]"
proof -
  have "inert KUBEKEY_LEGACY_ROOT base_path"
  proof (rule inertI)
    from assms have "base_path \<noteq> []" "hd base_path = CHR ''/''" by (auto simp: prefix_def)
    then show "base_path \<noteq> []" "hd base_path \<notin> set (tl KUBEKEY_LEGACY_ROOT)"
      by (simp_all add: KUBEKEY_LEGACY_ROOT_def)
  qed (use assms in simp)
  then show ?thesis by (simp add: rules_settle_def KUBEKEY_LEGACY_ROOT_def)
qed

text \<open>A profile of exact rules only.\<close>

lemma exact_profile_settles:
  assumes "profile_literals profile base_path extension = exact_steps rules" "rules_settle rules"
    and "profile_patterns profile base_path = []" "profile \<noteq> Ys1000Html"
    and "y = profile_spec C profile base_path extension x"
  shows "profile_spec C profile base_path extension y = y
    \<and> (length y \<le> usize_max \<longrightarrow> texts_fit (profile_literals profile base_path extension) y)"
proof -
  have spec: "profile_spec C profile base_path extension z = literal_steps (exact_steps rules) z" for z
    using assms(1,3,4) by (simp add: profile_spec_def pattern_steps_def)
  have none: "\<forall>(m, src) \<in> set (exact_steps rules). first_occ src y = None"
    using exact_steps_settled [OF assms(2)] by (simp add: assms(5) spec)
  show ?thesis
    using texts_fit_identity [OF none] literal_steps_identity [OF none] by (simp add: spec assms(1))
qed

lemma profile_settles:
  assumes "settles profile base_path extension" "y = profile_spec C profile base_path extension x"
  shows "profile_spec C profile base_path extension y = y
    \<and> (length y \<le> usize_max \<longrightarrow> texts_fit (profile_literals profile base_path extension) y)"
proof (cases "profile \<in> {NamedProxyHtml, KubekeyAssetJs}")
  case True
  then show ?thesis
    using exact_profile_settles [OF _ _ _ _ assms(2)] assms(1) page_steps_settle legacy_root_settles
    by (cases profile; auto)
next
  case False
  with assms(1) have "profile_literals profile base_path extension = [host_step base_path]" "profile \<noteq> Ys1000Html"
    and "CHR ''`'' \<notin> set base_path" "profile_patterns profile base_path = []"
    by (cases profile; simp)+
  with assms(2) host_step_settles [of base_path x] show ?thesis
    by (simp add: profile_spec_def pattern_steps_def texts_fit_def literal_steps_def)
qed

lemma settled_profile_utf8:
  assumes "settles profile base_path extension" "utf8_valid base_path" "utf8_valid extension" "utf8_valid x"
  shows "utf8_valid (profile_spec C profile base_path extension x)"
  using assms literal_steps_utf8 [OF profile_literals_utf8 [OF assms(2,3), of profile] assms(4)]
  by (cases profile) (simp_all add: profile_spec_def pattern_steps_def)

text \<open>
  C16. Rewriting settles: what the rewriter of a JavaScript bundle, of the script of the legacy
  page or of a proxied page has returned, fed to a second one in any chunks, comes out unchanged
  (as long as it fits the limit). For bundles the base path has to be free of backticks; for the
  legacy script it starts with a slash and none of its ends can be read as the start of the
  legacy root; for pages base path and extension are free of white space, and the base path must
  not itself start with the root of the proxied extension.
\<close>

theorem rewriting_settles:
  assumes "memchr_ok M" "utf8_valid base_path" "utf8_valid extension" "settles profile base_path extension"
    and "build_selected_response_rewriter M C profile base_path extension max_bytes = Ok p"
    and "chunked_run (pipeline_push M) (pipeline_finish M) p cs = Ok v"
    and "concat ds = v" "length v \<le> max_bytes" "max_bytes \<le> usize_max"
  shows "chunked_run (pipeline_push M) (pipeline_finish M) p ds = Ok v"
proof -
  note run = profile_run [OF assms(1-3,5)]
  from assms(6) have v: "v = profile_spec C profile base_path extension (concat cs)" and x: "utf8_valid (concat cs)"
    by (simp_all add: run)
  have "utf8_valid v" unfolding v by (rule settled_profile_utf8 [OF assms(4,2,3) x])
  with profile_settles [OF assms(4) v] assms(7-9) show ?thesis by (simp add: run)
qed

theorem rewriting_settles_witness:
  "chunked_run (pipeline_push std_memchr) (pipeline_finish std_memchr)
     (profile_pipeline std_memchr sample_codec NamedProxyHtml ''/b'' ''x'' 80)
     [''<a href='' @ [QUO] @ ''/b/pro'', ''xy/x/i'' @ [QUO]] =
   Ok (''<a href='' @ [QUO] @ ''/b/proxy/x/i'' @ [QUO])"
proof -
  let ?p = "profile_pipeline std_memchr sample_codec NamedProxyHtml ''/b'' ''x'' 80"
  let ?cs = "[''<a href='' @ [QUO] @ ''/proxy/x/i'' @ [QUO]]" and ?v = "''<a href='' @ [QUO] @ ''/b/proxy/x/i'' @ [QUO]"
  have names: "utf8_valid ''/b''" "utf8_valid ''x''" by code_simp+
  have settles: "settles NamedProxyHtml ''/b'' ''x''" by code_simp
  have first: "chunked_run (pipeline_push std_memchr) (pipeline_finish std_memchr) ?p ?cs = Ok ?v" by code_simp
  show ?thesis
    by (rule rewriting_settles [OF std_memchr_ok names settles build_selected_Ok first])
      (simp_all add: usize_max_def)
qed

text \<open>
  Without the last condition it does not: under the base path \<open>/proxy/x\<close> every pass over a page of
  the extension \<open>x\<close> puts the base path in front once more.
\<close>

theorem page_rewritten_again:
  "profile_spec C NamedProxyHtml ''/proxy/x'' ''x'' ('' href='' @ [QUO] @ ''/proxy/x/i'') =
     '' href='' @ [QUO] @ ''/proxy/x/proxy/x/i''
   \<and> profile_spec C NamedProxyHtml ''/proxy/x'' ''x'' ('' href='' @ [QUO] @ ''/proxy/x/proxy/x/i'') =
     '' href='' @ [QUO] @ ''/proxy/x/proxy/x/proxy/x/i''"
  by (rule conjI) code_simp+

end
