(* ===== verification/Metrics.thy ===== *)
theory Metrics
  imports Handler
begin

text \<open>
  The metrics of \<open>src/metrics.rs\<close>: six families, created and registered in order, and their text
  encoding. The crate \<open>prometheus\<close> is a parameter: its constructors check names and labels, a
  registry refuses a name that it has already, and the encoder reads the registry. The values
  are the record \<open>metrics\<close> that the handlers update; the registry holds the same cells.
\<close>

datatype metric_kind = Counter_Vec | Histogram_Vec | Gauge

record metric_family =
  mf_kind :: metric_kind
  mf_name :: bytes
  mf_help :: bytes
  mf_labels :: "bytes list"

record ('c, 'r) prometheus_lib =
  prom_registry :: 'r \<comment> \<open>\<open>Registry::new\<close>\<close>
  prom_create :: "metric_family \<Rightarrow> 'c option" \<comment> \<open>\<open>IntCounterVec::new\<close>, \<open>HistogramVec::new\<close>, \<open>IntGauge::new\<close>\<close>
  prom_register :: "'c \<Rightarrow> 'r \<Rightarrow> 'r option"
  prom_encode :: "'r \<Rightarrow> metrics \<Rightarrow> bytes option" \<comment> \<open>\<open>TextEncoder::encode\<close> of \<open>gather\<close>\<close>
  prom_format :: bytes

section \<open>Creation and encoding\<close>

definition METRIC_FAMILIES :: "metric_family list" where
  "METRIC_FAMILIES =
     [\<lparr>mf_kind = Counter_Vec, mf_name = ''kse_rewrite_requests_total'',
       mf_help = ''Requests handled by outcome'', mf_labels = [''outcome'', ''extension'']\<rparr>,
      \<lparr>mf_kind = Histogram_Vec, mf_name = ''kse_rewrite_request_duration_seconds'',
       mf_help = ''End-to-end request duration'', mf_labels = [''outcome'']\<rparr>,
      \<lparr>mf_kind = Gauge, mf_name = ''kse_rewrite_active'', mf_help = ''Active response rewrites'', mf_labels = []\<rparr>,
      \<lparr>mf_kind = Gauge, mf_name = ''kse_rewrite_queued'', mf_help = ''Queued response rewrites'', mf_labels = []\<rparr>,
      \<lparr>mf_kind = Counter_Vec, mf_name = ''kse_rewrite_input_bytes_total'',
       mf_help = ''Decoded bytes inspected'', mf_labels = [''extension'']\<rparr>,
      \<lparr>mf_kind = Counter_Vec, mf_name = ''kse_rewrite_output_bytes_total'',
       mf_help = ''Rewritten bytes emitted'', mf_labels = [''extension'']\<rparr>]"

text \<open>All collectors are created before the first is registered; each \<open>?\<close> ends the function.\<close>

fun create_all :: "('c, 'r) prometheus_lib \<Rightarrow> metric_family list \<Rightarrow> 'c list option" where
  "create_all R [] = Some []"
| "create_all R (f # fs) =
     Option.bind (prom_create R f) (\<lambda>c. Option.bind (create_all R fs) (\<lambda>cs. Some (c # cs)))"

fun register_all :: "('c, 'r) prometheus_lib \<Rightarrow> 'c list \<Rightarrow> 'r \<Rightarrow> 'r option" where
  "register_all R [] r = Some r"
| "register_all R (c # cs) r = Option.bind (prom_register R c r) (register_all R cs)"

definition metrics_create :: "('c, 'r) prometheus_lib \<Rightarrow> ('r \<times> metrics) option" where
  "metrics_create R =
     Option.bind (create_all R METRIC_FAMILIES) (\<lambda>collectors.
     Option.bind (register_all R collectors (prom_registry R)) (\<lambda>registry.
       Some (registry, metrics_new)))"

definition metrics_encode :: "('c, 'r) prometheus_lib \<Rightarrow> 'r \<Rightarrow> metrics \<Rightarrow> (bytes \<times> bytes) option" where
  "metrics_encode R registry m =
     Option.bind (prom_encode R registry m) (\<lambda>body. Some (prom_format R, body))"

section \<open>What the crate promises\<close>

definition name_char :: "byte \<Rightarrow> bool" where
  "name_char b \<longleftrightarrow> is_ascii_alphabetic b \<or> b = CHR ''_''"

definition metric_name_ok :: "bytes \<Rightarrow> bool" where
  "metric_name_ok n \<longleftrightarrow>
     (case n of [] \<Rightarrow> False
      | b # r \<Rightarrow> (name_char b \<or> b = CHR '':'')
          \<and> list_all (\<lambda>x. name_char x \<or> is_ascii_digit x \<or> x = CHR '':'') r)"

definition label_name_ok :: "bytes \<Rightarrow> bool" where
  "label_name_ok n \<longleftrightarrow>
     (case n of [] \<Rightarrow> False | b # r \<Rightarrow> name_char b \<and> list_all (\<lambda>x. name_char x \<or> is_ascii_digit x) r)
     \<and> \<not> prefix ''__'' n"

definition family_ok :: "metric_family \<Rightarrow> bool" where
  "family_ok f \<longleftrightarrow>
     metric_name_ok (mf_name f) \<and> mf_help f \<noteq> [] \<and> list_all label_name_ok (mf_labels f)
     \<and> distinct (mf_labels f) \<and> (mf_kind f = Histogram_Vec \<longrightarrow> ''le'' \<notin> set (mf_labels f))
     \<and> (mf_kind f = Gauge \<longrightarrow> mf_labels f = [])"

text \<open>\<open>families\<close> observes what a registry holds, \<open>family\<close> what a collector is.\<close>

locale metric_registry =
  fixes registry :: 'r
    and create :: "metric_family \<Rightarrow> 'c option"
    and register :: "'c \<Rightarrow> 'r \<Rightarrow> 'r option"
    and family :: "'c \<Rightarrow> metric_family"
    and families :: "'r \<Rightarrow> metric_family list"
  assumes new_registry: "families registry = []"
    and create_valid: "family_ok f \<Longrightarrow> \<exists>c. create f = Some c \<and> family c = f"
    and register_fresh: "mf_name (family c) \<notin> mf_name ` set (families r) \<Longrightarrow>
      \<exists>r'. register c r = Some r' \<and> families r' = families r @ [family c]"
    and register_again: "mf_name (family c) \<in> mf_name ` set (families r) \<Longrightarrow> register c r = None"

definition prometheus_ok :: "('c \<Rightarrow> metric_family) \<Rightarrow> ('r \<Rightarrow> metric_family list) \<Rightarrow> ('c, 'r) prometheus_lib \<Rightarrow> bool" where
  [wf_simps]: "prometheus_ok family families R \<longleftrightarrow>
     metric_registry (prom_registry R) (prom_create R) (prom_register R) family families"

context metric_registry
begin

lemma register_many:
  "distinct (map mf_name (families r @ map family cs)) \<Longrightarrow>
     \<exists>r'. fold (\<lambda>c s. Option.bind s (register c)) cs (Some r) = Some r' \<and> families r' = families r @ map family cs"
proof (induction cs arbitrary: r)
  case (Cons c cs)
  then have "mf_name (family c) \<notin> mf_name ` set (families r)" by auto
  then obtain r1 where "register c r = Some r1" "families r1 = families r @ [family c]"
    using register_fresh by blast
  with Cons.IH [of r1] Cons.prems show ?case by simp
qed simp

end

text \<open>An instance: a collector is its family, a registry the list of its families.\<close>

definition list_register :: "metric_family \<Rightarrow> metric_family list \<Rightarrow> metric_family list option" where
  "list_register c r = (if mf_name c \<in> mf_name ` set r then None else Some (r @ [c]))"

definition list_create :: "metric_family \<Rightarrow> metric_family option" where
  "list_create f = (if family_ok f then Some f else None)"

interpretation list_registry: metric_registry "[]" list_create list_register "\<lambda>c. c" "\<lambda>r. r"
  by unfold_locales (auto simp: list_register_def list_create_def)

definition list_prometheus :: "(metric_family, metric_family list) prometheus_lib" where
  "list_prometheus =
     \<lparr>prom_registry = [], prom_create = list_create, prom_register = list_register,
      prom_encode = (\<lambda>r m. Some (''# kse'' @ [CHR 0x0A])), prom_format = ''text/plain; version=0.0.4''\<rparr>"

lemma list_prometheus_ok: "prometheus_ok (\<lambda>c. c) (\<lambda>r. r) list_prometheus"
  using list_registry.metric_registry_axioms by (simp add: prometheus_ok_def list_prometheus_def)

section \<open>Properties\<close>

lemma create_all_ok:
  assumes "prometheus_ok family families R"
  shows "list_all family_ok fs \<Longrightarrow> \<exists>cs. create_all R fs = Some cs \<and> map family cs = fs"
proof (induction fs)
  case (Cons f fs)
  then have "family_ok f" by simp
  then obtain c where "prom_create R f = Some c" "family c = f"
    using metric_registry.create_valid [OF assms [unfolded prometheus_ok_def]] by blast
  with Cons show ?case by auto
qed simp

lemma register_all_fold: "register_all R cs r = fold (\<lambda>c s. Option.bind s (prom_register R c)) cs (Some r)"
proof (induction cs arbitrary: r)
  case (Cons c cs)
  have "fold (\<lambda>c s. Option.bind s (prom_register R c)) xs None = None" for xs by (induction xs) simp_all
  with Cons show ?case by (cases "prom_register R c r") simp_all
qed simp

lemma metric_families_ok: "list_all family_ok METRIC_FAMILIES" "distinct (map mf_name METRIC_FAMILIES)"
  by code_simp+

lemma metrics_create_ok:
  assumes "prometheus_ok family families R"
  shows "\<exists>registry. metrics_create R = Some (registry, metrics_new) \<and> families registry = METRIC_FAMILIES"
proof -
  obtain cs where cs: "create_all R METRIC_FAMILIES = Some cs" "map family cs = METRIC_FAMILIES"
    using create_all_ok [OF assms metric_families_ok(1)] by blast
  have reg: "metric_registry (prom_registry R) (prom_create R) (prom_register R) family families"
    using assms by (simp add: prometheus_ok_def)
  from metric_registry.register_many [OF reg, of "prom_registry R" cs] metric_registry.new_registry [OF reg]
    cs(2) metric_families_ok(2)
  obtain r where "register_all R cs (prom_registry R) = Some r" "families r = METRIC_FAMILIES"
    by (auto simp: register_all_fold)
  with cs(1) show ?thesis by (simp add: metrics_create_def)
qed

end
