(* ===== verification/Admin.thy ===== *)
theory Admin
  imports Headers Config
begin

text \<open>
  The administrative server, \<open>src/admin.rs\<close>: health, readiness, version and metrics. Parameters are
  the outcome of the connection attempt, the encoded metrics (with their content type) and the
  two strings that the build puts in, the package version and the commit.
\<close>

record admin_response =
  ar_status :: nat
  ar_headers :: "(bytes \<times> bytes) list"
  ar_body :: bytes

record admin_env =
  env_connect :: "socket_addr \<Rightarrow> nat \<Rightarrow> unit + (unit + unit)" \<comment> \<open>elapsed, or failed, or connected\<close>
  env_metrics :: "(bytes \<times> bytes) option"
  env_package_version :: bytes
  env_git_commit :: "bytes option"

text \<open>The timeout in milliseconds.\<close>

definition READINESS_TIMEOUT :: nat where "READINESS_TIMEOUT = 250"

definition header_value_valid :: "bytes \<Rightarrow> bool" where
  "header_value_valid v \<longleftrightarrow> (\<forall>b \<in> set v. let n = byte_val b :: nat in (32 \<le> n \<and> n \<noteq> 127) \<or> n = 9)"

text \<open>The \<open>expect\<close> of the builder panics on an invalid header value.\<close>

definition admin_build :: "nat \<Rightarrow> (bytes \<times> bytes) list \<Rightarrow> bytes \<Rightarrow> (unit, admin_response) outcome" where
  "admin_build status headers body =
     (if list_all (\<lambda>(n, v). header_value_valid v) headers
      then Ok \<lparr>ar_status = status, ar_headers = headers, ar_body = body\<rparr> else Panic)"

definition admin_text :: "nat \<Rightarrow> bytes \<Rightarrow> bytes \<Rightarrow> (unit, admin_response) outcome" where
  "admin_text status content_type body =
     admin_build status [(''content-type'', content_type), (''content-length'', decimal (length body))] body"

definition normalize_git_commit :: "bytes option \<Rightarrow> bytes" where
  "normalize_git_commit commit =
     (case commit of
        Some c \<Rightarrow> if 7 \<le> length c \<and> length c \<le> 64 \<and> list_all is_ascii_hexdigit c then c else ''unknown''
      | None \<Rightarrow> ''unknown'')"

definition version_body :: "admin_env \<Rightarrow> bytes" where
  "version_body env =
     ''{'' @ [QUO] @ ''packageVersion'' @ [QUO] @ '':'' @ [QUO] @ env_package_version env @ [QUO]
     @ '','' @ [QUO] @ ''rewriteRuleVersion'' @ [QUO] @ '':'' @ [QUO] @ REWRITE_RULE_VERSION @ [QUO]
     @ '','' @ [QUO] @ ''gitCommit'' @ [QUO] @ '':'' @ [QUO] @ normalize_git_commit (env_git_commit env) @ [QUO]
     @ ''}'' @ [CHR 0x0A]"

definition version_response :: "admin_env \<Rightarrow> (unit, admin_response) outcome" where
  "version_response env =
     admin_build 200
       [(''content-type'', ''application/json; charset=utf-8''), (''cache-control'', ''no-store''),
        (''content-length'', decimal (length (version_body env)))] (version_body env)"

definition is_ready :: "admin_env \<Rightarrow> socket_addr \<Rightarrow> bool" where
  "is_ready env upstream =
     (case env_connect env upstream READINESS_TIMEOUT of Inr (Inr stream) \<Rightarrow> True | _ \<Rightarrow> False)"

definition plain_text :: bytes where
  "plain_text = ''text/plain; charset=utf-8''"

definition admin_answer :: "admin_env \<Rightarrow> socket_addr \<Rightarrow> bytes \<Rightarrow> (unit, admin_response) outcome" where
  "admin_answer env upstream path =
     (if path = ''/healthz'' then admin_text 200 plain_text (''ok'' @ [CHR 0x0A])
      else if path = ''/readyz''
      then (if is_ready env upstream then admin_text 200 plain_text (''ready'' @ [CHR 0x0A])
            else admin_text 503 plain_text (''not ready'' @ [CHR 0x0A]))
      else if path = ''/version'' then version_response env
      else if path = ''/metrics''
      then (case env_metrics env of
              Some (content_type, body) \<Rightarrow> admin_text 200 content_type body
            | None \<Rightarrow> admin_text 500 plain_text (''failed to encode metrics'' @ [CHR 0x0A]))
      else admin_text 404 plain_text (''not found'' @ [CHR 0x0A]))"

section \<open>What the routes answer\<close>

lemma decimal_valid: "header_value_valid (decimal n)"
  by (auto simp: header_value_valid_def Let_def dest!: decimal_digits)

lemma plain_text_valid: "header_value_valid plain_text"
  unfolding plain_text_def by code_simp

lemma admin_answer_table:
  assumes "\<forall>content_type body. env_metrics env = Some (content_type, body) \<longrightarrow> header_value_valid content_type"
  shows "\<exists>r. admin_answer env upstream path = Ok r
    \<and> (''content-length'', decimal (length (ar_body r))) \<in> set (ar_headers r)
    \<and> ar_status r =
        (if path = ''/healthz'' \<or> path = ''/version'' then 200
         else if path = ''/readyz'' then (if is_ready env upstream then 200 else 503)
         else if path = ''/metrics'' then (if env_metrics env = None then 500 else 200)
         else 404)
    \<and> (path = ''/metrics'' \<longrightarrow> (\<forall>ct body. env_metrics env = Some (ct, body) \<longrightarrow>
         ar_body r = body \<and> (''content-type'', ct) \<in> set (ar_headers r)))
    \<and> (path = ''/version'' \<longrightarrow> ar_body r = version_body env)"
proof -
  have ans: "admin_text status content_type body = Ok \<lparr>ar_status = status,
      ar_headers = [(''content-type'', content_type), (''content-length'', decimal (length body))], ar_body = body\<rparr>"
    if "header_value_valid content_type" for status content_type body
    using that by (simp add: admin_text_def admin_build_def decimal_valid)
  note plain = ans [OF plain_text_valid]
  have "header_value_valid ''application/json; charset=utf-8''" "header_value_valid ''no-store''" by code_simp+
  then have version: "version_response env = Ok \<lparr>ar_status = 200,
      ar_headers = [(''content-type'', ''application/json; charset=utf-8''), (''cache-control'', ''no-store''),
        (''content-length'', decimal (length (version_body env)))], ar_body = version_body env\<rparr>"
    by (simp add: version_response_def admin_build_def decimal_valid)
  show ?thesis
  proof -
    consider "path = ''/healthz''" | "path = ''/readyz''" | "path = ''/version''" | "path = ''/metrics''"
      | "path \<noteq> ''/healthz''" "path \<noteq> ''/readyz''" "path \<noteq> ''/version''" "path \<noteq> ''/metrics''"
      by blast
    then show ?thesis
    proof cases
      case 4
      show ?thesis
      proof (cases "env_metrics env")
        case None
        with 4 show ?thesis by (simp add: admin_answer_def plain)
      next
        case (Some m)
        obtain content_type body where "m = (content_type, body)" by (cases m)
        with 4 Some assms show ?thesis by (simp add: admin_answer_def ans)
      qed
    qed (simp_all add: admin_answer_def plain version)
  qed
qed

end
