(* ===== verification/Process.thy ===== *)
theory Process
  imports Metrics Admin Socket_Addr_Correct
begin

text \<open>
  The start of the process, \<open>src/main.rs\<close> and \<open>KseRewriteProxy::new\<close>: logging, the configuration
  file, the proxy with its metrics and semaphores, and the two services on the text of their
  addresses. Parameters are the environment variable, the file system, the crates, and whether
  the subscriber and the server of pingora can be set up. \<open>Semaphore::new\<close> of tokio panics above
  its largest number of permits.
\<close>

datatype 'y start_error =
    Logging_Error
  | File_Error
  | Config_Error "'y config_error"
  | Metrics_Error
  | Server_Error

record ('y, 'u, 'o, 'c, 'r) process_env =
  pe_logging :: bool
  pe_config_variable :: "bytes option" \<comment> \<open>\<open>KSE_REWRITE_CONFIG\<close>, where set and Unicode\<close>
  pe_read_file :: "bytes \<Rightarrow> bytes option" \<comment> \<open>\<open>read_to_string\<close>\<close>
  pe_yaml :: "'y yaml_lib"
  pe_url :: "('u, 'o) url_lib"
  pe_percent :: "bytes \<Rightarrow> bytes option"
  pe_prometheus :: "('c, 'r) prometheus_lib"
  pe_max_permits :: nat
  pe_server :: bool

text \<open>The application behind the administrative port shares the registry with the proxy.\<close>

record 'r admin_app =
  aa_upstream :: socket_addr
  aa_registry :: 'r

record 'r kse_proxy =
  kp_proxy :: proxy
  kp_active_permits :: nat
  kp_queued_permits :: nat
  kp_registry :: 'r

text \<open>A service and the text of its address, as \<open>add_tcp\<close> gets it.\<close>

datatype 'r service = Proxy_Service "'r kse_proxy" bytes | Admin_Service "'r admin_app" bytes

definition DEFAULT_CONFIG_PATH :: bytes where
  "DEFAULT_CONFIG_PATH = ''/etc/kse-console/config.yaml''"

definition kse_proxy_new ::
  "('c, 'r) prometheus_lib \<Rightarrow> nat \<Rightarrow> effective_config \<Rightarrow> ('y start_error, 'r kse_proxy) outcome" where
  "kse_proxy_new R max_permits config =
     (case metrics_create R of
        None \<Rightarrow> Err Metrics_Error
      | Some (registry, values) \<Rightarrow>
          if max_permits < ec_max_concurrent config \<or> max_permits < ec_max_queued config then Panic
          else Ok \<lparr>kp_proxy = proxy_new config, kp_active_permits = ec_max_concurrent config,
                   kp_queued_permits = ec_max_queued config, kp_registry = registry\<rparr>)"

definition admin_app_new :: "'r kse_proxy \<Rightarrow> 'r admin_app" where
  "admin_app_new p = \<lparr>aa_upstream = ec_upstream (px_config (kp_proxy p)), aa_registry = kp_registry p\<rparr>"

definition run ::
  "('y, 'u, 'o, 'c, 'r) process_env \<Rightarrow> ('y start_error, 'r service list) outcome" where
  "run E =
     (if \<not> pe_logging E then Err Logging_Error
      else
        let config_path = (case pe_config_variable E of Some p \<Rightarrow> p | None \<Rightarrow> DEFAULT_CONFIG_PATH)
        in case pe_read_file E config_path of
             None \<Rightarrow> Err File_Error
           | Some input \<Rightarrow>
               bind_outcome (map_outcome_err Config_Error (from_yaml (pe_yaml E) (pe_url E) (pe_percent E) input)) (\<lambda>config.
               let listen = display_socket_addr (ec_listen config);
                   admin_listen = display_socket_addr (ec_admin_listen config)
               in bind_outcome (kse_proxy_new (pe_prometheus E) (pe_max_permits E) config) (\<lambda>p.
                  let app = admin_app_new p
                  in if \<not> pe_server E then Err Server_Error
                     else Ok [Proxy_Service p listen, Admin_Service app admin_listen])))"

text \<open>\<open>main\<close>: an error is printed and the exit code is 1; a server that has started does not return.\<close>

datatype 'r program = Serves "'r service list" | Exits nat | Aborts

definition main_program :: "('y, 'u, 'o, 'c, 'r) process_env \<Rightarrow> 'r program" where
  "main_program E =
     (case run E of Ok services \<Rightarrow> Serves services | Err e \<Rightarrow> Exits 1 | Panic \<Rightarrow> Aborts)"

text \<open>An answer of the administrative service, with the metrics as they are.\<close>

definition admin_service_response ::
  "('c, 'r) prometheus_lib \<Rightarrow> metrics \<Rightarrow> admin_env \<Rightarrow> 'r admin_app \<Rightarrow> bytes \<Rightarrow> (unit, admin_response) outcome" where
  "admin_service_response R m env app path =
     admin_answer (env\<lparr>env_metrics := metrics_encode R (aa_registry app) m\<rparr>) (aa_upstream app) path"

end
