(* ===== verification/Process_Correct.thy ===== *)
theory Process_Correct
  imports Process Body_Correct
begin

text \<open>
  The composition: what a process that has started looks like, from the bytes of its
  configuration file to the addresses it listens on, and that it is at rest again after any
  sequence of requests.
\<close>

section \<open>The start\<close>

lemma kse_proxy_new_cases:
  assumes "prometheus_ok family families R"
  obtains (started) r where "families r = METRIC_FAMILIES"
      "kse_proxy_new R n c = Ok \<lparr>kp_proxy = proxy_new c, kp_active_permits = ec_max_concurrent c,
         kp_queued_permits = ec_max_queued c, kp_registry = r\<rparr>"
      "ec_max_concurrent c \<le> n" "ec_max_queued c \<le> n"
  | (too_many) "n < ec_max_concurrent c \<or> n < ec_max_queued c" "kse_proxy_new R n c = Panic"
proof -
  obtain r where r: "metrics_create R = Some (r, metrics_new)" "families r = METRIC_FAMILIES"
    using metrics_create_ok [OF assms] by blast
  show ?thesis
  proof (cases "n < ec_max_concurrent c \<or> n < ec_max_queued c")
    case True
    then show ?thesis using r(1) by (intro too_many) (simp_all add: kse_proxy_new_def)
  next
    case False
    then show ?thesis using r by (intro started [of r]) (simp_all add: kse_proxy_new_def)
  qed
qed

definition process_config :: "('y, 'u, 'o, 'c, 'r) process_env \<Rightarrow> effective_config option" where
  "process_config E =
     (case pe_read_file E (case pe_config_variable E of Some p \<Rightarrow> p | None \<Rightarrow> DEFAULT_CONFIG_PATH) of
        None \<Rightarrow> None
      | Some input \<Rightarrow>
          (case from_yaml (pe_yaml E) (pe_url E) (pe_percent E) input of Ok c \<Rightarrow> Some c | _ \<Rightarrow> None))"

text \<open>
  C12. The process serves exactly when logging and the server can be set up, the configuration
  file (the one of the environment variable, or the default one) is accepted, and its two limits
  are within what a semaphore can hold. Then the two services listen on texts that denote the
  configured addresses, which are well formed, disjoint from each other and from the upstream;
  the proxy and the administrative application share one registry with all metrics; and the
  semaphores have the configured permits, at least one of them active. A limit that is too large
  aborts the process, every other failure ends it with exit code 1.
\<close>

theorem process_starts:
  assumes "yaml_ok (pe_yaml E)" "url_ok (pe_url E)" "pct_ok (pe_percent E)"
    and "prometheus_ok family families (pe_prometheus E)"
  shows "case process_config E of
      None \<Rightarrow> main_program E = Exits 1
    | Some c \<Rightarrow> config_wf c
        \<and> (if \<not> pe_logging E then main_program E = Exits 1
           else if pe_max_permits E < ec_max_concurrent c \<or> pe_max_permits E < ec_max_queued c
           then main_program E = Aborts
           else if \<not> pe_server E then main_program E = Exits 1
           else \<exists>p app listen admin_listen.
             main_program E = Serves [Proxy_Service p listen, Admin_Service app admin_listen]
             \<and> parse_socket_addr listen = Some (ec_listen c)
             \<and> parse_socket_addr admin_listen = Some (ec_admin_listen c)
             \<and> px_config (kp_proxy p) = c \<and> px_policy (kp_proxy p) = effective_rewrite_policy c
             \<and> kp_active_permits p = ec_max_concurrent c \<and> kp_queued_permits p = ec_max_queued c
             \<and> aa_upstream app = ec_upstream c \<and> aa_registry app = kp_registry p
             \<and> families (kp_registry p) = METRIC_FAMILIES)"
proof (cases "process_config E")
  case None
  then have "main_program E = Exits 1"
    using from_yaml_not_Panic [OF assms(2)]
    by (auto simp: process_config_def main_program_def run_def Let_def split: option.splits outcome.splits)
  with None show ?thesis by simp
next
  case (Some c)
  then obtain input where input:
    "pe_read_file E (case pe_config_variable E of Some p \<Rightarrow> p | None \<Rightarrow> DEFAULT_CONFIG_PATH) = Some input"
    "from_yaml (pe_yaml E) (pe_url E) (pe_percent E) input = Ok c"
    by (auto simp: process_config_def split: option.splits outcome.splits)
  with from_yaml_wf [OF assms(1-3)] have wf: "config_wf c" by blast
  then have addr: "parse_socket_addr (display_socket_addr (ec_listen c)) = Some (ec_listen c)"
    "parse_socket_addr (display_socket_addr (ec_admin_listen c)) = Some (ec_admin_listen c)"
    by (simp_all add: config_wf_def parse_display)
  show ?thesis
  proof (rule kse_proxy_new_cases [OF assms(4), of "pe_max_permits E" c])
    assume "pe_max_permits E < ec_max_concurrent c \<or> pe_max_permits E < ec_max_queued c"
      and "kse_proxy_new (pe_prometheus E) (pe_max_permits E) c = (Panic :: ('a start_error, 'e kse_proxy) outcome)"
    with Some wf input show ?thesis by (simp add: main_program_def run_def Let_def)
  next
    fix r
    assume "families r = METRIC_FAMILIES"
      and "kse_proxy_new (pe_prometheus E) (pe_max_permits E) c =
        (Ok \<lparr>kp_proxy = proxy_new c, kp_active_permits = ec_max_concurrent c,
          kp_queued_permits = ec_max_queued c, kp_registry = r\<rparr> :: ('a start_error, 'e kse_proxy) outcome)"
      and "ec_max_concurrent c \<le> pe_max_permits E" "ec_max_queued c \<le> pe_max_permits E"
    with Some wf input addr show ?thesis
      by (simp add: main_program_def run_def Let_def admin_app_new_def proxy_new_def)
  qed
qed

text \<open>A process whose default configuration file is the sample.\<close>

definition sample_env ::
  "(unit, url_parts, bytes \<times> bytes \<times> nat option, metric_family, metric_family list) process_env" where
  "sample_env =
     \<lparr>pe_logging = True, pe_config_variable = None,
      pe_read_file = (\<lambda>p. if p = ''/etc/kse-console/config.yaml'' then Some ''sample'' else None),
      pe_yaml = sample_yaml, pe_url = sample_url_lib, pe_percent = std_pct, pe_prometheus = list_prometheus,
      pe_max_permits = 2 ^ 61 - 1, pe_server = True\<rparr>"

theorem process_starts_witness:
  "\<exists>p app listen admin_listen.
     main_program sample_env = Serves [Proxy_Service p listen, Admin_Service app admin_listen]
     \<and> kp_active_permits p = 2 \<and> kp_registry p = METRIC_FAMILIES"
proof -
  obtain c where c: "from_yaml sample_yaml sample_url_lib std_pct ''sample'' = Ok c"
    "ec_max_concurrent c = 2" "ec_max_queued c = 1"
    by (rule sample_config)
  then have config: "process_config sample_env = Some c"
    by (simp add: process_config_def sample_env_def DEFAULT_CONFIG_PATH_def)
  have "yaml_ok (pe_yaml sample_env)" "url_ok (pe_url sample_env)" "pct_ok (pe_percent sample_env)"
    "prometheus_ok (\<lambda>c. c) (\<lambda>r. r) (pe_prometheus sample_env)"
    by (simp_all add: sample_env_def sample_yaml_ok sample_url_lib_ok std_pct_ok list_prometheus_ok)
  note start = process_starts [OF this]
  have "pe_logging sample_env" "pe_server sample_env" "pe_max_permits sample_env = 2 ^ 61 - 1"
    by (simp_all add: sample_env_def)
  with start config c show ?thesis by auto
qed

section \<open>Requests in sequence\<close>

text \<open>
  A process at rest has no waiting request and no permit on its way to one. Requests that are
  served one after another keep it so.
\<close>

definition idle :: "('s, 'i, 'h, 'sess, 'json) libs \<Rightarrow> ('s, 'i, 'sess) world \<Rightarrow> bool" where
  "idle L w \<longleftrightarrow> sem_waiting (lib_semaphore L) (wd_active w) = [] \<and> wd_woken w = []"

lemma idle_cong: "wd_active w' = wd_active w \<Longrightarrow> wd_woken w' = wd_woken w \<Longrightarrow> idle L w' = idle L w"
  by (simp add: idle_def)

lemma idle_sel [simp]:
  "idle L (on_ctx f w) = idle L w" "idle L (on_metrics g w) = idle L w" "idle L (disable_compression L w) = idle L w"
  "idle L (w\<lparr>wd_session := s\<rparr>) = idle L w" "idle L (w\<lparr>wd_ctx := c\<rparr>) = idle L w"
  by (simp_all add: idle_def)

lemma take_permit_idle:
  assumes "libs_ok L" "idle L w"
  shows "idle L (take_active_permit L w)"
proof -
  let ?w = "on_ctx (\<lambda>c. c\<lparr>cx_active_permit := False\<rparr>) w"
  obtain s r where rel: "sem_release (lib_semaphore L) (wd_active w) = (s, r)" by fastforce
  from assms have "semaphore_ok (lib_semaphore L)" by (simp add: libs_ok_def)
  from sem_release_cases [OF this rel] assms(2) have "idle L (release_active L ?w)"
    by (auto simp: release_active_def rel idle_def)
  with assms(2) show ?thesis by (simp add: take_active_permit_def)
qed

lemma stop_rewrite_idle: "libs_ok L \<Longrightarrow> idle L w \<Longrightarrow> idle L (stop_rewrite L outc w)"
  by (simp add: stop_rewrite_def take_permit_idle)

lemma admit_rewrite_idle:
  assumes "libs_ok L" "idle L w" "admit_rewrite L i w = (w', r)" "r \<noteq> Admit_Waits"
  shows "idle L w'"
proof -
  from assms(1) have sem: "semaphore_ok (lib_semaphore L)" by (simp add: libs_ok_def)
  show ?thesis
  proof (cases "sem_try_acquire (lib_semaphore L) (wd_active w)")
    case (Some s)
    with assms(2,3) sem_try_Some [OF sem Some] show ?thesis by (auto simp: admit_rewrite_def idle_def)
  next
    case none: None
    then have "sem_permits (lib_semaphore L) (wd_active w) = 0" using sem_try_None [OF sem] by blast
    then have "sem_acquire (lib_semaphore L) i (wd_active w) \<noteq> (s, True)" for s
      using sem_acquire_cases [OF sem, of i "wd_active w" s True] by auto
    with none assms(2-4) show ?thesis
      by (auto simp: admit_rewrite_def Let_def split: option.splits outcome.splits prod.splits bool.splits)
  qed
qed

lemma request_filter_idle:
  assumes "libs_ok L" "idle L w" "request_filter L P i w = (w', r)" "r \<noteq> Filter_Waits"
  shows "idle L w'"
proof -
  let ?w1 = "on_ctx (begin_request L P (wd_session w)) w"
  show ?thesis
  proof (cases "cx_decision (wd_ctx ?w1)")
    case Bypass
    with assms show ?thesis by (auto simp: request_filter_def Let_def)
  next
    case (Rewrite profile ext head)
    let ?w2 = "on_ctx (\<lambda>c. c\<lparr>cx_extension := Some ext, cx_outcome := ''rewrite''\<rparr>) ?w1"
    obtain w3 a where adm: "admit_rewrite L i ?w2 = (w3, a)" by fastforce
    have "idle L w3" if "a \<noteq> Admit_Waits" using admit_rewrite_idle [OF assms(1) _ adm that] assms(2) by simp
    moreover have "idle L (fst (build_rewriter L P profile ext w3)) = idle L w3"
      by (simp add: build_rewriter_def split: outcome.split)
    ultimately show ?thesis
      using Rewrite adm assms(2-4)
      by (auto simp: request_filter_def Let_def split: if_splits admitted.splits bool.splits)
  qed
qed

lemma response_filter_idle:
  assumes "libs_ok L" "idle L w" "response_filter L P w rsp = (w', x)"
  shows "idle L w'"
  using assms(3,2)
  by (auto simp: response_filter_def scrub_response_def Let_def stop_rewrite_idle [OF assms(1)]
      split: outcome.splits rewrite_decision.splits if_splits option.splits)

lemma serves_idle: "serves L P i w0 w \<Longrightarrow> libs_ok L \<Longrightarrow> idle L w0 \<Longrightarrow> idle L w"
  by (induction rule: serves.induct) (auto intro: request_filter_idle response_filter_idle)

text \<open>The world of a process that has just started, and one request after another in it.\<close>

definition process_world ::
  "('s, 'i, 'h, 'sess, 'json) libs \<Rightarrow> 'r kse_proxy \<Rightarrow> 'sess \<Rightarrow> request_context \<Rightarrow> ('s, 'i, 'sess) world" where
  "process_world L p session c =
     \<lparr>wd_active = sem_new (lib_semaphore L) (kp_active_permits p),
      wd_queued = sem_new (lib_semaphore L) (kp_queued_permits p),
      wd_woken = [], wd_metrics = metrics_new, wd_session = session, wd_ctx = c\<rparr>"

text \<open>The labels under which the requests are counted: their outcomes and their extensions.\<close>

inductive serves_all ::
  "('s, 'i, 'h, 'sess, 'json) libs \<Rightarrow> proxy \<Rightarrow> ('s, 'i, 'sess) world \<Rightarrow> (bytes \<times> bytes) list \<Rightarrow> ('s, 'i, 'sess) world \<Rightarrow> bool"
  for L P where
  no_request: "serves_all L P w [] w"
| next_request:
    "serves_all L P w labels w1 \<Longrightarrow>
     serves L P i (w1\<lparr>wd_session := session, wd_ctx := new_ctx rid\<rparr>) w2 \<Longrightarrow>
     label = ((if failed then ''error'' else cx_outcome (wd_ctx w2)), metrics_extension P (wd_ctx w2)) \<Longrightarrow>
     serves_all L P w (labels @ [label]) (logging L P failed w2)"

definition at_rest :: "('s, 'i, 'h, 'sess, 'json) libs \<Rightarrow> nat \<Rightarrow> nat \<Rightarrow> ('s, 'i, 'sess) world \<Rightarrow> bool" where
  "at_rest L active queued w \<longleftrightarrow>
     idle L w \<and> no_queue_waiters L w
     \<and> sem_permits (lib_semaphore L) (wd_active w) = active \<and> sem_permits (lib_semaphore L) (wd_queued w) = queued
     \<and> mt_active (wd_metrics w) = 0 \<and> mt_queued (wd_metrics w) = 0"

lemma process_world_at_rest:
  assumes "libs_ok L"
  shows "at_rest L (kp_active_permits p) (kp_queued_permits p) (process_world L p session c)"
proof -
  from assms have "semaphore_ok (lib_semaphore L)" by (simp add: libs_ok_def)
  then show ?thesis
    unfolding semaphore_ok_def
    by (simp add: at_rest_def idle_def no_queue_waiters_def process_world_def metrics_new_def fair_semaphore.new_permits)
qed

lemma logged_request_at_rest:
  assumes "libs_ok L" "at_rest L active queued w1"
    and "serves L P i (w1\<lparr>wd_session := session, wd_ctx := new_ctx rid\<rparr>) w2" "w3 = logging L P failed w2"
  shows "at_rest L active queued w3
    \<and> mt_requests (wd_metrics w3) =
        inc_by ((if failed then ''error'' else cx_outcome (wd_ctx w2)), metrics_extension P (wd_ctx w2)) 1
          (mt_requests (wd_metrics w1))"
proof -
  let ?w0 = "w1\<lparr>wd_session := session, wd_ctx := new_ctx rid\<rparr>"
  have start: "no_queue_waiters L ?w0" "idle L ?w0" "wd_ctx ?w0 = new_ctx rid"
    using assms(2) by (simp_all add: at_rest_def no_queue_waiters_def)
  note life = logging_balance [OF assms(1) start(1,3) assms(3,4)]
  have "idle L w3"
    using take_permit_idle [OF assms(1) serves_idle [OF assms(3,1) start(2)]] assms(4)
    by (simp add: logging_def Let_def)
  moreover have "no_queue_waiters L w3"
    using serves_result [OF assms(3,1) start(1,3)] take_permit_balance(3) [OF assms(1)] assms(4)
    by (simp add: logging_def Let_def no_queue_waiters_def)
  ultimately show ?thesis using life assms(2) by (simp add: at_rest_def idle_def)
qed

lemma serves_all_at_rest:
  assumes "serves_all L P w0 labels w" "libs_ok L" "at_rest L active queued w0"
  shows "at_rest L active queued w
    \<and> mt_requests (wd_metrics w) = (\<lambda>l. mt_requests (wd_metrics w0) l + count_list labels l)"
  using assms
proof (induction rule: serves_all.induct)
  case (next_request w labels w1 i session rid w2 label failed)
  then have IH: "at_rest L active queued w1"
    "mt_requests (wd_metrics w1) = (\<lambda>l. mt_requests (wd_metrics w) l + count_list labels l)" by auto
  from logged_request_at_rest [OF next_request.prems(1) IH(1) next_request.hyps(2) refl, of failed]
  show ?case by (auto simp: IH(2) inc_by_def next_request.hyps(3) fun_eq_iff)
qed simp

text \<open>
  The process comes to rest: after any sequence of requests, each with whatever answers of the
  upstream and whatever end, all configured permits are available, nobody waits, both gauges are
  zero, and every request has been counted once under its outcome and label.
\<close>

theorem process_returns_to_rest:
  assumes "libs_ok L" "kse_proxy_new R max_permits config = Ok p"
    and "serves_all L (kp_proxy p) (process_world L p session c) labels w"
  shows "sem_permits (lib_semaphore L) (wd_active w) = ec_max_concurrent config
    \<and> sem_permits (lib_semaphore L) (wd_queued w) = ec_max_queued config
    \<and> wd_woken w = [] \<and> mt_active (wd_metrics w) = 0 \<and> mt_queued (wd_metrics w) = 0
    \<and> mt_requests (wd_metrics w) = count_list labels"
proof -
  have "kp_active_permits p = ec_max_concurrent config" "kp_queued_permits p = ec_max_queued config"
    using assms(2) by (auto simp: kse_proxy_new_def split: option.splits prod.splits if_splits)
  with serves_all_at_rest [OF assms(3,1) process_world_at_rest [OF assms(1)]] show ?thesis
    by (simp add: at_rest_def idle_def process_world_def metrics_new_def)
qed

theorem process_returns_to_rest_witness:
  "\<exists>w. serves_all sample_libs sample_proxy
      (process_world sample_libs (ok_val (kse_proxy_new list_prometheus 9 sample_effective_config :: (unit start_error, _) outcome))
        (wd_session (sample_world bundle_path)) (new_ctx [])) [(''rewrite'', ''*'')] w
     \<and> fst (wd_active w) = 1 \<and> mt_requests (wd_metrics w) (''rewrite'', ''*'') = 1"
proof -
  let ?new = "kse_proxy_new list_prometheus 9 sample_effective_config :: (unit start_error, _) outcome"
  let ?w0 = "process_world sample_libs (ok_val ?new) (wd_session (sample_world bundle_path)) (new_ctx [])"
  obtain r where new: "?new = Ok \<lparr>kp_proxy = sample_proxy, kp_active_permits = 1, kp_queued_permits = 0, kp_registry = r\<rparr>"
    by (rule kse_proxy_new_cases [OF list_prometheus_ok, of 9 sample_effective_config])
      (auto simp: sample_effective_config_def sample_proxy_def)
  have "?w0\<lparr>wd_session := wd_session (sample_world bundle_path), wd_ctx := new_ctx ''id''\<rparr> = sample_world bundle_path"
    by (simp add: process_world_def sample_world_def new sample_libs_def fifo_lib_def)
  then have "serves sample_libs sample_proxy 0
      (?w0\<lparr>wd_session := wd_session (sample_world bundle_path), wd_ctx := new_ctx ''id''\<rparr>) admitted_world"
    using serves_request [OF sample_request] by simp
  moreover have "(''rewrite'', ''*'') = ((if False then ''error'' else cx_outcome (wd_ctx admitted_world)),
      metrics_extension sample_proxy (wd_ctx admitted_world))" by code_simp
  ultimately have all: "serves_all sample_libs sample_proxy ?w0 ([] @ [(''rewrite'', ''*'')])
      (logging sample_libs sample_proxy False admitted_world)"
    by (rule next_request [OF no_request])
  then have "serves_all sample_libs (kp_proxy (ok_val ?new)) ?w0 [(''rewrite'', ''*'')]
      (logging sample_libs sample_proxy False admitted_world)"
    by (simp add: new)
  note rest = process_returns_to_rest [OF sample_libs_ok _ this]
  have "?new = Ok (ok_val ?new)" by (simp add: new)
  from rest [OF this] all show ?thesis
    by (auto simp: sample_libs_def fifo_lib_def sample_effective_config_def)
qed

section \<open>The administrative service\<close>

text \<open>
  C40. The administrative service of a started process answers every path and never panics, as long
  as the content type of the metrics encoder is a header value: with the status of its route,
  ready exactly when the configured upstream accepts a connection in time, with the metrics of
  the proxy as they are, and with the length of its body. The reported commit is a hexadecimal
  name of 7 to 64 digits or \<open>unknown\<close>.
\<close>

theorem admin_service:
  assumes "header_value_valid (prom_format R)" "kse_proxy_new R max_permits config = Ok p"
  shows "\<exists>r. admin_service_response R m env (admin_app_new p) path = Ok r
    \<and> (''content-length'', decimal (length (ar_body r))) \<in> set (ar_headers r)
    \<and> (path = ''/metrics'' \<longrightarrow>
         (case prom_encode R (kp_registry p) m of
            Some body \<Rightarrow> ar_status r = 200 \<and> ar_body r = body
              \<and> (''content-type'', prom_format R) \<in> set (ar_headers r)
          | None \<Rightarrow> ar_status r = 500))
    \<and> (path \<noteq> ''/metrics'' \<longrightarrow> ar_status r =
         (if path = ''/healthz'' \<or> path = ''/version'' then 200
          else if path = ''/readyz'' then (if is_ready env (ec_upstream config) then 200 else 503)
          else 404))
    \<and> (let c = normalize_git_commit (env_git_commit env)
       in (c = ''unknown'' \<or> (7 \<le> length c \<and> length c \<le> 64 \<and> list_all is_ascii_hexdigit c))
         \<and> (path = ''/version'' \<longrightarrow> str_contains c (ar_body r)))"
proof -
  let ?env = "env\<lparr>env_metrics := metrics_encode R (kp_registry p) m\<rparr>"
  have up: "ec_upstream (px_config (kp_proxy p)) = ec_upstream config"
    using assms(2) by (auto simp: kse_proxy_new_def proxy_new_def split: option.splits prod.splits if_splits)
  have "\<forall>content_type body. env_metrics ?env = Some (content_type, body) \<longrightarrow> header_value_valid content_type"
    using assms(1) by (auto simp: metrics_encode_def bind_eq_Some_conv)
  from admin_answer_table [OF this, of "ec_upstream config" path] obtain r where
    r: "admin_answer ?env (ec_upstream config) path = Ok r"
      "(''content-length'', decimal (length (ar_body r))) \<in> set (ar_headers r)"
      "ar_status r =
        (if path = ''/healthz'' \<or> path = ''/version'' then 200
         else if path = ''/readyz'' then (if is_ready ?env (ec_upstream config) then 200 else 503)
         else if path = ''/metrics'' then (if env_metrics ?env = None then 500 else 200)
         else 404)"
      "path = ''/metrics'' \<longrightarrow> (\<forall>ct body. env_metrics ?env = Some (ct, body) \<longrightarrow>
         ar_body r = body \<and> (''content-type'', ct) \<in> set (ar_headers r))"
      "path = ''/version'' \<longrightarrow> ar_body r = version_body ?env"
    by blast
  have metrics: "case prom_encode R (kp_registry p) m of
      Some body \<Rightarrow> ar_status r = 200 \<and> ar_body r = body \<and> (''content-type'', prom_format R) \<in> set (ar_headers r)
    | None \<Rightarrow> ar_status r = 500" if "path = ''/metrics''"
    using r(3,4) that by (simp add: metrics_encode_def split: option.split)
  have ready: "is_ready ?env (ec_upstream config) = is_ready env (ec_upstream config)" by (simp add: is_ready_def)
  have git: "c = ''unknown'' \<or> (7 \<le> length c \<and> length c \<le> 64 \<and> list_all is_ascii_hexdigit c)"
    if "c = normalize_git_commit (env_git_commit env)" for c
    by (simp add: that normalize_git_commit_def split: option.split)
  have "str_contains (normalize_git_commit (env_git_commit env)) (version_body ?env)"
  proof -
    define a where "a = ''{'' @ [QUO] @ ''packageVersion'' @ [QUO] @ '':'' @ [QUO] @ env_package_version env @ [QUO]
      @ '','' @ [QUO] @ ''rewriteRuleVersion'' @ [QUO] @ '':'' @ [QUO] @ REWRITE_RULE_VERSION @ [QUO]
      @ '','' @ [QUO] @ ''gitCommit'' @ [QUO] @ '':'' @ [QUO]"
    have "version_body ?env = a @ normalize_git_commit (env_git_commit env) @ ([QUO] @ ''}'' @ [CHR 0x0A])"
      by (simp add: version_body_def a_def)
    then show ?thesis unfolding str_contains_iff by blast
  qed
  with r(1-3,5) metrics ready git up show ?thesis
    by (intro exI [of _ r]) (auto simp: admin_service_response_def admin_app_new_def Let_def)
qed

theorem admin_service_witness:
  "\<exists>p r. kse_proxy_new list_prometheus 9 sample_effective_config = (Ok p :: (unit start_error, _) outcome)
     \<and> admin_service_response list_prometheus metrics_new
       \<lparr>env_connect = (\<lambda>a t. Inl ()), env_metrics = None, env_package_version = ''1'', env_git_commit = Some ''abcdef''\<rparr>
       (admin_app_new p) ''/metrics'' = Ok r \<and> ar_status r = 200"
proof -
  let ?env = "\<lparr>env_connect = (\<lambda>a t. Inl ()), env_metrics = None, env_package_version = ''1'', env_git_commit = Some ''abcdef''\<rparr>"
  let ?new = "kse_proxy_new list_prometheus 9 sample_effective_config :: (unit start_error, _) outcome"
  obtain p where p: "?new = Ok p"
    by (rule kse_proxy_new_cases [OF list_prometheus_ok, of 9 sample_effective_config])
      (auto simp: sample_effective_config_def)
  have "header_value_valid (prom_format list_prometheus)" by code_simp
  from admin_service [OF this p, of metrics_new ?env "''/metrics''"] p show ?thesis
    by (auto simp: list_prometheus_def)
qed

end
