(* ===== verification/Concurrent.thy ===== *)
theory Concurrent
  imports Handler_Correct
begin

text \<open>
  The proxy with all its requests: every request has its own session and context, the semaphores
  and the metrics are shared, and the handlers of different requests follow each other in any
  order. One step is one call of a handler of \<open>Handler\<close>, up to its \<open>await\<close> in the queue; the steps
  inside the admission are those of \<open>Admission\<close>.
\<close>

section \<open>The state\<close>

datatype 'sess request =
    Not_Arrived
  | Suspended 'sess request_context  \<comment> \<open>\<open>request_filter\<close> waits for a permit\<close>
  | Open 'sess request_context       \<comment> \<open>between \<open>request_filter\<close> and \<open>logging\<close>\<close>
  | Closed log_line bytes            \<comment> \<open>the line and the label of the extension\<close>

record ('s, 'i, 'sess) system =
  sy_active :: 's
  sy_queued :: 's
  sy_woken :: "'i set" \<comment> \<open>suspended requests that have been handed a permit\<close>
  sy_metrics :: metrics
  sy_requests :: "'i \<Rightarrow> 'sess request"

definition system_new :: "('s, 'i) semaphore_lib \<Rightarrow> nat \<Rightarrow> nat \<Rightarrow> ('s, 'i, 'sess) system" where
  "system_new S max_concurrent max_queued =
     \<lparr>sy_active = sem_new S max_concurrent, sy_queued = sem_new S max_queued, sy_woken = {},
      sy_metrics = metrics_new, sy_requests = (\<lambda>_. Not_Arrived)\<rparr>"

text \<open>A handler sees the shared state, the session and the context of its request.\<close>

definition enter :: "('s, 'i, 'sess) system \<Rightarrow> 'sess \<Rightarrow> request_context \<Rightarrow> ('s, 'i, 'sess) world" where
  "enter y session c =
     \<lparr>wd_active = sy_active y, wd_queued = sy_queued y, wd_woken = [], wd_metrics = sy_metrics y,
      wd_session = session, wd_ctx = c\<rparr>"

definition leave :: "'i \<Rightarrow> 'sess request \<Rightarrow> ('s, 'i, 'sess) world \<Rightarrow> ('s, 'i, 'sess) system \<Rightarrow> ('s, 'i, 'sess) system" where
  "leave i r w y =
     y\<lparr>sy_active := wd_active w, sy_queued := wd_queued w, sy_woken := sy_woken y \<union> set (wd_woken w),
       sy_metrics := wd_metrics w, sy_requests := (sy_requests y)(i := r)\<rparr>"

section \<open>The steps\<close>

text \<open>
  What the server does with request \<open>i\<close>: \<open>request_filter\<close> on arrival, its continuation once a permit
  has been handed over, response and body filters in whatever number and order and whatever
  their results, and \<open>logging\<close> at the end.
\<close>

inductive system_step ::
  "('s, 'i, 'h, 'sess, 'json) libs \<Rightarrow> proxy \<Rightarrow> 'i \<Rightarrow> ('s, 'i, 'sess) system \<Rightarrow> ('s, 'i, 'sess) system \<Rightarrow> bool"
  for L P i y where
  arrive: "sy_requests y i = Not_Arrived \<Longrightarrow> request_filter L P i (enter y session (new_ctx rid)) = (w, r) \<Longrightarrow>
    system_step L P i y (leave i ((if r = Filter_Waits then Suspended else Open) (wd_session w) (wd_ctx w)) w y)"
| resume: "sy_requests y i = Suspended session c \<Longrightarrow> i \<in> sy_woken y \<Longrightarrow>
    request_filter_resume L P (enter y session c) = (w, r) \<Longrightarrow>
    system_step L P i y (leave i (Open (wd_session w) (wd_ctx w)) w (y\<lparr>sy_woken := sy_woken y - {i}\<rparr>))"
| respond: "sy_requests y i = Open session c \<Longrightarrow> response_filter L P (enter y session c) rsp = (w, x) \<Longrightarrow>
    system_step L P i y (leave i (Open (wd_session w) (wd_ctx w)) w y)"
| stream: "sy_requests y i = Open session c \<Longrightarrow> response_body_filter L body eos c = (c', x) \<Longrightarrow>
    system_step L P i y (leave i (Open session c') (enter y session c') y)"
| finish: "sy_requests y i = Open session c \<Longrightarrow> logging L P (error \<noteq> None) (enter y session c) = w \<Longrightarrow>
    system_step L P i y
      (leave i (Closed (completed_line error elapsed (wd_ctx w)) (metrics_extension P (wd_ctx w))) w y)"

inductive_cases system_stepE: "system_step L P i y z"

inductive system_steps ::
  "('s, 'i, 'h, 'sess, 'json) libs \<Rightarrow> proxy \<Rightarrow> ('s, 'i, 'sess) system \<Rightarrow> 'i list \<Rightarrow> ('s, 'i, 'sess) system \<Rightarrow> bool"
  for L P y where
  here: "system_steps L P y [] y"
| there: "system_steps L P y is z \<Longrightarrow> system_step L P i z z' \<Longrightarrow> system_steps L P y (is @ [i]) z'"

lemma enter_sel [simp]:
  "wd_active (enter y session c) = sy_active y" "wd_queued (enter y session c) = sy_queued y"
  "wd_woken (enter y session c) = []" "wd_metrics (enter y session c) = sy_metrics y"
  "wd_session (enter y session c) = session" "wd_ctx (enter y session c) = c"
  by (simp_all add: enter_def)

lemma leave_sel [simp]:
  "sy_active (leave i r w y) = wd_active w" "sy_queued (leave i r w y) = wd_queued w"
  "sy_woken (leave i r w y) = sy_woken y \<union> set (wd_woken w)" "sy_metrics (leave i r w y) = wd_metrics w"
  "sy_requests (leave i r w y) = (sy_requests y)(i := r)"
  by (simp_all add: leave_def)

end
