(* ===== verification/Concurrent_Correct.thy ===== *)
theory Concurrent_Correct
  imports Concurrent Admission_Refinement Process_Correct
begin

text \<open>
  All requests together: every run of the handlers is a run of the interleaved admission, so that
  its limits, its exact gauges and its progress hold for the proxy itself. What is bounded is the
  number of rewriters that exist at a time, each with its buffers.
\<close>

section \<open>What a handler does to the shared state\<close>

definition shared :: "('s, 'i, 'sess) world \<Rightarrow> 's \<times> 's \<times> 'i list \<times> int \<times> int" where
  "shared w = (wd_active w, wd_queued w, wd_woken w, mt_active (wd_metrics w), mt_queued (wd_metrics w))"

lemma shared_simps [simp]:
  "shared (on_ctx f w) = shared w" "shared (disable_compression L w) = shared w"
  "shared (w\<lparr>wd_session := session\<rparr>) = shared w" "shared (w\<lparr>wd_ctx := c\<rparr>) = shared w"
  "shared (on_metrics (record_metrics outc label c) w) = shared w"
  by (simp_all add: shared_def)

lemma matches_shared: "shared w = shared w' \<Longrightarrow> matches a w \<longleftrightarrow> matches a w'"
  by (simp add: shared_def matches_def)

lemma reaches_shared: "shared w = shared w' \<Longrightarrow> reaches S i a w f \<longleftrightarrow> reaches S i a w' f"
  unfolding reaches_def by (simp add: matches_shared [of w w'])

lemma admit_resume_woken:
  assumes "libs_ok L" "no_queue_waiters L w"
  shows "wd_woken (admit_resume L w) = wd_woken w"
proof -
  obtain s r where rel: "sem_release (lib_semaphore L) (wd_queued w) = (s, r)" by fastforce
  from assms(1) have "semaphore_ok (lib_semaphore L)" by (simp add: libs_ok_def)
  from sem_release_cases [OF this rel] assms(2) rel show ?thesis
    by (auto simp: admit_resume_def release_queued_def no_queue_waiters_def)
qed

lemma admit_rewrite_woken:
  assumes "libs_ok L" "admit_rewrite L i w = (w', r)"
  shows "wd_woken w' = wd_woken w \<and> mt_requests (wd_metrics w') = mt_requests (wd_metrics w)"
proof (cases "sem_try_acquire (lib_semaphore L) (wd_active w)")
  case None
  from assms(1) have sem: "semaphore_ok (lib_semaphore L)" by (simp add: libs_ok_def)
  have "sem_permits (lib_semaphore L) (wd_active w) = 0" using None sem_try_None [OF sem] by blast
  with sem_acquire_cases [OF sem] have "\<not> snd (sem_acquire (lib_semaphore L) i (wd_active w))"
    by (metis nat.distinct(1) prod.collapse)
  with assms(2) None show ?thesis
    by (auto simp: admit_rewrite_def Let_def split: option.splits outcome.splits prod.splits bool.splits)
qed (use assms(2) in \<open>auto simp: admit_rewrite_def\<close>)

text \<open>\<open>request_filter\<close> is an admission, except for a request without a body to rewrite.\<close>

lemma request_filter_split:
  assumes "wd_ctx w = new_ctx rid" "request_filter L P i w = (w', r)"
  obtains (passes) "shared w' = shared w" "r = Continue" "\<not> cx_active_permit (wd_ctx w')"
      "cx_rewriter (wd_ctx w') = None" "wd_metrics w' = wd_metrics w"
  | (admits) w2 w3 a profile extension where "shared w2 = shared w" "wd_metrics w2 = wd_metrics w"
      "\<not> cx_active_permit (wd_ctx w2)" "cx_rewriter (wd_ctx w2) = None"
      "cx_decision (wd_ctx w2) = Rewrite profile extension False" "admit_rewrite L i w2 = (w3, a)"
      "shared w' = shared w3" "wd_metrics w' = wd_metrics w3" "r = Filter_Waits \<longleftrightarrow> a = Admit_Waits"
      "if a = Admitted True then cx_active_permit (wd_ctx w') = cx_active_permit (wd_ctx w3) else wd_ctx w' = wd_ctx w3"
proof -
  define w1 where "w1 = on_ctx (begin_request L P (wd_session w)) w"
  have w1: "\<not> cx_active_permit (wd_ctx w1)" "cx_rewriter (wd_ctx w1) = None" "shared w1 = shared w"
    "wd_metrics w1 = wd_metrics w"
    using assms(1) by (simp_all add: w1_def begin_request_def Let_def new_ctx_def)
  show thesis
  proof (cases "cx_decision (wd_ctx w1)")
    case Bypass
    then have "w' = disable_compression L w1" "r = Continue"
      using assms(2) by (simp_all add: request_filter_def w1_def [symmetric])
    with w1 show thesis by (intro passes) simp_all
  next
    case (Rewrite profile extension head)
    define w2 where "w2 = on_ctx (\<lambda>c. c\<lparr>cx_extension := Some extension, cx_outcome := ''rewrite''\<rparr>) w1"
    have w2: "\<not> cx_active_permit (wd_ctx w2)" "cx_rewriter (wd_ctx w2) = None" "shared w2 = shared w"
      "cx_decision (wd_ctx w2) = Rewrite profile extension head" "wd_metrics w2 = wd_metrics w"
      using w1 Rewrite by (simp_all add: w2_def)
    show thesis
    proof (cases head)
      case True
      with assms(2) Rewrite have "w' = w2" "r = Continue"
        by (simp_all add: request_filter_def w1_def [symmetric] w2_def)
      with w2 show thesis by (intro passes) simp_all
    next
      case False
      obtain w3 a where adm: "admit_rewrite L i w2 = (w3, a)" by fastforce
      have "(w', r) = (case a of
            Admitted True \<Rightarrow> build_rewriter L P profile extension w3
          | Admitted False \<Rightarrow> (w3, Responded) | Admit_Failed e \<Rightarrow> (w3, Filter_Failed e)
          | Admit_Panicked \<Rightarrow> (w3, Filter_Panicked) | Admit_Waits \<Rightarrow> (w3, Filter_Waits))"
        using assms(2) Rewrite False adm
        by (simp add: request_filter_def w1_def [symmetric] w2_def [symmetric] Let_def split: admitted.split bool.split)
      then have "shared w' = shared w3" "wd_metrics w' = wd_metrics w3" "r = Filter_Waits \<longleftrightarrow> a = Admit_Waits"
        "if a = Admitted True then cx_active_permit (wd_ctx w') = cx_active_permit (wd_ctx w3) else wd_ctx w' = wd_ctx w3"
        by (auto simp: build_rewriter_def split: admitted.splits bool.splits outcome.splits)
      with w2 False adm show thesis by (intro admits [of w2 profile extension w3 a]) simp_all
    qed
  qed
qed

text \<open>\<open>response_filter\<close> may give the permit back, together with the rewriter.\<close>

lemma response_filter_split:
  assumes "response_filter L P w rsp = (w', x)"
  obtains (keeps) "w' = w"
  | (stops) w2 where "w' = take_active_permit L w2" "shared w2 = shared w" "wd_metrics w2 = wd_metrics w"
      "cx_active_permit (wd_ctx w2) = cx_active_permit (wd_ctx w)" "cx_rewriter (wd_ctx w2) = None"
proof -
  let ?hidden = "on_ctx (\<lambda>c. c\<lparr>cx_suppress_body := True, cx_rewriter := None\<rparr>)"
  have stop: thesis if "w' = stop_rewrite L outc v" "v = w \<or> v = ?hidden w" for outc v
    using that by (intro stops [of "on_ctx (\<lambda>c. c\<lparr>cx_rewriter := None, cx_outcome := outc\<rparr>) (disable_compression L v)"])
      (auto simp: stop_rewrite_def)
  have scrub: "w' = w \<or> w' = stop_rewrite L ''not_modified'' (?hidden w)" if "scrub_response L etag w r = (w', x)" for etag r
    using that by (auto simp: scrub_response_def Let_def split: outcome.splits option.splits if_splits)
  have "w' = w \<or> (\<exists>outc. w' = stop_rewrite L outc w) \<or> (\<exists>etag r. scrub_response L etag w r = (w', x))"
    using assms by (auto simp: response_filter_def Let_def split: outcome.splits rewrite_decision.splits if_splits)
  then show thesis using keeps stop scrub by metis
qed

lemma response_body_filter_kept:
  assumes "response_body_filter L body eos c = (c', x)"
  shows "cx_active_permit c' = cx_active_permit c" "cx_rewriter c' = None \<longleftrightarrow> cx_rewriter c = None"
  using assms by (auto simp: response_body_filter_def Let_def
      split: if_splits option.splits prod.splits outcome.splits)

lemma take_permit_shared: "\<not> cx_active_permit (wd_ctx w) \<Longrightarrow> take_active_permit L w = w"
  by (simp add: take_active_permit_def)

section \<open>The simulation\<close>

text \<open>The phase of a request in the admission, by its state and whether it has been handed a permit.\<close>

fun fits :: "'sess request \<Rightarrow> bool \<Rightarrow> phase \<Rightarrow> bool" where
  "fits Not_Arrived woken p \<longleftrightarrow> \<not> woken \<and> p = Arriving"
| "fits (Suspended session c) woken p \<longleftrightarrow>
     p = (if woken then Granted else Waiting) \<and> \<not> cx_active_permit c \<and> cx_rewriter c = None
     \<and> (\<exists>profile extension. cx_decision c = Rewrite profile extension False)"
| "fits (Open session c) woken p \<longleftrightarrow>
     \<not> woken \<and> (if cx_active_permit c then p = Rewriting else p \<in> {Arriving, Rejected, Finished} \<and> cx_rewriter c = None)"
| "fits (Closed line label) woken p \<longleftrightarrow> \<not> woken \<and> p \<in> {Arriving, Rejected, Finished}"

definition same_shared :: "('s, 'i) admission \<Rightarrow> ('s, 'i, 'sess) system \<Rightarrow> bool" where
  "same_shared a y \<longleftrightarrow> adm_active a = sy_active y \<and> adm_queued a = sy_queued y
     \<and> gauge_active a = mt_active (sy_metrics y) \<and> gauge_queued a = mt_queued (sy_metrics y)"

definition simulates :: "('s, 'i) admission \<Rightarrow> ('s, 'i, 'sess) system \<Rightarrow> bool" where
  "simulates a y \<longleftrightarrow> same_shared a y
     \<and> (\<forall>i. fits (sy_requests y i) (i \<in> sy_woken y) (adm_phase a i))"

lemma simulates_enter: "simulates a y \<Longrightarrow> matches a (enter y session c)"
  by (simp add: simulates_def same_shared_def matches_def)

lemma simulates_fits: "simulates a y \<Longrightarrow> fits (sy_requests y i) (i \<in> sy_woken y) (adm_phase a i)"
  by (simp add: simulates_def)

lemma fits_waiting: "fits r woken Waiting \<Longrightarrow> \<not> woken \<and> fits r True Granted"
  by (cases r) (auto split: if_splits)

lemma simulates_leave:
  assumes "reaches S i a w f"
    and "\<And>k. fits (sy_requests (leave i r w y) k) (k \<in> sy_woken (leave i r w y)) (f k)"
  shows "\<exists>is b. admission_steps S a is b \<and> simulates b (leave i r w y)"
proof -
  from assms(1) obtain n b where b: "admission_steps S a (replicate n i) b" "matches b w" "adm_phase b = f"
    by (auto simp: reaches_def)
  then have "same_shared b (leave i r w y)" by (simp add: same_shared_def matches_def)
  with assms(2) b show ?thesis unfolding simulates_def by metis
qed

text \<open>A step that does not touch the shared state.\<close>

lemma simulates_private:
  assumes "simulates a y" "shared w = shared (enter y session c)" "fits r (i \<in> sy_woken y) (adm_phase a i)"
  shows "\<exists>is b. admission_steps S a is b \<and> simulates b (leave i r w y)"
proof (rule simulates_leave [OF reaches_now [OF _ refl]])
  show "matches a w" using simulates_enter [OF assms(1)] matches_shared [OF assms(2)] by simp
  have "wd_woken w = []" using assms(2) by (simp add: shared_def)
  then show "fits (sy_requests (leave i r w y) k) (k \<in> sy_woken (leave i r w y)) (adm_phase a k)" for k
    using assms(3) simulates_fits [OF assms(1), of k] by simp
qed

text \<open>The end of a rewrite: the permit goes to the first waiter, or is available again.\<close>

lemma simulates_give_back:
  assumes "libs_ok L" "admission_inv (lib_semaphore L) mc mq a" "simulates a y" "sy_requests y i = Open session c"
    and "shared w = shared (enter y session c)" "cx_active_permit (wd_ctx w) = cx_active_permit c"
    and "shared w' = shared (take_active_permit L w)" "\<And>p. p \<in> {Arriving, Rejected, Finished} \<Longrightarrow> fits r False p"
  shows "\<exists>is b. admission_steps (lib_semaphore L) a is b \<and> simulates b (leave i r w' y)"
proof (cases "cx_active_permit c")
  case False
  with simulates_fits [OF assms(3), of i] assms(4)
  have "i \<notin> sy_woken y" "adm_phase a i \<in> {Arriving, Rejected, Finished}" by auto
  moreover have "shared w' = shared (enter y session c)"
    using assms(5-7) False by (simp add: take_permit_shared)
  ultimately show ?thesis using assms(3,8) by (intro simulates_private) auto
next
  case True
  from simulates_fits [OF assms(3), of i] True have i: "adm_phase a i = Rewriting" "i \<notin> sy_woken y"
    by (simp_all add: assms(4))
  have m: "matches a w" using simulates_enter [OF assms(3)] matches_shared [OF assms(5)] by simp
  obtain ws where ws: "wd_woken (take_active_permit L w) = wd_woken w @ ws"
    and reach: "reaches (lib_semaphore L) i a (take_active_permit L w)
      (\<lambda>k. if k = i then Finished else if k \<in> set ws then Granted else adm_phase a k)"
    using give_back_refines [OF assms(1,2) m i(1)] assms(6) True by blast
  have woken: "wd_woken w' = ws" using ws assms(5,7) by (simp add: shared_def)
  have sem: "semaphore_ok (lib_semaphore L)" using assms(1) by (simp add: libs_ok_def)
  have waiting: "adm_phase a j = Waiting" if "j \<in> set ws" for j
  proof -
    obtain s r where rel: "sem_release (lib_semaphore L) (wd_active w) = (s, r)" by fastforce
    then have "ws = (case r of Some j \<Rightarrow> [j] | None \<Rightarrow> [])"
      using ws True assms(6) by (simp add: take_active_permit_def release_active_def)
    with that rel have "sem_release (lib_semaphore L) (adm_active a) = (s, Some j)"
      using m by (auto simp: matches_def split: option.splits)
    then show ?thesis by (rule release_wakes [OF sem assms(2)]) simp
  qed
  show ?thesis
  proof (rule simulates_leave)
    show "reaches (lib_semaphore L) i a w'
        (\<lambda>k. if k = i then Finished else if k \<in> set ws then Granted else adm_phase a k)"
      using reach reaches_shared [OF assms(7)] by blast
    have "i \<notin> set ws" using waiting [of i] i(1) by auto
    with i(2) assms(8) show "fits (sy_requests (leave i r w' y) k) (k \<in> sy_woken (leave i r w' y))
        (if k = i then Finished else if k \<in> set ws then Granted else adm_phase a k)" for k
      using simulates_fits [OF assms(3), of k] waiting [of k] fits_waiting [of "sy_requests y k"]
      by (cases "k = i"; cases "k \<in> set ws") (simp_all add: woken)
  qed
qed

lemma arrive_simulates:
  assumes "libs_ok L" "admission_inv (lib_semaphore L) mc mq a" "simulates a y" "sy_requests y i = Not_Arrived"
    and "request_filter L P i (enter y session (new_ctx rid)) = (w, r)"
  shows "\<exists>is b. admission_steps (lib_semaphore L) a is b
    \<and> simulates b (leave i ((if r = Filter_Waits then Suspended else Open) (wd_session w) (wd_ctx w)) w y)"
proof -
  let ?w0 = "enter y session (new_ctx rid)"
  have i: "adm_phase a i = Arriving" "i \<notin> sy_woken y"
    using simulates_fits [OF assms(3), of i] by (simp_all add: assms(4))
  have ctx: "wd_ctx ?w0 = new_ctx rid" by simp
  show ?thesis
  proof (cases rule: request_filter_split [OF ctx assms(5), case_names passes admits])
    case passes
    then show ?thesis using i by (intro simulates_private [OF assms(3)]) auto
  next
    case (admits w2 w3 adm profile extension)
    have m: "matches a w2" using simulates_enter [OF assms(3)] matches_shared [OF admits(1)] by blast
    have "no_queue_waiters L w2"
      using assms(2) m by (simp add: no_queue_waiters_def admission_inv_def matches_def)
    from admit_rewrite_cases [OF assms(1) this admits(3,6)]
    obtain outc where c3: "wd_ctx w3 = (wd_ctx w2)\<lparr>cx_active_permit := (adm = Admitted True), cx_outcome := outc\<rparr>"
      by blast
    have "wd_woken w3 = wd_woken w2" using admit_rewrite_woken [OF assms(1) admits(6)] by simp
    then have woken: "wd_woken w = []" using admits(1,7) by (simp add: shared_def)
    show ?thesis
    proof (rule simulates_leave)
      show "reaches (lib_semaphore L) i a w ((adm_phase a)(i := phase_after adm))"
        using admit_refines [OF assms(1) m i(1) admits(6)] reaches_shared [OF admits(7)] by blast
      show "fits (sy_requests (leave i ((if r = Filter_Waits then Suspended else Open) (wd_session w) (wd_ctx w)) w y) k)
          (k \<in> sy_woken (leave i ((if r = Filter_Waits then Suspended else Open) (wd_session w) (wd_ctx w)) w y))
          (((adm_phase a)(i := phase_after adm)) k)" for k
        using simulates_fits [OF assms(3), of k] i(2) c3 admits(3-5,9,10)
        by (cases adm) (auto simp: woken phase_after_def split: if_splits)
    qed
  qed
qed

lemma resume_simulates:
  assumes "libs_ok L" "admission_inv (lib_semaphore L) mc mq a" "simulates a y"
    and "sy_requests y i = Suspended session c" "i \<in> sy_woken y"
    and "request_filter_resume L P (enter y session c) = (w, r)"
  shows "\<exists>is b. admission_steps (lib_semaphore L) a is b
    \<and> simulates b (leave i (Open (wd_session w) (wd_ctx w)) w (y\<lparr>sy_woken := sy_woken y - {i}\<rparr>))"
proof -
  let ?w0 = "enter y session c" and ?y = "y\<lparr>sy_woken := sy_woken y - {i}\<rparr>"
  have i: "adm_phase a i = Granted" and c: "\<not> cx_active_permit c"
    using simulates_fits [OF assms(3), of i] assms(5) by (simp_all add: assms(4))
  obtain profile extension where "cx_decision c = Rewrite profile extension False"
    using simulates_fits [OF assms(3), of i] assms(5) by (auto simp: assms(4))
  then have w: "shared w = shared (admit_resume L ?w0)" "cx_active_permit (wd_ctx w) = cx_active_permit (wd_ctx (admit_resume L ?w0))"
    using assms(6) by (auto simp: request_filter_resume_def build_rewriter_def split: outcome.splits)
  have m: "matches a ?w0" by (rule simulates_enter [OF assms(3)])
  have queue: "no_queue_waiters L ?w0"
    using assms(2) m by (simp add: no_queue_waiters_def admission_inv_def matches_def)
  have "wd_woken w = []" using w(1) admit_resume_woken [OF assms(1) queue] by (simp add: shared_def)
  moreover have "cx_active_permit (wd_ctx w)"
    using w(2) admit_resume_balance(5) [OF assms(1) queue] c by simp
  ultimately have fits: "fits (sy_requests (leave i (Open (wd_session w) (wd_ctx w)) w ?y) k)
      (k \<in> sy_woken (leave i (Open (wd_session w) (wd_ctx w)) w ?y)) (((adm_phase a)(i := Rewriting)) k)" for k
    using simulates_fits [OF assms(3), of k] by simp
  have "reaches (lib_semaphore L) i a w ((adm_phase a)(i := Rewriting))"
    using resume_refines [OF assms(1,2) m i] reaches_shared [OF w(1)] by blast
  then show ?thesis by (rule simulates_leave [OF _ fits])
qed

lemma system_step_simulates:
  assumes "libs_ok L" "admission_inv (lib_semaphore L) mc mq a" "simulates a y" "system_step L P i y z"
  shows "\<exists>is b. admission_steps (lib_semaphore L) a is b \<and> simulates b z"
  using assms(4)
proof cases
  case (arrive session rid w r)
  then show ?thesis using arrive_simulates [OF assms(1-3)] by blast
next
  case (resume session c w r)
  then show ?thesis using resume_simulates [OF assms(1-3)] by blast
next
  case (respond session c rsp w x)
  have i: "fits (Open session c) (i \<in> sy_woken y) (adm_phase a i)"
    using simulates_fits [OF assms(3), of i] unfolding respond(2) .
  show ?thesis
  proof (cases rule: response_filter_split [OF respond(3), case_names keeps stops])
    case keeps
    then show ?thesis unfolding respond(1) using i by (intro simulates_private [OF assms(3), where session = session and c = c]) auto
  next
    case (stops w2)
    then have "\<not> cx_active_permit (wd_ctx w)" "cx_rewriter (wd_ctx w) = None"
      using take_permit_balance(2,4) [OF assms(1), of w2] by auto
    then show ?thesis unfolding respond(1) using stops(1,2,4)
      by (intro simulates_give_back [OF assms(1-3) respond(2), where w = w2]) auto
  qed
next
  case (stream session c body eos c' x)
  have i: "fits (Open session c') (i \<in> sy_woken y) (adm_phase a i)"
    using simulates_fits [OF assms(3), of i] response_body_filter_kept [OF stream(3)] stream(2) by (auto split: if_splits)
  show ?thesis unfolding stream(1)
    by (rule simulates_private [OF assms(3) _ i, where session = session and c = c]) (simp add: shared_def)
next
  case (finish session c error w elapsed)
  have "shared w = shared (take_active_permit L (enter y session c))"
    using finish(3) by (auto simp: logging_def Let_def)
  then show ?thesis unfolding finish(1)
    by (intro simulates_give_back [OF assms(1-3) finish(2), where w = "enter y session c"]) auto
qed

section \<open>Runs\<close>

lemma admission_steps_append:
  "admission_steps S a is b \<Longrightarrow> admission_steps S b js c \<Longrightarrow> admission_steps S a (is @ js) c"
  by (induction rule: admission_steps.induct) auto

text \<open>
  A state of the process: reached from its start by handlers of its requests.
\<close>

definition process_reaches ::
  "('s, 'i, 'h, 'sess, 'json) libs \<Rightarrow> 'r kse_proxy \<Rightarrow> 'i list \<Rightarrow> ('s, 'i, 'sess) system \<Rightarrow> bool" where
  "process_reaches L p is y \<longleftrightarrow>
     system_steps L (kp_proxy p)
       (system_new (lib_semaphore L) (kp_active_permits p) (kp_queued_permits p)) is y"

lemma system_steps_Cons:
  assumes "system_step L P i x y" "system_steps L P y is z"
  shows "system_steps L P x (i # is) z"
  using assms(2) by induction (use assms(1) here there in fastforce)+

lemma system_steps_append: "system_steps L P y js z \<Longrightarrow> system_steps L P x is y \<Longrightarrow> system_steps L P x (is @ js) z"
  by (induction rule: system_steps.induct) (auto intro: there simp flip: append_assoc)

lemma system_steps_simulate:
  assumes "system_steps L P y0 is y" "libs_ok L" "y0 = system_new (lib_semaphore L) mc mq"
  shows "\<exists>js a. admission_steps (lib_semaphore L) (admission_new (lib_semaphore L) mc mq) js a \<and> simulates a y"
  using assms
proof (induction rule: system_steps.induct)
  case here
  then have "simulates (admission_new (lib_semaphore L) mc mq) y0"
    by (simp add: simulates_def same_shared_def admission_new_def system_new_def metrics_new_def)
  then show ?case using no_step by blast
next
  case (there "is" z i z')
  then obtain js a where a: "admission_steps (lib_semaphore L) (admission_new (lib_semaphore L) mc mq) js a" "simulates a z"
    by blast
  have "semaphore_ok (lib_semaphore L)" using there.prems(1) by (simp add: libs_ok_def)
  from admission_reachable_inv [OF this a(1)] system_step_simulates [OF there.prems(1) _ a(2) there.hyps(2)]
  obtain ks b where "admission_steps (lib_semaphore L) a ks b" "simulates b z'" by blast
  with admission_steps_append [OF a(1)] show ?case by blast
qed

lemma kse_proxy_permits:
  assumes "kse_proxy_new R max_permits config = Ok p"
  shows "kp_active_permits p = ec_max_concurrent config" "kp_queued_permits p = ec_max_queued config"
  using assms by (auto simp: kse_proxy_new_def split: option.splits prod.splits if_splits)

lemma process_simulated:
  assumes "libs_ok L" "kse_proxy_new R max_permits config = Ok p" "process_reaches L p is y"
  obtains js a where "admission_steps (lib_semaphore L)
      (admission_new (lib_semaphore L) (ec_max_concurrent config) (ec_max_queued config)) js a"
    "simulates a y" "admission_inv (lib_semaphore L) (ec_max_concurrent config) (ec_max_queued config) a"
proof -
  from system_steps_simulate [OF assms(3) [unfolded process_reaches_def] assms(1) refl] obtain js a where a:
    "admission_steps (lib_semaphore L)
      (admission_new (lib_semaphore L) (ec_max_concurrent config) (ec_max_queued config)) js a" "simulates a y"
    unfolding kse_proxy_permits [OF assms(2)] by blast
  have "semaphore_ok (lib_semaphore L)" using assms(1) by (simp add: libs_ok_def)
  with a admission_reachable_inv that show thesis by blast
qed

text \<open>
  C21. The process refines the interleaved admission: whatever requests arrive and in whatever order
  their handlers run, wait and are resumed, there is a run of the atomic steps of the admission
  that ends with the same semaphores and gauges, and in which a request that waits is waiting or
  granted, one with a permit is rewriting, and every other one has not arrived, has been
  rejected or has finished, without a rewriter.
\<close>

theorem process_refines_admission:
  assumes "libs_ok L" "kse_proxy_new R max_permits config = Ok p" "process_reaches L p is y"
  shows "\<exists>js a. admission_steps (lib_semaphore L)
      (admission_new (lib_semaphore L) (ec_max_concurrent config) (ec_max_queued config)) js a
    \<and> same_shared a y \<and> (\<forall>i. fits (sy_requests y i) (i \<in> sy_woken y) (adm_phase a i))"
  by (rule process_simulated [OF assms]) (use simulates_def in blast)

section \<open>Limits\<close>

definition suspended :: "'sess request \<Rightarrow> bool" where
  "suspended r \<longleftrightarrow> (case r of Suspended _ _ \<Rightarrow> True | _ \<Rightarrow> False)"

definition has_permit :: "'sess request \<Rightarrow> bool" where
  "has_permit r \<longleftrightarrow> (case r of Open _ c \<Rightarrow> cx_active_permit c | _ \<Rightarrow> False)"

definition has_rewriter :: "'sess request \<Rightarrow> bool" where
  "has_rewriter r \<longleftrightarrow> (case r of Open _ c \<Rightarrow> cx_rewriter c \<noteq> None | Suspended _ c \<Rightarrow> cx_rewriter c \<noteq> None | _ \<Rightarrow> False)"

lemmas request_classes = suspended_def has_permit_def has_rewriter_def

lemma fits_classes:
  assumes "fits r woken p"
  shows "has_permit r \<longleftrightarrow> p = Rewriting" "suspended r \<longleftrightarrow> p = Waiting \<or> p = Granted"
    "has_rewriter r \<Longrightarrow> has_permit r" "woken \<longleftrightarrow> p = Granted"
    "holds_active p \<longleftrightarrow> has_permit r \<or> woken" "holds_queue p \<longleftrightarrow> suspended r"
    "counted_active p \<longleftrightarrow> has_permit r" "counted_queued p \<longleftrightarrow> suspended r"
  using assms by (cases r; auto simp: request_classes phase_classes split: if_splits)+

lemma simulated_counts:
  assumes "simulates a y" "admission_inv S mc mq a"
  shows "finite {i. has_permit (sy_requests y i)}" "finite {i. suspended (sy_requests y i)}" "finite (sy_woken y)"
    "mt_active (sy_metrics y) = int (card {i. has_permit (sy_requests y i)})"
    "mt_queued (sy_metrics y) = int (card {i. suspended (sy_requests y i)})"
    "sem_permits S (sy_active y) + card {i. has_permit (sy_requests y i)} + card (sy_woken y) = mc"
    "sem_permits S (sy_queued y) + card {i. suspended (sy_requests y i)} = mq"
    "{i. has_rewriter (sy_requests y i)} \<subseteq> {i. has_permit (sy_requests y i)}"
    "sem_waiting S (sy_active y) \<noteq> [] \<Longrightarrow> sem_permits S (sy_active y) = 0"
    "set (sem_waiting S (sy_active y)) = {i. suspended (sy_requests y i)} - sy_woken y"
proof -
  note f = fits_classes [OF simulates_fits [OF assms(1)]]
  have fin: "finitely_many a" using assms(2) by (simp add: admission_inv_def)
  have held: "{i. holds_active (adm_phase a i)} = {i. has_permit (sy_requests y i)} \<union> sy_woken y"
    and queue: "{i. holds_queue (adm_phase a i)} = {i. suspended (sy_requests y i)}"
    and gauges: "{i. counted_active (adm_phase a i)} = {i. has_permit (sy_requests y i)}"
      "{i. counted_queued (adm_phase a i)} = {i. suspended (sy_requests y i)}"
    using f(5-8) by blast+
  have "finite {i. holds_active (adm_phase a i)}" "finite {i. holds_queue (adm_phase a i)}"
    using finite_class [OF fin] by simp_all
  then show fin: "finite {i. has_permit (sy_requests y i)}" "finite {i. suspended (sy_requests y i)}" "finite (sy_woken y)"
    unfolding held queue by simp_all
  have disjoint: "{i. has_permit (sy_requests y i)} \<inter> sy_woken y = {}" using f(1,4) by auto
  have shared: "adm_active a = sy_active y" "adm_queued a = sy_queued y"
    "gauge_active a = mt_active (sy_metrics y)" "gauge_queued a = mt_queued (sy_metrics y)"
    using assms(1) by (simp_all add: simulates_def same_shared_def)
  show "mt_active (sy_metrics y) = int (card {i. has_permit (sy_requests y i)})"
    "mt_queued (sy_metrics y) = int (card {i. suspended (sy_requests y i)})"
    "sem_permits S (sy_active y) + card {i. has_permit (sy_requests y i)} + card (sy_woken y) = mc"
    "sem_permits S (sy_queued y) + card {i. suspended (sy_requests y i)} = mq"
    using assms(2) card_Un_disjoint [OF fin(1,3) disjoint]
    by (simp_all add: admission_inv_def number_def held queue gauges shared)
  show "{i. has_rewriter (sy_requests y i)} \<subseteq> {i. has_permit (sy_requests y i)}" using f(3) by blast
  show "sem_permits S (sy_active y) = 0" if "sem_waiting S (sy_active y) \<noteq> []"
    using that assms(2) by (simp add: admission_inv_def shared)
  have "set (sem_waiting S (sy_active y)) = {i. adm_phase a i = Waiting}"
    using assms(2) by (simp add: admission_inv_def shared)
  also have "\<dots> = {i. suspended (sy_requests y i)} - sy_woken y" using f(2,4) by auto
  finally show "set (sem_waiting S (sy_active y)) = {i. suspended (sy_requests y i)} - sy_woken y" .
qed

text \<open>
  C4. The resources of the process are bounded by its configuration: under every interleaving of
  the handlers at most \<open>maxConcurrent\<close> rewriters exist at a time, each belongs to a request with a
  permit, at most \<open>maxQueued\<close> requests wait, every permit is available, held, or on its way to a
  waiter, and the two gauges show the numbers of requests that rewrite and that wait.
\<close>

theorem rewriters_bounded:
  assumes "libs_ok L" "kse_proxy_new R max_permits config = Ok p" "process_reaches L p is y"
  shows "card {i. has_rewriter (sy_requests y i)} \<le> ec_max_concurrent config
    \<and> {i. has_rewriter (sy_requests y i)} \<subseteq> {i. has_permit (sy_requests y i)}
    \<and> sem_permits (lib_semaphore L) (sy_active y) + card {i. has_permit (sy_requests y i)} + card (sy_woken y)
        = ec_max_concurrent config
    \<and> sem_permits (lib_semaphore L) (sy_queued y) + card {i. suspended (sy_requests y i)} = ec_max_queued config
    \<and> mt_active (sy_metrics y) = int (card {i. has_permit (sy_requests y i)})
    \<and> mt_queued (sy_metrics y) = int (card {i. suspended (sy_requests y i)})"
proof (rule process_simulated [OF assms])
  fix a
  assume "simulates a y" "admission_inv (lib_semaphore L) (ec_max_concurrent config) (ec_max_queued config) a"
  note counts = simulated_counts [OF this]
  have "card {i. has_rewriter (sy_requests y i)} \<le> card {i. has_permit (sy_requests y i)}"
    using counts(1,8) by (rule card_mono)
  with counts show ?thesis by auto
qed

section \<open>The end\<close>

text \<open>The requests that have been closed with an outcome and a label.\<close>

definition closed_as :: "bytes \<times> bytes \<Rightarrow> 'sess request \<Rightarrow> bool" where
  "closed_as k r \<longleftrightarrow> (case r of Closed line label \<Rightarrow> (ll_outcome line, label) = k | _ \<Rightarrow> False)"

definition counted_once :: "('s, 'i, 'sess) system \<Rightarrow> bool" where
  "counted_once y \<longleftrightarrow> (\<forall>k. finite {i. closed_as k (sy_requests y i)}
     \<and> mt_requests (sy_metrics y) k = card {i. closed_as k (sy_requests y i)})"

lemma counted_once_open:
  assumes "counted_once y" "\<And>k. \<not> closed_as k (sy_requests y i)" "\<And>k. \<not> closed_as k r"
    and "mt_requests (wd_metrics w) = mt_requests (sy_metrics y)"
  shows "counted_once (leave i r w y)"
proof -
  have "{j. closed_as k (sy_requests (leave i r w y) j)} = {j. closed_as k (sy_requests y j)}" for k
    using assms(2) [of k] assms(3) [of k] by auto
  with assms(1,4) show ?thesis unfolding counted_once_def by simp
qed

lemma take_permit_requests [simp]: "mt_requests (wd_metrics (take_active_permit L w)) = mt_requests (wd_metrics w)"
  by (simp add: take_active_permit_def)

lemma closed_as_simps [simp]:
  "\<not> closed_as k Not_Arrived" "\<not> closed_as k (Suspended session c)" "\<not> closed_as k (Open session c)"
  "closed_as k (Closed line label) \<longleftrightarrow> (ll_outcome line, label) = k"
  by (simp_all add: closed_as_def)

lemma finish_counted:
  assumes "counted_once y" "sy_requests y i = Open session c" "logging L P (error \<noteq> None) (enter y session c) = w"
  shows "counted_once (leave i (Closed (completed_line error elapsed (wd_ctx w)) (metrics_extension P (wd_ctx w))) w y)"
proof -
  let ?line = "completed_line error elapsed (wd_ctx w)" and ?label = "metrics_extension P (wd_ctx w)"
  have w: "mt_requests (wd_metrics w) = inc_by (ll_outcome ?line, ?label) 1 (mt_requests (sy_metrics y))"
    using assms(3) by (auto simp: logging_def Let_def completed_line_def)
  have set: "{j. closed_as k (sy_requests (leave i (Closed ?line ?label) w y) j)} =
      (if (ll_outcome ?line, ?label) = k then insert i {j. closed_as k (sy_requests y j)} else {j. closed_as k (sy_requests y j)})" for k
    using assms(2) by auto
  have "i \<notin> {j. closed_as k (sy_requests y j)}" for k using assms(2) by simp
  with assms(1) show ?thesis unfolding counted_once_def set by (auto simp: w inc_by_def)
qed

lemma system_step_counted:
  assumes "system_step L P i y z" "libs_ok L" "counted_once y"
  shows "counted_once z"
  using assms(1)
proof cases
  case (arrive session rid w r)
  have ctx: "wd_ctx (enter y session (new_ctx rid)) = new_ctx rid" by simp
  have "mt_requests (wd_metrics w) = mt_requests (sy_metrics y)"
    by (rule request_filter_split [OF ctx arrive(3)]) (use admit_rewrite_woken [OF assms(2)] in force)+
  with arrive show ?thesis by (auto intro: counted_once_open [OF assms(3)])
next
  case (resume session c w r)
  have "counted_once (y\<lparr>sy_woken := sy_woken y - {i}\<rparr>)" using assms(3) by (simp add: counted_once_def)
  moreover have "mt_requests (wd_metrics w) = mt_requests (sy_metrics y)"
    using resume(4) by (auto simp: request_filter_resume_def build_rewriter_def admit_resume_def
        split: rewrite_decision.splits outcome.splits)
  ultimately show ?thesis using resume by (auto intro: counted_once_open)
next
  case (respond session c rsp w x)
  have "mt_requests (wd_metrics w) = mt_requests (sy_metrics y)"
    by (rule response_filter_split [OF respond(3)]) simp_all
  with respond show ?thesis by (auto intro: counted_once_open [OF assms(3)])
next
  case (stream session c body eos c' x)
  then show ?thesis by (auto intro: counted_once_open [OF assms(3)])
next
  case (finish session c error w elapsed)
  then show ?thesis using finish_counted [OF assms(3)] by blast
qed

lemma process_counted:
  assumes "process_reaches L p is y" "libs_ok L"
  shows "counted_once y"
proof -
  have "counted_once y" if "system_steps L P y0 is y" "counted_once y0" for P y0
    using that by (induction rule: system_steps.induct) (auto dest: system_step_counted [OF _ assms(2)])
  then show ?thesis using assms(1) unfolding process_reaches_def
    by (auto simp: counted_once_def system_new_def metrics_new_def)
qed

text \<open>Somebody can always go on: a permit is held or has been handed over while somebody waits.\<close>

definition under_way :: "'sess request \<Rightarrow> bool" where
  "under_way r \<longleftrightarrow> (case r of Open _ _ \<Rightarrow> True | Suspended _ _ \<Rightarrow> True | _ \<Rightarrow> False)"

lemma somebody_goes_on:
  assumes "simulates a y" "admission_inv S mc mq a" "0 < mc" "under_way (sy_requests y i)"
  obtains (closes) j session c where "sy_requests y j = Open session c"
  | (resumes) j session c where "sy_requests y j = Suspended session c" "j \<in> sy_woken y"
proof -
  note counts = simulated_counts [OF assms(1,2)] and f = fits_classes [OF simulates_fits [OF assms(1)]]
  show thesis
  proof (cases "sy_requests y i")
    case (Suspended session c)
    show thesis
    proof (cases "sy_woken y = {}")
      case True
      with Suspended have "i \<in> set (sem_waiting S (sy_active y))" by (simp add: counts(10) suspended_def)
      then have "sem_permits S (sy_active y) = 0" by (intro counts(9)) auto
      with counts(6) True assms(3) have "0 < card {j. has_permit (sy_requests y j)}" by simp
      then have "{j. has_permit (sy_requests y j)} \<noteq> {}" by (metis card.empty less_irrefl)
      then obtain j where "has_permit (sy_requests y j)" by blast
      with closes show thesis by (auto simp: has_permit_def split: request.splits)
    next
      case False
      then obtain j where j: "j \<in> sy_woken y" by blast
      with f(2,4) have "suspended (sy_requests y j)" by blast
      with j resumes show thesis by (auto simp: suspended_def split: request.splits)
    qed
  qed (use assms(4) closes in \<open>auto simp: under_way_def\<close>)
qed

text \<open>What is left to do, with a call of \<open>logging\<close> for each open request and two calls for a suspended one.\<close>

definition work :: "'sess request \<Rightarrow> nat" where
  "work r = (case r of Suspended _ _ \<Rightarrow> 2 | Open _ _ \<Rightarrow> 1 | _ \<Rightarrow> 0)"

lemma work_under_way: "0 < work r \<longleftrightarrow> under_way r"
  by (simp add: work_def under_way_def split: request.split)

lemma work_update:
  assumes "finite A" "i \<in> A" "work r < work (f i)"
  shows "(\<Sum>j\<in>A. work ((f(i := r)) j)) < (\<Sum>j\<in>A. work (f j))"
  using assms by (intro sum_strict_mono_ex1) auto

lemma next_step:
  assumes "simulates a y" "admission_inv (lib_semaphore L) mc mq a" "0 < mc" "under_way (sy_requests y i)"
  obtains j r z where "system_step L P j y z" "sy_requests z = (sy_requests y)(j := r)"
    "under_way (sy_requests y j)" "work r < work (sy_requests y j)" "r \<noteq> Not_Arrived"
proof (rule somebody_goes_on [OF assms])
  fix j session c
  assume j: "sy_requests y j = Open session c"
  from system_step.finish [OF j refl, of L P None 0] show thesis
    by (rule that) (rule leave_sel, simp_all add: j work_def under_way_def)
next
  fix j session c
  assume j: "sy_requests y j = Suspended session c" "j \<in> sy_woken y"
  obtain w r where "request_filter_resume L P (enter y session c) = (w, r)" by fastforce
  from system_step.resume [OF j this] show thesis
    by (rule that) (simp, simp_all add: j work_def under_way_def)
qed

lemma finishing_run:
  assumes "libs_ok L" "0 < mc" "finite A"
  shows "simulates a y \<Longrightarrow> admission_inv (lib_semaphore L) mc mq a \<Longrightarrow> {i. under_way (sy_requests y i)} \<subseteq> A \<Longrightarrow>
    \<exists>js z. system_steps L P y js z \<and> (\<forall>i. \<not> under_way (sy_requests z i))
      \<and> (\<forall>i. sy_requests z i = Not_Arrived \<longleftrightarrow> sy_requests y i = Not_Arrived)"
proof (induction "\<Sum>j\<in>A. work (sy_requests y j)" arbitrary: a y rule: less_induct)
  case less
  show ?case
  proof (cases "\<exists>i. under_way (sy_requests y i)")
    case False
    then show ?thesis using here by blast
  next
    case True
    then obtain i where i: "under_way (sy_requests y i)" by blast
    obtain j r z where step: "system_step L P j y z" and z: "sy_requests z = (sy_requests y)(j := r)"
      and j: "under_way (sy_requests y j)" "work r < work (sy_requests y j)" "r \<noteq> Not_Arrived"
      by (rule next_step [OF less.prems(1,2) assms(2) i])
    have "j \<in> A" using less.prems(3) j(1) by blast
    have smaller: "(\<Sum>k\<in>A. work (sy_requests z k)) < (\<Sum>k\<in>A. work (sy_requests y k))"
      unfolding z by (rule work_update [of A j r "sy_requests y", OF assms(3) \<open>j \<in> A\<close> j(2)])
    have sem: "semaphore_ok (lib_semaphore L)" using assms(1) by (simp add: libs_ok_def)
    from system_step_simulates [OF assms(1) less.prems(2,1) step] obtain ks b
      where b: "admission_steps (lib_semaphore L) a ks b" "simulates b z" by blast
    have "admission_inv (lib_semaphore L) mc mq b" by (rule admission_steps_inv [OF b(1) sem less.prems(2)])
    moreover have "{k. under_way (sy_requests z k)} \<subseteq> A" using less.prems(3) \<open>j \<in> A\<close> by (auto simp: z)
    ultimately obtain js z' where "system_steps L P z js z'" "\<forall>i. \<not> under_way (sy_requests z' i)"
      "\<forall>i. sy_requests z' i = Not_Arrived \<longleftrightarrow> sy_requests z i = Not_Arrived"
      using less.hyps [OF smaller b(2)] by blast
    moreover have "sy_requests y j \<noteq> Not_Arrived" using j(1) by (auto simp: under_way_def)
    ultimately show ?thesis
      using system_steps_Cons [OF step] j(3) by (intro exI [of _ "j # js"] exI [of _ z']) (auto simp: z)
  qed
qed

lemma under_way_finite:
  assumes "process_reaches L p is y"
  shows "finite {i. under_way (sy_requests y i)}"
proof -
  have step: "\<exists>j r. sy_requests z = (sy_requests y)(j := r)" if "system_step L P i y z" for P i y z
    using that by cases auto
  have "finite {i. sy_requests y i \<noteq> Not_Arrived}"
    if "system_steps L P y0 is y" "finite {i. sy_requests y0 i \<noteq> Not_Arrived}" for P y0
    using that
  proof (induction rule: system_steps.induct)
    case (there "is" z i z')
    obtain j r where "sy_requests z' = (sy_requests z)(j := r)" using step [OF there.hyps(2)] by blast
    then have "{i. sy_requests z' i \<noteq> Not_Arrived} \<subseteq> insert j {i. sy_requests z i \<noteq> Not_Arrived}" by auto
    with there show ?case using finite_subset by blast
  qed
  from this [OF assms [unfolded process_reaches_def]] have "finite {i. sy_requests y i \<noteq> Not_Arrived}"
    by (simp add: system_new_def)
  then show ?thesis by (rule finite_subset [rotated]) (auto simp: under_way_def)
qed

text \<open>
  C5. The process can always come to rest, and is clean when it does: from every state it reaches,
  however requests are queued, some handlers that have to run anyway (the continuation of
  requests that have been handed a permit, and \<open>logging\<close>) close all requests, so that no request
  waits for a permit that never comes; and when no request is under way, all permits of the
  configuration are available, nobody waits and both gauges are zero. At any time every closed
  request has been counted once, under the outcome of its log line and its label.
\<close>

theorem process_comes_to_rest:
  assumes "libs_ok L" "config_wf config" "kse_proxy_new R max_permits config = Ok p" "process_reaches L p is y"
  shows "(\<exists>js z. process_reaches L p (is @ js) z \<and> (\<forall>i. \<not> under_way (sy_requests z i))
        \<and> (\<forall>i. sy_requests z i = Not_Arrived \<longleftrightarrow> sy_requests y i = Not_Arrived))
    \<and> ((\<forall>i. \<not> under_way (sy_requests y i)) \<longrightarrow>
        sem_permits (lib_semaphore L) (sy_active y) = ec_max_concurrent config
        \<and> sem_permits (lib_semaphore L) (sy_queued y) = ec_max_queued config
        \<and> sem_waiting (lib_semaphore L) (sy_active y) = []
        \<and> mt_active (sy_metrics y) = 0 \<and> mt_queued (sy_metrics y) = 0)
    \<and> (\<forall>k. mt_requests (sy_metrics y) k = card {i. closed_as k (sy_requests y i)})"
proof (rule process_simulated [OF assms(1,3,4)])
  fix a
  assume sim: "simulates a y" "admission_inv (lib_semaphore L) (ec_max_concurrent config) (ec_max_queued config) a"
  note counts = simulated_counts [OF sim]
  have rest: "sem_permits (lib_semaphore L) (sy_active y) = ec_max_concurrent config
      \<and> sem_permits (lib_semaphore L) (sy_queued y) = ec_max_queued config
      \<and> sem_waiting (lib_semaphore L) (sy_active y) = []
      \<and> mt_active (sy_metrics y) = 0 \<and> mt_queued (sy_metrics y) = 0"
    if "\<forall>i. \<not> under_way (sy_requests y i)"
  proof -
    have none: "\<not> has_permit (sy_requests y i)" "\<not> suspended (sy_requests y i)" for i
      using that [rule_format, of i] by (auto simp: under_way_def request_classes split: request.splits)
    with fits_classes(2,4) [OF simulates_fits [OF sim(1)]] have "sy_woken y = {}" by blast
    with none counts show ?thesis by auto
  qed
  have "0 < ec_max_concurrent config" using assms(2) by (simp add: config_wf_def)
  from finishing_run [OF assms(1) this under_way_finite [OF assms(4)] sim subset_refl] obtain js z where
    "system_steps L (kp_proxy p) y js z" "\<forall>i. \<not> under_way (sy_requests z i)"
    "\<forall>i. sy_requests z i = Not_Arrived \<longleftrightarrow> sy_requests y i = Not_Arrived" by blast
  then have "\<exists>js z. process_reaches L p (is @ js) z \<and> (\<forall>i. \<not> under_way (sy_requests z i))
      \<and> (\<forall>i. sy_requests z i = Not_Arrived \<longleftrightarrow> sy_requests y i = Not_Arrived)"
    using system_steps_append assms(4) unfolding process_reaches_def by blast
  with rest process_counted [OF assms(4,1)] show ?thesis by (auto simp: counted_once_def)
qed

section \<open>A run\<close>

text \<open>One permit and one place in the queue: the second request waits.\<close>

definition queue_config :: effective_config where
  "queue_config = sample_effective_config\<lparr>ec_max_queued := 1\<rparr>"

definition queue_process :: "metric_family list kse_proxy" where
  "queue_process = ok_val (kse_proxy_new list_prometheus 9 queue_config :: (unit start_error, _) outcome)"

definition queue_start :: "(nat \<times> nat list, nat, sample_session) system" where
  "queue_start = system_new fifo_lib 1 1"

definition arrival :: "nat \<Rightarrow> (nat \<times> nat list, nat, sample_session) system \<Rightarrow> (nat \<times> nat list, nat, sample_session) world \<times> filtered" where
  "arrival i y = request_filter sample_libs (proxy_new queue_config) i
     (enter y (wd_session (sample_world bundle_path)) (new_ctx ''id''))"

definition queue_state1 :: "(nat \<times> nat list, nat, sample_session) system" where
  "queue_state1 = (case arrival 0 queue_start of (w, _) \<Rightarrow> leave 0 (Open (wd_session w) (wd_ctx w)) w queue_start)"

definition queue_state2 :: "(nat \<times> nat list, nat, sample_session) system" where
  "queue_state2 = (case arrival 1 queue_state1 of (w, _) \<Rightarrow> leave 1 (Suspended (wd_session w) (wd_ctx w)) w queue_state1)"

lemma queue_results: "snd (arrival 0 queue_start) = Continue" "snd (arrival 1 queue_state1) = Filter_Waits"
  by code_simp+

lemma queue_process:
  "(kse_proxy_new list_prometheus 9 queue_config :: (unit start_error, _) outcome) = Ok queue_process"
  "kp_proxy queue_process = proxy_new queue_config" "kp_active_permits queue_process = 1" "kp_queued_permits queue_process = 1"
proof -
  obtain r where "(kse_proxy_new list_prometheus 9 queue_config :: (unit start_error, _) outcome) =
      Ok \<lparr>kp_proxy = proxy_new queue_config, kp_active_permits = 1, kp_queued_permits = 1, kp_registry = r\<rparr>"
    by (rule kse_proxy_new_cases [OF list_prometheus_ok, of 9 queue_config])
      (auto simp: queue_config_def sample_effective_config_def)
  then show "(kse_proxy_new list_prometheus 9 queue_config :: (unit start_error, _) outcome) = Ok queue_process"
    "kp_proxy queue_process = proxy_new queue_config" "kp_active_permits queue_process = 1" "kp_queued_permits queue_process = 1"
    by (simp_all add: queue_process_def)
qed

lemma queue_reached: "process_reaches sample_libs queue_process [0, 1] queue_state2"
proof -
  have "system_step sample_libs (proxy_new queue_config) 0 queue_start queue_state1"
    using arrive [of queue_start 0 sample_libs "proxy_new queue_config" "wd_session (sample_world bundle_path)" "''id''"
        "fst (arrival 0 queue_start)" "snd (arrival 0 queue_start)"] queue_results(1)
    by (simp add: arrival_def queue_state1_def queue_start_def system_new_def split_beta)
  moreover have "system_step sample_libs (proxy_new queue_config) 1 queue_state1 queue_state2"
    using arrive [of queue_state1 1 sample_libs "proxy_new queue_config" "wd_session (sample_world bundle_path)" "''id''"
        "fst (arrival 1 queue_state1)" "snd (arrival 1 queue_state1)"] queue_results(2)
    by (simp add: arrival_def queue_state2_def queue_state1_def queue_start_def system_new_def split_beta)
  ultimately have "system_steps sample_libs (proxy_new queue_config) queue_start (([] @ [0]) @ [1]) queue_state2"
    by (intro there) (rule here)
  then show ?thesis
    by (simp add: process_reaches_def queue_process queue_start_def sample_libs_def)
qed

lemma queue_wf: "config_wf queue_config"
  using sample_config_wf by (simp add: queue_config_def config_wf_def sample_proxy_def proxy_new_def)

lemma queue_limits: "ec_max_concurrent queue_config = 1" "ec_max_queued queue_config = 1"
  by (simp_all add: queue_config_def sample_effective_config_def)

lemma queue_suspended: "\<exists>session c. sy_requests queue_state2 1 = Suspended session c" "1 \<notin> sy_woken queue_state2"
proof -
  show "\<exists>session c. sy_requests queue_state2 1 = Suspended session c"
    by (simp add: queue_state2_def split_beta)
  have "(case sy_requests queue_state2 1 of Suspended _ _ \<Rightarrow> 1 \<notin> sy_woken queue_state2 | _ \<Rightarrow> False)" by code_simp
  then show "1 \<notin> sy_woken queue_state2" by (auto split: request.splits)
qed

theorem process_refines_admission_witness:
  "\<exists>js a. admission_steps fifo_lib (admission_new fifo_lib 1 1) js a \<and> adm_phase a 1 = Waiting
     \<and> same_shared a queue_state2"
proof -
  obtain js a where a: "admission_steps fifo_lib (admission_new fifo_lib 1 1) js a" "same_shared a queue_state2"
    "fits (sy_requests queue_state2 1) (1 \<in> sy_woken queue_state2) (adm_phase a 1)"
    using process_refines_admission [OF sample_libs_ok queue_process(1) queue_reached]
    unfolding queue_limits by (auto simp: sample_libs_def)
  have "adm_phase a 1 = Waiting" using a(3) queue_suspended by auto
  with a(1,2) show ?thesis by blast
qed

theorem rewriters_bounded_witness:
  "card {i. has_rewriter (sy_requests queue_state2 i)} \<le> 1 \<and> card {i. suspended (sy_requests queue_state2 i)} \<le> 1"
  using rewriters_bounded [OF sample_libs_ok queue_process(1) queue_reached] unfolding queue_limits by linarith

theorem process_comes_to_rest_witness:
  "\<exists>js z. process_reaches sample_libs queue_process ([0, 1] @ js) z \<and> (\<exists>line label. sy_requests z 1 = Closed line label)"
proof -
  obtain js z where z: "process_reaches sample_libs queue_process ([0, 1] @ js) z" "\<not> under_way (sy_requests z 1)"
    "sy_requests z 1 = Not_Arrived \<longleftrightarrow> sy_requests queue_state2 1 = Not_Arrived"
    using process_comes_to_rest [OF sample_libs_ok queue_wf queue_process(1) queue_reached] by blast
  with queue_suspended(1) show ?thesis
    by (cases "sy_requests z 1") (auto simp: under_way_def)
qed

end
