(* ===== verification/Lifecycle_Correct.thy ===== *)
theory Lifecycle_Correct
  imports Concurrent_Correct
begin

text \<open>
  One request from its first handler to its last, whether it is admitted at once or waits in the
  queue: what it takes it gives back, it is counted once, and having waited makes no difference to
  what its client is sent.
\<close>

section \<open>A request that waits\<close>

definition suspended_ctx :: "request_context \<Rightarrow> bytes \<Rightarrow> request_context" where
  "suspended_ctx c extension = c\<lparr>cx_extension := Some extension, cx_outcome := ''queued''\<rparr>"

lemma admit_rewrite_waits:
  assumes "libs_ok L" "admit_rewrite L i w = (w', Admit_Waits)"
  shows "sem_permits (lib_semaphore L) (wd_queued w) = Suc (sem_permits (lib_semaphore L) (wd_queued w'))
    \<and> sem_permits (lib_semaphore L) (wd_active w) = 0 \<and> sem_permits (lib_semaphore L) (wd_active w') = 0
    \<and> sem_waiting (lib_semaphore L) (wd_active w') = sem_waiting (lib_semaphore L) (wd_active w) @ [i]
    \<and> wd_woken w' = wd_woken w \<and> wd_metrics w' = add_queued 1 (wd_metrics w)
    \<and> wd_ctx w' = (wd_ctx w)\<lparr>cx_outcome := ''queued''\<rparr>"
proof -
  from assms(1) have sem: "semaphore_ok (lib_semaphore L)" by (simp add: libs_ok_def)
  from assms(2) obtain q where q: "sem_try_acquire (lib_semaphore L) (wd_queued w) = Some q"
    by (auto simp: admit_rewrite_def Let_def split: option.splits outcome.splits)
  obtain s b where acq: "sem_acquire (lib_semaphore L) i (wd_active w) = (s, b)" by fastforce
  from assms(2) q acq have "\<not> b" and w': "w' = (on_ctx (\<lambda>c. c\<lparr>cx_outcome := ''queued''\<rparr>)
      (on_metrics (add_queued 1) (w\<lparr>wd_queued := q\<rparr>)))\<lparr>wd_active := s\<rparr>"
    by (auto simp: admit_rewrite_def Let_def split: option.splits bool.splits)
  with sem_acquire_cases [OF sem acq] sem_try_Some [OF sem q] show ?thesis by simp
qed

lemma request_filter_waits:
  assumes "libs_ok L" "request_filter L P i w0 = (w1, Filter_Waits)"
  obtains profile extension where
    "cx_decision (begin_request L P (wd_session w0) (wd_ctx w0)) = Rewrite profile extension False"
    "wd_ctx w1 = suspended_ctx (begin_request L P (wd_session w0) (wd_ctx w0)) extension"
    "sem_permits (lib_semaphore L) (wd_queued w0) = Suc (sem_permits (lib_semaphore L) (wd_queued w1))"
    "sem_permits (lib_semaphore L) (wd_active w0) = 0" "sem_permits (lib_semaphore L) (wd_active w1) = 0"
    "sem_waiting (lib_semaphore L) (wd_active w1) = sem_waiting (lib_semaphore L) (wd_active w0) @ [i]"
    "wd_woken w1 = wd_woken w0" "wd_metrics w1 = add_queued 1 (wd_metrics w0)"
proof -
  define w where "w = on_ctx (begin_request L P (wd_session w0)) w0"
  have not_build: "build_rewriter L P profile extension v \<noteq> (w1, Filter_Waits)" for profile extension v
    by (simp add: build_rewriter_def split: outcome.split)
  from assms(2) obtain profile extension where r: "cx_decision (wd_ctx w) = Rewrite profile extension False"
    and adm: "admit_rewrite L i (on_ctx (\<lambda>c. c\<lparr>cx_extension := Some extension, cx_outcome := ''rewrite''\<rparr>) w)
      = (w1, Admit_Waits)"
    by (auto simp: request_filter_def w_def [symmetric] Let_def not_build
        split: rewrite_decision.splits if_splits prod.splits admitted.splits bool.splits)
  from admit_rewrite_waits [OF assms(1) adm] r show thesis
    by (intro that [of profile extension]) (simp_all add: w_def suspended_ctx_def)
qed

lemma request_filter_resumes:
  assumes "libs_ok L" "cx_decision (wd_ctx w) = Rewrite profile extension head"
  obtains p where "request_filter_resume L P w = (on_ctx (\<lambda>c. c\<lparr>cx_rewriter := Some p\<rparr>) (admit_resume L w), Continue)"
    "build_selected_response_rewriter (lib_memchr L) (lib_codec L) profile (ec_base_path (px_config P))
       extension (ec_max_decoded_bytes (px_config P)) = Ok p"
  using build_rewriter_result [OF assms(1), of profile P extension "admit_resume L w"] assms(2) that
  by (auto simp: request_filter_resume_def)

section \<open>From the first handler to the last\<close>

text \<open>Response and body filters in whatever number and order, and whatever their results.\<close>

inductive filters ::
  "('s, 'i, 'h, 'sess, 'json) libs \<Rightarrow> proxy \<Rightarrow> ('s, 'i, 'sess) world \<Rightarrow> ('s, 'i, 'sess) world \<Rightarrow> bool"
  for L P w0 where
  filters_start: "filters L P w0 w0"
| filters_response: "filters L P w0 w \<Longrightarrow> response_filter L P w rsp = (w', x) \<Longrightarrow> filters L P w0 w'"
| filters_body: "filters L P w0 w \<Longrightarrow> response_body_filter L body eos (wd_ctx w) = (c, x) \<Longrightarrow>
    filters L P w0 (w\<lparr>wd_ctx := c\<rparr>)"

lemma filters_balance:
  assumes "filters L P w0 w" "libs_ok L" "cx_outcome (wd_ctx w0) \<in> outcome_names"
  shows "balance L w = balance L w0 \<and> cx_outcome (wd_ctx w) \<in> outcome_names"
  using assms
proof (induction rule: filters.induct)
  case (filters_response w rsp w' x)
  from response_filter_result [OF filters_response.prems(1) filters_response.hyps(2)]
    filters_response.IH [OF filters_response.prems]
  show ?case by (auto simp: ctx_kept_def)
next
  case (filters_body w body eos c x)
  from body_filter_result [OF filters_body.hyps(2)] filters_body.IH [OF filters_body.prems]
  show ?case by (auto simp: ctx_kept_def balance_def active_total_def)
qed simp

text \<open>What \<open>logging\<close> leaves of the permits and gauges: those without the request.\<close>

lemma logging_settles:
  assumes "libs_ok L" "w' = logging L P failed w"
  shows "\<not> cx_active_permit (wd_ctx w')
    \<and> sem_permits (lib_semaphore L) (wd_active w') + length (wd_woken w') = active_total L w
    \<and> sem_permits (lib_semaphore L) (wd_queued w') = sem_permits (lib_semaphore L) (wd_queued w)
    \<and> mt_active (wd_metrics w') = mt_active (wd_metrics w) - of_bool (cx_active_permit (wd_ctx w))
    \<and> mt_queued (wd_metrics w') = mt_queued (wd_metrics w)
    \<and> mt_requests (wd_metrics w') =
        inc_by (if failed then ''error'' else cx_outcome (wd_ctx w), metrics_extension P (wd_ctx w)) 1
          (mt_requests (wd_metrics w))"
proof -
  note t = take_permit_balance [OF assms(1), of w]
  have "metrics_extension P (wd_ctx (take_active_permit L w)) = metrics_extension P (wd_ctx w)"
    "cx_outcome (wd_ctx (take_active_permit L w)) = cx_outcome (wd_ctx w)"
    by (simp_all add: t(4) metrics_extension_def)
  with t(1,2) show ?thesis by (simp add: assms(2) logging_def Let_def balance_def active_total_def)
qed

text \<open>
  The handlers of one request: \<open>request_filter\<close> in \<open>w0\<close>, which ends in \<open>w1\<close>; if it waits there, the
  other requests run until this one is handed a permit, in \<open>w2\<close>, and it is resumed; and at last
  the filters lead to \<open>w\<close>.
\<close>

definition handled ::
  "('s, 'i, 'h, 'sess, 'json) libs \<Rightarrow> proxy \<Rightarrow> 'i \<Rightarrow> ('s, 'i, 'sess) world \<Rightarrow> ('s, 'i, 'sess) world
    \<Rightarrow> ('s, 'i, 'sess) world \<Rightarrow> ('s, 'i, 'sess) world \<Rightarrow> filtered \<Rightarrow> bool"
where
  "handled L P i w0 w1 w2 w r \<longleftrightarrow>
     request_filter L P i w0 = (w1, r)
     \<and> (if r = Filter_Waits
        then wd_ctx w2 = wd_ctx w1 \<and> no_queue_waiters L w2 \<and> filters L P (fst (request_filter_resume L P w2)) w
        else filters L P w1 w)"

lemma handled_at_once:
  assumes "libs_ok L" "no_queue_waiters L w0" "wd_ctx w0 = new_ctx rid" "handled L P i w0 w1 w2 w r" "r \<noteq> Filter_Waits"
  shows "balance L w = balance L w0 \<and> cx_outcome (wd_ctx w) \<in> outcome_names"
proof -
  from assms(4,5) have h: "request_filter L P i w0 = (w1, r)" "filters L P w1 w" by (simp_all add: handled_def)
  from request_filter_result [OF assms(1-3) h(1)] assms(5) filters_balance [OF h(2) assms(1)] show ?thesis by simp
qed

lemma handled_after_waiting:
  assumes "libs_ok L" "wd_ctx w0 = new_ctx rid" "handled L P i w0 w1 w2 w Filter_Waits"
  shows "balance L w = (Suc (active_total L w2), mt_active (wd_metrics w2),
      Suc (sem_permits (lib_semaphore L) (wd_queued w2)), mt_queued (wd_metrics w2) - 1, mt_requests (wd_metrics w2))
    \<and> active_total L w2 = sem_permits (lib_semaphore L) (wd_active w2) + length (wd_woken w2)
    \<and> cx_outcome (wd_ctx w) \<in> outcome_names"
proof -
  from assms(3) have h: "request_filter L P i w0 = (w1, Filter_Waits)" "wd_ctx w2 = wd_ctx w1" "no_queue_waiters L w2"
    "filters L P (fst (request_filter_resume L P w2)) w" by (simp_all add: handled_def)
  obtain profile extension where c: "cx_decision (begin_request L P (wd_session w0) (wd_ctx w0)) = Rewrite profile extension False"
    "wd_ctx w2 = suspended_ctx (begin_request L P (wd_session w0) (wd_ctx w0)) extension"
    by (rule request_filter_waits [OF assms(1) h(1)]) (use that h(2) in metis)
  have c2: "\<not> cx_active_permit (wd_ctx w2)" "cx_outcome (wd_ctx w2) = ''queued''"
    "cx_decision (wd_ctx w2) = Rewrite profile extension False"
    using c by (simp_all add: suspended_ctx_def begin_request_def assms(2) new_ctx_def Let_def)
  obtain p where w3: "fst (request_filter_resume L P w2) = on_ctx (\<lambda>c. c\<lparr>cx_rewriter := Some p\<rparr>) (admit_resume L w2)"
    by (rule request_filter_resumes [OF assms(1) c2(3), of P]) simp
  note resumed = admit_resume_balance [OF assms(1) h(3) c2(1)]
  have "cx_outcome (wd_ctx (fst (request_filter_resume L P w2))) \<in> outcome_names"
    by (simp add: w3 resumed c2 outcome_names_def)
  moreover have "balance L (admit_resume L w2) = (Suc (active_total L w2), mt_active (wd_metrics w2),
      Suc (sem_permits (lib_semaphore L) (wd_queued w2)), mt_queued (wd_metrics w2) - 1, mt_requests (wd_metrics w2))"
    by (simp add: balance_def resumed)
  moreover have "active_total L w2 = sem_permits (lib_semaphore L) (wd_active w2) + length (wd_woken w2)"
    using c2(1) by (simp add: active_total_def)
  ultimately show ?thesis using filters_balance [OF h(4) assms(1)] by (simp add: w3 balance_on_ctx)
qed

text \<open>
  C7. Whatever happens between \<open>request_filter\<close> and \<open>logging\<close>, a request gives back exactly what it
  took, and is counted exactly once, under its own outcome (one of nine names) and label. A request
  that does not wait leaves permits, gauges and queue as it found them. A request that waits takes
  one place of the queue and one of the queued gauge and stands at the end of the line; once it is
  resumed, it returns the place, the count and in the end the permit that it was handed.
\<close>

theorem request_lifecycle:
  assumes "libs_ok L" "no_queue_waiters L w0" "wd_ctx w0 = new_ctx rid" "handled L P i w0 w1 w2 w r"
    and "w' = logging L P failed w" "S = lib_semaphore L"
    and "outc = (if failed then ''error'' else cx_outcome (wd_ctx w))" "label = metrics_extension P (wd_ctx w)"
  shows "\<not> cx_active_permit (wd_ctx w') \<and> outc \<in> insert ''error'' outcome_names
    \<and> (if r = Filter_Waits
       then sem_permits S (wd_queued w0) = Suc (sem_permits S (wd_queued w1))
         \<and> mt_queued (wd_metrics w1) = mt_queued (wd_metrics w0) + 1
         \<and> mt_active (wd_metrics w1) = mt_active (wd_metrics w0) \<and> mt_requests (wd_metrics w1) = mt_requests (wd_metrics w0)
         \<and> sem_permits S (wd_active w0) = 0 \<and> sem_waiting S (wd_active w1) = sem_waiting S (wd_active w0) @ [i]
         \<and> sem_permits S (wd_queued w') = Suc (sem_permits S (wd_queued w2))
         \<and> mt_queued (wd_metrics w') = mt_queued (wd_metrics w2) - 1
         \<and> sem_permits S (wd_active w') + length (wd_woken w') = Suc (sem_permits S (wd_active w2) + length (wd_woken w2))
         \<and> mt_active (wd_metrics w') = mt_active (wd_metrics w2)
         \<and> mt_requests (wd_metrics w') = inc_by (outc, label) 1 (mt_requests (wd_metrics w2))
       else sem_permits S (wd_active w') + length (wd_woken w') = sem_permits S (wd_active w0) + length (wd_woken w0)
         \<and> sem_permits S (wd_queued w') = sem_permits S (wd_queued w0)
         \<and> mt_active (wd_metrics w') = mt_active (wd_metrics w0)
         \<and> mt_queued (wd_metrics w') = mt_queued (wd_metrics w0)
         \<and> mt_requests (wd_metrics w') = inc_by (outc, label) 1 (mt_requests (wd_metrics w0)))"
proof (cases "r = Filter_Waits")
  case True
  note settled = logging_settles [OF assms(1,5)]
  from assms(4) True have waits: "request_filter L P i w0 = (w1, Filter_Waits)" by (simp add: handled_def)
  from handled_after_waiting [OF assms(1,3) assms(4) [unfolded True]] settled
  have after: "balance L w = (Suc (active_total L w2), mt_active (wd_metrics w2),
      Suc (sem_permits S (wd_queued w2)), mt_queued (wd_metrics w2) - 1, mt_requests (wd_metrics w2))"
    "active_total L w2 = sem_permits S (wd_active w2) + length (wd_woken w2)" "outc \<in> insert ''error'' outcome_names"
    by (auto simp: assms(6,7))
  show ?thesis
    by (rule request_filter_waits [OF assms(1) waits])
      (use True after settled in \<open>simp add: assms(6-8) balance_def\<close>)
next
  case False
  from handled_at_once [OF assms(1-4) False] logging_settles [OF assms(1,5)] False assms(3)
  show ?thesis by (auto simp: assms(6-8) balance_def active_total_def new_ctx_def)
qed

section \<open>A request that has waited\<close>

text \<open>The outcome is only read by \<open>logging\<close>.\<close>

lemma body_filter_outcome:
  "response_body_filter L body eos (c\<lparr>cx_outcome := outc\<rparr>) =
     (case response_body_filter L body eos c of (c', x) \<Rightarrow> (c'\<lparr>cx_outcome := outc\<rparr>, x))"
  by (simp add: response_body_filter_def Let_def split: option.split prod.split outcome.split)

lemma deliver_outcome: "deliver L (c\<lparr>cx_outcome := outc\<rparr>) bs = deliver L c bs"
  by (induction bs arbitrary: c) (simp_all add: body_filter_outcome split: prod.split outcome.split)

lemma derived_etag_outcome [simp]: "derived_etag L P (c\<lparr>cx_outcome := outc\<rparr>) h = derived_etag L P c h"
  by (simp add: derived_etag_def)

lemma scrub_response_outcome:
  assumes "libs_ok L" "wd_ctx w = (wd_ctx v)\<lparr>cx_outcome := outc\<rparr>"
  shows "snd (scrub_response L etag w rsp) = snd (scrub_response L etag v rsp)
    \<and> (wd_ctx (fst (scrub_response L etag w rsp)))\<lparr>cx_outcome := []\<rparr>
      = (wd_ctx (fst (scrub_response L etag v rsp)))\<lparr>cx_outcome := []\<rparr>"
  by (simp add: scrub_response_def Let_def assms(2) stop_rewrite_balance(3) [OF assms(1)]
      split: outcome.split option.split)

lemma response_filter_outcome:
  assumes "libs_ok L" "wd_ctx w = (wd_ctx v)\<lparr>cx_outcome := outc\<rparr>"
  shows "snd (response_filter L P w rsp) = snd (response_filter L P v rsp)
    \<and> (wd_ctx (fst (response_filter L P w rsp)))\<lparr>cx_outcome := []\<rparr>
      = (wd_ctx (fst (response_filter L P v rsp)))\<lparr>cx_outcome := []\<rparr>"
  using scrub_response_outcome [OF assms]
  by (simp add: response_filter_def Let_def assms(2) stop_rewrite_balance(3) [OF assms(1)]
      split: outcome.split rewrite_decision.split)

lemma deliver_sans:
  "c\<lparr>cx_outcome := []\<rparr> = c'\<lparr>cx_outcome := []\<rparr> \<Longrightarrow> deliver L c bs = deliver L c' bs"
  by (metis deliver_outcome)

lemma request_filter_admits:
  assumes "libs_ok L" "cx_decision (begin_request L P (wd_session w) (wd_ctx w)) = Rewrite profile extension False"
    and "0 < sem_permits (lib_semaphore L) (wd_active w)"
    and "build_selected_response_rewriter (lib_memchr L) (lib_codec L) profile (ec_base_path (px_config P))
       extension (ec_max_decoded_bytes (px_config P)) = Ok p"
  obtains v where "request_filter L P i w = (v, Continue)"
    "wd_ctx v = (begin_request L P (wd_session w) (wd_ctx w))
       \<lparr>cx_extension := Some extension, cx_outcome := ''rewrite'', cx_active_permit := True, cx_rewriter := Some p\<rparr>"
proof -
  from assms(1) have "semaphore_ok (lib_semaphore L)" by (simp add: libs_ok_def)
  from sem_try_None [OF this] assms(3) obtain s where "sem_try_acquire (lib_semaphore L) (wd_active w) = Some s" by fastforce
  with assms(2,4) that show thesis
    by (auto simp: request_filter_def Let_def admit_rewrite_def build_rewriter_def)
qed

text \<open>
  C33. Having waited makes no difference to anyone but the log: a request that is resumed goes on to the
  upstream as it would have, had there been a free permit on its arrival. Its context differs in
  the outcome alone; so the upstream is sent the same request, every response of the upstream is
  answered in the same way, and the same body is delivered.
\<close>

theorem waiting_transparent:
  assumes "libs_ok L" "wd_ctx w0 = new_ctx rid" "request_filter L P i w0 = (w1, Filter_Waits)"
    and "wd_ctx w2 = wd_ctx w1" "no_queue_waiters L w2" "request_filter_resume L P w2 = (w, r)"
    and "0 < sem_permits (lib_semaphore L) s" "request_filter L P i (w0\<lparr>wd_active := s\<rparr>) = (v, r')"
  shows "r = Continue \<and> r' = Continue \<and> wd_ctx w = (wd_ctx v)\<lparr>cx_outcome := ''queued''\<rparr>
    \<and> wd_session w = wd_session w2
    \<and> upstream_request_filter L P (wd_ctx w) u = upstream_request_filter L P (wd_ctx v) u
    \<and> snd (response_filter L P w rsp) = snd (response_filter L P v rsp)
    \<and> deliver L (wd_ctx (fst (response_filter L P w rsp))) bs = deliver L (wd_ctx (fst (response_filter L P v rsp))) bs"
proof -
  let ?c = "begin_request L P (wd_session w0) (wd_ctx w0)"
  obtain profile extension where c: "cx_decision ?c = Rewrite profile extension False" "wd_ctx w2 = suspended_ctx ?c extension"
    by (rule request_filter_waits [OF assms(1,3)]) (use that assms(4) in metis)
  then have dec: "cx_decision (wd_ctx w2) = Rewrite profile extension False" "\<not> cx_active_permit (wd_ctx w2)"
    by (simp_all add: suspended_ctx_def begin_request_def assms(2) new_ctx_def Let_def)
  obtain p where w: "(w, r) = (on_ctx (\<lambda>c. c\<lparr>cx_rewriter := Some p\<rparr>) (admit_resume L w2), Continue)"
    and p: "build_selected_response_rewriter (lib_memchr L) (lib_codec L) profile (ec_base_path (px_config P))
       extension (ec_max_decoded_bytes (px_config P)) = Ok p"
    by (rule request_filter_resumes [OF assms(1) dec(1), of P]) (use assms(6) in simp)
  let ?w0 = "w0\<lparr>wd_active := s\<rparr>"
  have "cx_decision (begin_request L P (wd_session ?w0) (wd_ctx ?w0)) = Rewrite profile extension False"
    "0 < sem_permits (lib_semaphore L) (wd_active ?w0)" using c(1) assms(7) by simp_all
  then obtain v' where "request_filter L P i ?w0 = (v', Continue)" "wd_ctx v' =
      ?c\<lparr>cx_extension := Some extension, cx_outcome := ''rewrite'', cx_active_permit := True, cx_rewriter := Some p\<rparr>"
    by (rule request_filter_admits [OF assms(1) _ _ p, of ?w0]) simp
  with assms(8) have v: "r' = Continue" "wd_ctx v =
      ?c\<lparr>cx_extension := Some extension, cx_outcome := ''rewrite'', cx_active_permit := True, cx_rewriter := Some p\<rparr>"
    by simp_all
  have ctx: "wd_ctx w = (wd_ctx v)\<lparr>cx_outcome := ''queued''\<rparr>"
    using w by (simp add: v(2) c(2) suspended_ctx_def admit_resume_balance(5) [OF assms(1,5) dec(2)])
  moreover have "wd_session w = wd_session w2" using w by (simp add: admit_resume_def)
  moreover have "upstream_request_filter L P (wd_ctx w) u = upstream_request_filter L P (wd_ctx v) u"
    by (simp add: ctx upstream_request_filter_def)
  ultimately show ?thesis
    using w v(1) response_filter_outcome [OF assms(1) ctx, of P rsp] by (auto intro: deliver_sans)
qed

section \<open>A run\<close>

text \<open>The second request of the sample run, on its arrival and when it waits.\<close>

abbreviation second_world :: "(nat \<times> nat list, nat, sample_session) world" where
  "second_world \<equiv> enter queue_state1 (wd_session (sample_world bundle_path)) (new_ctx ''id'')"

abbreviation waiting_world :: "(nat \<times> nat list, nat, sample_session) world" where
  "waiting_world \<equiv> fst (arrival 1 queue_state1)"

abbreviation resumed_world :: "(nat \<times> nat list, nat, sample_session) world" where
  "resumed_world \<equiv> fst (request_filter_resume sample_libs (proxy_new queue_config) waiting_world)"

lemma second_waits:
  "request_filter sample_libs (proxy_new queue_config) 1 second_world = (waiting_world, Filter_Waits)"
  using queue_results(2) by (simp add: arrival_def prod_eq_iff)

lemma second_queue: "no_queue_waiters sample_libs second_world" "no_queue_waiters sample_libs waiting_world"
proof -
  have "snd (wd_queued second_world) = [] \<and> snd (wd_queued waiting_world) = []" by code_simp
  then show "no_queue_waiters sample_libs second_world" "no_queue_waiters sample_libs waiting_world"
    by (simp_all add: no_queue_waiters_def sample_libs_def fifo_lib_def)
qed

theorem request_lifecycle_witness:
  "\<not> cx_active_permit (wd_ctx (logging sample_libs sample_proxy False admitted_world))
   \<and> fst (wd_active (logging sample_libs sample_proxy False admitted_world))
       + length (wd_woken (logging sample_libs sample_proxy False admitted_world)) = 1
   \<and> fst (wd_queued second_world) = Suc (fst (wd_queued waiting_world))
   \<and> fst (wd_queued (logging sample_libs (proxy_new queue_config) False resumed_world)) = Suc (fst (wd_queued waiting_world))"
proof -
  have sem: "sem_permits (lib_semaphore sample_libs) = fst" by (simp add: sample_libs_def fifo_lib_def)
  have "handled sample_libs sample_proxy 0 (sample_world bundle_path) admitted_world admitted_world admitted_world Continue"
    unfolding handled_def by (intro conjI sample_request) (simp add: filters_start)
  from request_lifecycle [OF sample_libs_ok sample_fresh this refl refl refl refl, of False]
  have "\<not> cx_active_permit (wd_ctx (logging sample_libs sample_proxy False admitted_world))
   \<and> fst (wd_active (logging sample_libs sample_proxy False admitted_world))
       + length (wd_woken (logging sample_libs sample_proxy False admitted_world)) = 1"
    by (simp add: sem sample_world_def)
  moreover have "handled sample_libs (proxy_new queue_config) 1 second_world waiting_world waiting_world resumed_world Filter_Waits"
    unfolding handled_def by (intro conjI second_waits) (simp only: simp_thms if_True second_queue(2) filters_start)
  from request_lifecycle [OF sample_libs_ok second_queue(1) _ this refl refl refl refl, of "''id''" False] enter_sel(6)
  have "fst (wd_queued second_world) = Suc (fst (wd_queued waiting_world))
   \<and> fst (wd_queued (logging sample_libs (proxy_new queue_config) False resumed_world)) = Suc (fst (wd_queued waiting_world))"
    by (simp add: sem)
  ultimately show ?thesis by blast
qed

theorem waiting_transparent_witness:
  "snd (request_filter_resume sample_libs (proxy_new queue_config) waiting_world) = Continue
   \<and> wd_ctx resumed_world =
     (wd_ctx (fst (request_filter sample_libs (proxy_new queue_config) 1 (second_world\<lparr>wd_active := (1, [])\<rparr>))))
       \<lparr>cx_outcome := ''queued''\<rparr>"
proof -
  have free: "0 < sem_permits (lib_semaphore sample_libs) (1, [])" by (simp add: sample_libs_def fifo_lib_def)
  have fresh: "wd_ctx second_world = new_ctx ''id''" by simp
  note transparent = waiting_transparent [OF sample_libs_ok fresh second_waits refl second_queue(2) prod.collapse [symmetric]
      free prod.collapse [symmetric]]
  show ?thesis
    using transparent [THEN conjunct1] transparent [THEN conjunct2, THEN conjunct2, THEN conjunct1] by (rule conjI)
qed

end
