(* ===== verification/Spec2Isabelle.thy ===== *)
theory Spec2Isabelle
  imports Rewriter_Properties Policy_Correct Mig_Meta_Correct Profiles_Correct Headers_Correct
    Config_Correct Admission_Drop Admission_Refinement Text_Correct Rewrite_Again
    Process_Correct Concurrent_Correct Lifecycle_Correct
begin

text \<open>
  A model of the KSE static rewrite proxy, a Rust reverse proxy that stands in front of a console,
  decides for each request whether its response has to be rewritten so that it works under a
  base path, and rewrites the bodies of such responses as they stream through. All paths below
  are under \<open>src/src/\<close>.

  \<^bold>\<open>The program.\<close> \<open>main.rs\<close> reads a YAML file into an \<open>EffectiveConfig\<close> (\<open>config.rs\<close>) and starts two
  servers: the proxy (\<open>proxy.rs\<close>) and the administrative one (\<open>admin.rs\<close>). For each request the
  proxy asks the policy (\<open>rewrite.rs\<close>) for a decision. A rewritten request takes one of a few
  permits or waits for one (admission); its upstream request asks for the plain, whole body; the
  response is checked, its headers are scrubbed, and the chunks of its body go through a
  pipeline of streaming rewriters (\<open>literal.rs\<close>) that \<open>rewrite.rs\<close> builds for the profile.

  \<^bold>\<open>The theories.\<close>
  \<^item> \<open>Prelude\<close>: bytes, sizes, results of fallible calls (\<open>Ok\<close>, \<open>Err\<close>, \<open>Panic\<close>), occurrences in lists;
    \<open>Memchr\<close>, \<open>Utf8\<close>, \<open>Numbers\<close>, \<open>Rust_Str\<close>, \<open>Socket_Addr\<close>: the searching crate as a parameter with laws,
    and the parts of the standard library that are used (\<open>str::from_utf8\<close>, printing of integers, string
    operations, parser and printer of socket addresses); \<open>Socket_Addr_Correct\<close>: parsing what was printed
    gives the address back.
  \<^item> \<open>Stages\<close>: the interface of a streaming stage as the locale \<open>stream_stage\<close>, with what follows for a
    client that pushes chunks, and chains of stages as a stage again.
  \<^item> \<open>Literal\<close>, \<open>Pattern\<close>, \<open>Pipeline\<close> (\<open>literal.rs\<close>): the state of each rewriter is a record with the
    fields of the struct, \<open>push\<close>, \<open>finish\<close> and \<open>process_available\<close> are functions that return a result
    and the next state. \<open>Literal_Correct\<close>, \<open>Pattern_Correct\<close>, \<open>Pipeline_Correct\<close> interpret \<open>stream_stage\<close>
    on them; \<open>Rewriter_Properties\<close> states what follows: for every way of cutting the body the output
    is the reference rewriting of the whole body, calls never panic, buffers are bounded.
  \<^item> \<open>Policy\<close> (\<open>RewritePolicy\<close>, \<open>decide\<close> and its three parts); \<open>Policy_Correct\<close>: \<open>decide\<close> implements a
    grammar of paths, what it lets through is under the base path and allowed, and how each rule
    switch changes it.
  \<^item> \<open>Mig_Meta\<close>, \<open>Profiles\<close> (\<open>rewrite_mig_meta_base_uri\<close>, \<open>build_selected_response_rewriter\<close> with every
    literal of the source); \<open>Mig_Meta_Correct\<close>, \<open>Profiles_Correct\<close>: functional descriptions,
    idempotence, and for every profile the rewriting of the whole body. \<open>Rewrite_Again\<close>: when
    rewriting a rewritten body once more changes nothing, and a base path under which it does.
  \<^item> \<open>Config\<close> (\<open>config.rs\<close>); \<open>Base_Path_Correct\<close>: an accepted base path is safe under any number of
    percent decodings; \<open>Config_Correct\<close>: what every accepted configuration satisfies, which
    upstreams are accepted, the policy that results.
  \<^item> \<open>Headers\<close> (content type, encoding, entity tags, \<open>Vary\<close>, the upstream URI); \<open>Headers_Correct\<close>: entity
    tags and their revalidation; \<open>Header_Spec\<close>: the header decisions stated on the text of the values
    (elements of a list, unencoded bodies, admitted types, the derived tag, which client has a tag,
    which path needs the base path), and the proof that the functions of the code decide them. The
    properties of the handlers are stated with these.
  \<^item> \<open>Admission\<close>: \<open>admit_rewrite\<close> and \<open>stop_rewrite\<close> as atomic steps on two semaphores and two gauges,
    \<open>admission_step\<close> for one request and the relation \<open>admission_steps\<close> for all interleavings;
    \<open>Admission_Correct\<close>: limits, exact gauges, fairness, progress without deadlock or lost permits;
    \<open>Admission_Drop\<close>: the same with requests whose futures are dropped.
  \<^item> \<open>Handler\<close>: the callbacks of \<open>ProxyHttp\<close> as functions of a world (semaphores, metrics, session,
    context); \<open>Sample_Proxy\<close>: the hypotheses on the parameters and a concrete proxy;
    \<open>Handler_Correct\<close>: permits and metrics balance over the handlers;
    \<open>Admission_Refinement\<close>: the handlers are sequences of admission steps; \<open>Response_Correct\<close>: the URI and
    the headers sent to the upstream, the table of what becomes of a response, revalidation;
    \<open>Body_Correct\<close>: the whole way of a body through the handlers, and that requests which are not
    rewritten pass untouched; \<open>Text_Correct\<close>: what the client receives is valid UTF-8.
  \<^item> \<open>Concurrent\<close>: all requests of the process, each with its session and context, on the shared
    semaphores and metrics; one step (\<open>system_step\<close>) is one call of a handler, up to its \<open>await\<close>, and
    steps of different requests follow each other in any order. \<open>Concurrent_Correct\<close>: every run is a
    run of the admission model, so that the number of rewriters and waiters is bounded, the gauges are
    exact, no permit is lost, and the process can always come to rest. \<open>Lifecycle_Correct\<close>: one request
    from first handler to last, waiting included, gives back what it took, and having waited makes
    no difference to what the upstream and the client are sent.
  \<^item> \<open>Request_Id\<close> (\<open>new_request_id\<close> and its counter, a 64 bit word); \<open>Request_Id_Correct\<close>: generated ids are
    distinct, and one id per request reaches the upstream and the client.
  \<^item> \<open>Metrics\<close> (\<open>metrics.rs\<close>): the six families, their registration and encoding. \<open>Admin\<close> (\<open>admin.rs\<close>): the
    routes of the administrative server. \<open>Process\<close> (\<open>main.rs\<close>, \<open>KseRewriteProxy::new\<close>): the start of the
    process; \<open>Process_Correct\<close>: when it starts and what it then serves, that it is at rest again after
    any sequence of requests, and the answers of the administrative service.

  \<^bold>\<open>Conventions.\<close> A byte is a character; strings are their UTF-8 bytes. A \<open>usize\<close> is a natural
  number; where the source checks for overflow (\<open>checked_add\<close>) or wraps (the byte counters in a
  release build) the bound \<open>2^64\<close> is written out. The values of the metrics are unbounded numbers, where
  the atomics of the prometheus crate wrap at 64 bits. A \<open>HashSet\<close> is a set, a \<open>HashMap\<close> the list of its
  entries in an arbitrary order. Header names are lower case. Every \<open>expect\<close>, slice and index that
  could fail is a branch with the value \<open>Panic\<close> (or \<open>None\<close>), and theorems say that it is not taken.
  Loops are functions with a proved measure. The only bound that stands for a loop is the one of
  the code, 1024 rounds of percent decoding; \<open>decode_repeatedly_complete\<close> proves it sufficient.

  \<^bold>\<open>Parameters.\<close> Code that is not in the repository is an argument of the definitions that use it, with
  its documented behaviour as named hypotheses: \<open>memchr_ok\<close> (memchr), \<open>codec_ok\<close> (base64,
  serde_json), \<open>digest_ok\<close> (blake3), \<open>header_ok\<close> (header maps of http, the locale \<open>header_map\<close>),
  \<open>parse_ok\<close> (http::Uri), \<open>url_ok\<close> (url), \<open>pct_ok\<close> (percent_encoding), \<open>yaml_ok\<close> (yaml_serde),
  \<open>semaphore_ok\<close> and \<open>cancel_ok\<close> (tokio, the locales \<open>fair_semaphore\<close> and \<open>cancellable_semaphore\<close>),
  \<open>prometheus_ok\<close> (prometheus, the locale \<open>metric_registry\<close>), the session of pingora, and for the start of the process the environment, the file
  system, the largest semaphore and the success of the logging and server set-up. Each has a concrete
  instance on which the witnesses are evaluated.

  \<^bold>\<open>Not modelled.\<close> What the set-up of logging and of the pingora server does, the text format of the
  metrics, the durations that the histogram observes, the \<open>Debug\<close> instances, the
  accessors of the configuration (they are the fields of its record), and the scheduling of
  pingora itself: the handlers are taken to be called in the order its interface documents, one
  at a time where they do not wait (their atomic actions interleave in \<open>Admission\<close>), and the drop of
  a future, which the code leaves to \<open>tokio\<close> and to Rust, is part of \<open>Admission_Drop\<close> only: permits come
  back, but nothing lowers the gauge that had counted the request.
\<close>

end
